(* ===== verification/Prelude.thy ===== *)
theory Prelude
  imports Main "HOL-Library.Monad_Syntax"
begin

text \<open>
  Shared vocabulary of the development.

  \<^item> the named collections \<open>safe_simps\<close> (the total-correctness calculus below) and
    \<open>reply_simps\<close> (formatting of protocol text);
  \<^item> \<open>succeeds m P\<close>: the computation \<open>m\<close> of the option monad returns and its result
    satisfies \<open>P\<close>. In the models \<open>None\<close> stands for undefined behaviour of the C++ or C
    code (dereferencing a dangling or null pointer, reading outside a buffer), so
    \<open>succeeds\<close> is total correctness together with memory safety;
  \<^item> characters as the signed 8-bit \<open>char\<close> of the sources, and the control characters
    the protocol uses;
  \<^item> decimal printing, as \<open>std::ostringstream\<close> does it.
\<close>

section \<open>Named collections\<close>

named_theorems safe_simps \<open>rules of the total-correctness calculus for the option monad\<close>
named_theorems reply_simps \<open>definitions of the reply texts\<close>

section \<open>Total correctness in the option monad\<close>

definition succeeds :: "'a option \<Rightarrow> ('a \<Rightarrow> bool) \<Rightarrow> bool" where
  "succeeds m P \<longleftrightarrow> (case m of None \<Rightarrow> False | Some x \<Rightarrow> P x)"

lemma succeeds_Some [simp, safe_simps]: "succeeds (Some x) P \<longleftrightarrow> P x"
  by (simp add: succeeds_def)

lemma succeeds_None [simp, safe_simps]: "\<not> succeeds None P"
  by (simp add: succeeds_def)

lemma succeeds_bind [simp, safe_simps]:
  "succeeds (m \<bind> f) P \<longleftrightarrow> succeeds m (\<lambda>x. succeeds (f x) P)"
  by (cases m) simp_all

lemma succeeds_if [safe_simps]:
  "succeeds (if b then m else n) P \<longleftrightarrow> (if b then succeeds m P else succeeds n P)"
  by simp

lemma succeeds_ifI:
  "(b \<Longrightarrow> succeeds m P) \<Longrightarrow> (\<not> b \<Longrightarrow> succeeds n P) \<Longrightarrow> succeeds (if b then m else n) P"
  by simp

lemma succeeds_mono: "succeeds m P \<Longrightarrow> (\<And>x. P x \<Longrightarrow> Q x) \<Longrightarrow> succeeds m Q"
  by (cases m) simp_all

lemma succeeds_conj: "succeeds m P \<Longrightarrow> succeeds m Q \<Longrightarrow> succeeds m (\<lambda>x. P x \<and> Q x)"
  by (cases m) simp_all

lemma succeeds_iff: "succeeds m P \<longleftrightarrow> (\<exists>x. m = Some x \<and> P x)"
  by (cases m) simp_all

lemma succeedsD: "succeeds m P \<Longrightarrow> m = Some x \<Longrightarrow> P x"
  by simp

text \<open>Partial correctness: whatever is returned satisfies \<open>P\<close>.\<close>

definition yields :: "'a option \<Rightarrow> ('a \<Rightarrow> bool) \<Rightarrow> bool" where
  "yields m P \<longleftrightarrow> (\<forall>x. m = Some x \<longrightarrow> P x)"

lemma yields_simps [simp]:
  "yields (Some x) P \<longleftrightarrow> P x" "yields None P"
  "yields (m \<bind> f) P \<longleftrightarrow> yields m (\<lambda>x. yields (f x) P)"
  by (auto simp: yields_def bind_eq_Some_conv)

lemma yieldsI: "(\<And>x. m = Some x \<Longrightarrow> P x) \<Longrightarrow> yields m P"
  by (simp add: yields_def)

lemma yields_ifI:
  "(b \<Longrightarrow> yields m P) \<Longrightarrow> (\<not> b \<Longrightarrow> yields n P) \<Longrightarrow> yields (if b then m else n) P"
  by simp

lemma yields_caseI:
  "(opt = None \<Longrightarrow> yields m P) \<Longrightarrow> (\<And>x. opt = Some x \<Longrightarrow> yields (f x) P) \<Longrightarrow>
     yields (case opt of None \<Rightarrow> m | Some x \<Rightarrow> f x) P"
  by (cases opt) simp_all

lemma yields_bindI: "(\<And>x. m = Some x \<Longrightarrow> yields (f x) P) \<Longrightarrow> yields (m \<bind> f) P"
  by (auto simp: yields_def bind_eq_Some_conv)

lemma yields_prodI: "(\<And>x y. p = (x, y) \<Longrightarrow> yields (f x y) P) \<Longrightarrow> yields (case p of (x, y) \<Rightarrow> f x y) P"
  by (cases p) simp

lemma succeeds_yields: "succeeds m P \<Longrightarrow> yields m Q \<Longrightarrow> succeeds m Q"
  by (auto simp: succeeds_iff yields_def)

lemmas yields_intros = yields_ifI yields_caseI yields_bindI yields_prodI

lemma option_eqI: "(\<And>w. a = Some w \<longleftrightarrow> b = Some w) \<Longrightarrow> a = b"
  by (metis not_None_eq)

text \<open>Mapping a failing function over a list, left to right.\<close>

primrec map_option_list :: "('a \<Rightarrow> 'b option) \<Rightarrow> 'a list \<Rightarrow> 'b list option" where
  "map_option_list f [] = Some []"
| "map_option_list f (x # xs) =
     do { y \<leftarrow> f x; ys \<leftarrow> map_option_list f xs; Some (y # ys) }"

lemma map_option_list_total:
  "(\<And>x. x \<in> set xs \<Longrightarrow> f x = Some (g x)) \<Longrightarrow> map_option_list f xs = Some (map g xs)"
  by (induction xs) auto

lemma filter_key_unique: "distinct (map f xs) \<Longrightarrow> y \<in> set xs \<Longrightarrow> filter (\<lambda>x. f x = f y) xs = [y]"
proof (induction xs)
  case (Cons x xs)
  show ?case
  proof (cases "x = y")
    case True
    with Cons.prems have "f y \<notin> f ` set xs" by auto
    then have "\<forall>z \<in> set xs. f z \<noteq> f y" by (metis image_eqI)
    with True show ?thesis by (simp add: filter_empty_conv)
  next
    case False
    with Cons show ?thesis by auto
  qed
qed simp

section \<open>Characters and strings\<close>

text \<open>
  The \<open>char\<close> of the sources is a signed 8-bit integer: \<open>schar\<close> is its value in
  comparisons, \<open>uchar\<close> the value after the cast to \<open>unsigned char\<close>.
\<close>

definition uchar :: "char \<Rightarrow> int" where
  "uchar c = of_char c"

definition schar :: "char \<Rightarrow> int" where
  "schar c = (if uchar c < 128 then uchar c else uchar c - 256)"

definition char_of_int :: "int \<Rightarrow> char" where
  "char_of_int i = char_of (i mod 256)"

abbreviation NUL :: char where "NUL \<equiv> CHR 0x00"
abbreviation BEL :: char where "BEL \<equiv> CHR 0x07"
abbreviation TAB :: char where "TAB \<equiv> CHR 0x09"
abbreviation LF :: char where "LF \<equiv> CHR 0x0A"
abbreviation VT :: char where "VT \<equiv> CHR 0x0B"
abbreviation FF :: char where "FF \<equiv> CHR 0x0C"
abbreviation CR :: char where "CR \<equiv> CHR 0x0D"
abbreviation CRLF :: string where "CRLF \<equiv> [CR, LF]"

lemma uchar_range: "0 \<le> uchar c" "uchar c < 256"
proof -
  have "uchar c = uchar c mod 256" by (simp add: uchar_def)
  then show "0 \<le> uchar c" "uchar c < 256"
    by (metis pos_mod_sign zero_less_numeral, metis pos_mod_bound zero_less_numeral)
qed

lemma uchar_inject [simp]: "uchar a = uchar b \<longleftrightarrow> a = b"
  by (simp add: uchar_def)

lemma schar_inject [simp]: "schar a = schar b \<longleftrightarrow> a = b"
proof -
  have "uchar a = uchar b" if "schar a = schar b"
    using that uchar_range [of a] uchar_range [of b]
    by (auto simp: schar_def split: if_splits)
  then show ?thesis by auto
qed

lemma uchar_char_of_int: "0 \<le> i \<Longrightarrow> i < 256 \<Longrightarrow> uchar (char_of_int i) = i"
  by (simp add: uchar_def char_of_int_def of_char_of)

lemma char_of_int_uchar [simp]: "char_of_int (uchar c) = c"
  using uchar_range [of c] by (simp add: char_of_int_def uchar_def)

section \<open>Decimal printing\<close>

fun nat_to_string :: "nat \<Rightarrow> string" where
  "nat_to_string n =
     (if n < 10 then [char_of (48 + n)] else nat_to_string (n div 10) @ [char_of (48 + n mod 10)])"

declare nat_to_string.simps [simp del]

definition int_to_string :: "int \<Rightarrow> string" where
  "int_to_string i =
     (if i < 0 then CHR ''-'' # nat_to_string (nat (- i)) else nat_to_string (nat i))"

definition is_decimal_digit :: "char \<Rightarrow> bool" where
  "is_decimal_digit c \<longleftrightarrow> 48 \<le> uchar c \<and> uchar c \<le> 57"

text \<open>Reading digits back, most significant first.\<close>

fun digits_value :: "int \<Rightarrow> string \<Rightarrow> int" where
  "digits_value acc [] = acc"
| "digits_value acc (c # cs) = digits_value (acc * 10 + (uchar c - 48)) cs"

lemma digits_value_append: "digits_value acc (xs @ ys) = digits_value (digits_value acc xs) ys"
  by (induction xs arbitrary: acc) auto

lemma uchar_char_of_nat: "n < 256 \<Longrightarrow> uchar (char_of n) = int n"
  by (metis nat_of_char of_char_of mod_less of_nat_of_char uchar_def)

lemma uchar_digit: "n < 10 \<Longrightarrow> uchar (char_of (48 + n)) = 48 + int n"
  by (simp add: uchar_char_of_nat)

lemma nat_to_string_digits: "list_all is_decimal_digit (nat_to_string n)"
proof (induction n rule: nat_to_string.induct)
  case (1 n)
  then show ?case
    by (subst nat_to_string.simps)
      (auto simp: is_decimal_digit_def [of "char_of _"] uchar_digit less_Suc_eq_le [symmetric])
qed

lemma nat_to_string_nonempty [simp]: "nat_to_string n \<noteq> []"
  by (subst nat_to_string.simps) simp

lemma digits_value_nat_to_string: "digits_value 0 (nat_to_string n) = int n"
proof (induction n rule: nat_to_string.induct)
  case (1 n)
  show ?case
  proof (cases "n < 10")
    case True
    then show ?thesis by (subst nat_to_string.simps) (simp add: uchar_digit)
  next
    case False
    with "1.IH" have "digits_value 0 (nat_to_string (n div 10)) = int (n div 10)" by simp
    with False show ?thesis
      by (subst nat_to_string.simps)
        (simp add: digits_value_append uchar_digit zdiv_int zmod_int)
  qed
qed

lemma nat_to_string_inject: "nat_to_string m = nat_to_string n \<longleftrightarrow> m = n"
  by (metis digits_value_nat_to_string of_nat_eq_iff)

lemma int_to_string_nonempty [simp]: "int_to_string i \<noteq> []"
  by (simp add: int_to_string_def)

section \<open>Lists\<close>

lemma takeWhile_dropWhile_append: "takeWhile P xs @ dropWhile P xs = xs"
  by simp

lemma length_dropWhile_le: "length (dropWhile P xs) \<le> length xs"
  by (induction xs) auto

text \<open>A \<open>for\<close> loop over the positions after the first checks the tail.\<close>

lemma list_all_positions_from_1:
  "list_all (\<lambda>i. P (xs ! i)) [1..<length xs] \<longleftrightarrow> (\<forall>x \<in> set (tl xs). P x)"
proof (cases xs)
  case (Cons y ys)
  have "list_all (\<lambda>i. P (xs ! i)) [1..<length xs] \<longleftrightarrow>
      (\<forall>i \<in> Suc ` {0..<length ys}. P (xs ! i))"
    unfolding image_Suc_atLeastLessThan by (simp only: list_all_iff set_upt) (simp only: Cons list.size One_nat_def add_Suc_right add_0_right)
  also have "\<dots> \<longleftrightarrow> (\<forall>i < length ys. P (ys ! i))"
    unfolding ball_simps(9) by (auto simp: Cons)
  also have "\<dots> \<longleftrightarrow> (\<forall>x \<in> set (tl xs). P x)"
    by (simp add: Cons all_set_conv_all_nth)
  finally show ?thesis .
qed simp

lemma drop_takeWhile: "drop (length (takeWhile P xs)) xs = dropWhile P xs"
  by (induction xs) auto

end
