(* ===== verification/OrderedMap.thy ===== *)
theory OrderedMap
  imports Prelude "HOL-Library.List_Lexorder"
begin

text \<open>
  The associative containers of the C++ standard library that the server is built on.

  A \<open>std::map<K, V, Compare>\<close> is an association list sorted by the comparison
  \<open>lt\<close>, the order in which the code iterates over it. Two keys are the same key of the
  container when neither is less than the other (\<open>equivalent\<close>), which for the
  nickname and channel maps is not equality of strings. \<open>insert\<close> keeps an existing
  entry, \<open>operator[]\<close> followed by an assignment replaces its value.

  The laws (what a lookup returns after each operation, and that each operation keeps the
  list sorted) hold for every strict weak order, which is the requirement the standard puts
  on \<open>Compare\<close>; they are proved once in the locale \<open>strict_weak_order\<close>. The locale
  \<open>keyed_order\<close> describes comparisons that compare a key extracted from the element, and
  is a sublocale of the first. The interpretations for descriptors and addresses are at the
  end, the one for the IRC string comparison is in \<open>Utils\<close>.
\<close>

section \<open>Operations\<close>

definition equivalent :: "('k \<Rightarrow> 'k \<Rightarrow> bool) \<Rightarrow> 'k \<Rightarrow> 'k \<Rightarrow> bool" where
  "equivalent lt a b \<longleftrightarrow> \<not> lt a b \<and> \<not> lt b a"

fun omap_find :: "('k \<Rightarrow> 'k \<Rightarrow> bool) \<Rightarrow> ('k \<times> 'v) list \<Rightarrow> 'k \<Rightarrow> 'v option" where
  "omap_find lt [] k = None"
| "omap_find lt ((k', v) # m) k =
     (if lt k' k then omap_find lt m k else if lt k k' then None else Some v)"

fun omap_insert :: "('k \<Rightarrow> 'k \<Rightarrow> bool) \<Rightarrow> 'k \<Rightarrow> 'v \<Rightarrow> ('k \<times> 'v) list \<Rightarrow> ('k \<times> 'v) list" where
  "omap_insert lt k v [] = [(k, v)]"
| "omap_insert lt k v ((k', w) # m) =
     (if lt k' k then (k', w) # omap_insert lt k v m
      else if lt k k' then (k, v) # (k', w) # m
      else (k', w) # m)"

fun omap_put :: "('k \<Rightarrow> 'k \<Rightarrow> bool) \<Rightarrow> 'k \<Rightarrow> 'v \<Rightarrow> ('k \<times> 'v) list \<Rightarrow> ('k \<times> 'v) list" where
  "omap_put lt k v [] = [(k, v)]"
| "omap_put lt k v ((k', w) # m) =
     (if lt k' k then (k', w) # omap_put lt k v m
      else if lt k k' then (k, v) # (k', w) # m
      else (k', v) # m)"

fun omap_erase :: "('k \<Rightarrow> 'k \<Rightarrow> bool) \<Rightarrow> 'k \<Rightarrow> ('k \<times> 'v) list \<Rightarrow> ('k \<times> 'v) list" where
  "omap_erase lt k [] = []"
| "omap_erase lt k ((k', w) # m) =
     (if lt k' k then (k', w) # omap_erase lt k m
      else if lt k k' then (k', w) # m
      else m)"

definition omap_wf :: "('k \<Rightarrow> 'k \<Rightarrow> bool) \<Rightarrow> ('k \<times> 'v) list \<Rightarrow> bool" where
  "omap_wf lt m \<longleftrightarrow> sorted_wrt lt (map fst m)"

lemma omap_wf_Nil [simp]: "omap_wf lt []"
  by (simp add: omap_wf_def)

lemma omap_wf_Cons:
  "omap_wf lt (p # m) \<longleftrightarrow> (\<forall>q \<in> set m. lt (fst p) (fst q)) \<and> omap_wf lt m"
  by (auto simp: omap_wf_def)

lemma omap_find_in_set: "omap_find lt m k = Some v \<Longrightarrow> \<exists>k'. (k', v) \<in> set m \<and> equivalent lt k' k"
  by (induction m) (auto simp: equivalent_def split: if_splits)

section \<open>The laws, for any strict weak order\<close>

locale strict_weak_order =
  fixes lt :: "'k \<Rightarrow> 'k \<Rightarrow> bool"
  assumes irrefl: "\<not> lt a a"
    and trans: "lt a b \<Longrightarrow> lt b c \<Longrightarrow> lt a c"
    and incomparable_trans:
      "equivalent lt a b \<Longrightarrow> equivalent lt b c \<Longrightarrow> equivalent lt a c"
begin

lemma asym: "lt a b \<Longrightarrow> \<not> lt b a"
  using irrefl trans by blast

lemma equivalent_refl [simp]: "equivalent lt a a"
  by (simp add: equivalent_def irrefl)

lemma equivalent_sym: "equivalent lt a b \<Longrightarrow> equivalent lt b a"
  by (auto simp: equivalent_def)

lemma lt_equivalent_left: "equivalent lt a b \<Longrightarrow> lt a c \<longleftrightarrow> lt b c"
  by (metis equivalent_def incomparable_trans trans)

lemma lt_equivalent_right: "equivalent lt a b \<Longrightarrow> lt c a \<longleftrightarrow> lt c b"
  by (metis equivalent_def incomparable_trans trans)

lemma find_equivalent: "equivalent lt k k' \<Longrightarrow> omap_find lt m k = omap_find lt m k'"
  using lt_equivalent_left [of k k'] lt_equivalent_right [of k k']
  by (induction m) (auto split: prod.splits)

lemma find_None_below:
  "omap_wf lt m \<Longrightarrow> (\<forall>q \<in> set m. lt k (fst q)) \<Longrightarrow> omap_find lt m k = None"
  by (cases m) (auto simp: asym)

lemma beyond:
  assumes "omap_wf lt (p # m)" "\<not> lt (fst p) k" "q \<in> set m"
  shows "\<not> equivalent lt (fst q) k"
proof
  assume "equivalent lt (fst q) k"
  moreover have "lt (fst p) (fst q)" using assms(1,3) by (simp add: omap_wf_Cons)
  ultimately have "lt (fst p) k" using lt_equivalent_right by blast
  with assms(2) show False ..
qed

text \<open>A lookup finds exactly the entries that are present.\<close>

lemma find_Some_iff:
  "omap_wf lt m \<Longrightarrow>
     omap_find lt m k = Some v \<longleftrightarrow> (\<exists>k'. (k', v) \<in> set m \<and> equivalent lt k' k)"
proof (induction m)
  case Nil
  then show ?case by simp
next
  case (Cons p m)
  obtain k1 v1 where p: "p = (k1, v1)" by (cases p)
  from Cons.prems have above: "\<And>q. q \<in> set m \<Longrightarrow> lt k1 (fst q)" and wf: "omap_wf lt m"
    by (auto simp: omap_wf_Cons p)
  have IH: "omap_find lt m k = Some v \<longleftrightarrow> (\<exists>k'. (k', v) \<in> set m \<and> equivalent lt k' k)"
    using Cons.IH wf .
  show ?case
  proof (cases "lt k1 k")
    case True
    then have "\<not> equivalent lt k1 k" by (simp add: equivalent_def)
    with True show ?thesis using IH by (auto simp: p)
  next
    case False
    then have "\<And>q. q \<in> set m \<Longrightarrow> \<not> equivalent lt (fst q) k"
      using beyond [OF Cons.prems] by (simp add: p)
    then have "\<And>k' w. (k', w) \<in> set m \<Longrightarrow> \<not> equivalent lt k' k" by force
    with False show ?thesis by (auto simp: p equivalent_def)
  qed
qed

lemma find_None_iff:
  assumes "omap_wf lt m"
  shows "omap_find lt m k = None \<longleftrightarrow> (\<forall>q \<in> set m. \<not> equivalent lt (fst q) k)"
proof -
  have "omap_find lt m k = None \<longleftrightarrow> (\<forall>v. omap_find lt m k \<noteq> Some v)"
    by (cases "omap_find lt m k") auto
  then show ?thesis
    unfolding find_Some_iff [OF assms] by auto
qed

lemma find_unique: "omap_wf lt m \<Longrightarrow> (k, v) \<in> set m \<Longrightarrow> omap_find lt m k = Some v"
  unfolding find_Some_iff by (intro exI [of _ k]) simp

lemma find_eqI:
  assumes "omap_wf lt m"
    and "\<And>w. (\<exists>k'. (k', w) \<in> set m \<and> equivalent lt k' k) \<longleftrightarrow> r = Some w"
  shows "omap_find lt m k = r"
  by (rule option_eqI) (simp only: find_Some_iff [OF assms(1)] assms(2))

lemma set_insert:
  "set (omap_insert lt k v m) =
     (if omap_find lt m k = None then insert (k, v) (set m) else set m)"
proof (induction m)
  case (Cons p m)
  then show ?case by (cases p) (simp add: insert_commute)
qed simp

lemma set_insert_subset: "set (omap_insert lt k v m) \<subseteq> insert (k, v) (set m)"
  by (auto simp: set_insert split: if_splits)

lemma in_set_erase:
  "omap_wf lt m \<Longrightarrow> q \<in> set (omap_erase lt k m) \<longleftrightarrow> q \<in> set m \<and> \<not> equivalent lt (fst q) k"
proof (induction m)
  case Nil
  then show ?case by simp
next
  case (Cons p m)
  obtain k1 v1 where p: "p = (k1, v1)" by (cases p)
  have above: "\<not> lt k1 k \<Longrightarrow> q \<in> set m \<Longrightarrow> \<not> equivalent lt (fst q) k"
    using beyond [OF Cons.prems, of k q] by (simp add: p)
  have IH: "q \<in> set (omap_erase lt k m) \<longleftrightarrow> q \<in> set m \<and> \<not> equivalent lt (fst q) k"
    using Cons by (simp add: omap_wf_Cons)
  show ?case
  proof (cases "q = p")
    case True
    then show ?thesis
      using IH above by (cases "lt k1 k"; cases "lt k k1") (auto simp: p equivalent_def)
  next
    case False
    then show ?thesis
      using IH above by (cases "lt k1 k"; cases "lt k k1") (auto simp: p)
  qed
qed

lemma wf_insert: "omap_wf lt m \<Longrightarrow> omap_wf lt (omap_insert lt k v m)"
proof (induction m)
  case Nil
  then show ?case by (simp add: omap_wf_def)
next
  case (Cons p m)
  then show ?case
    using set_insert_subset [of k v m] by (cases p) (auto simp: omap_wf_Cons intro: trans)
qed

lemma wf_put: "omap_wf lt m \<Longrightarrow> omap_wf lt (omap_put lt k v m)"
proof -
  have "map fst (omap_put lt k v m) = map fst (omap_insert lt k v m)"
    by (induction m) (auto split: if_splits)
  then show "omap_wf lt m \<Longrightarrow> omap_wf lt (omap_put lt k v m)"
    using wf_insert [of m k v] by (simp add: omap_wf_def)
qed

lemma wf_erase: "omap_wf lt m \<Longrightarrow> omap_wf lt (omap_erase lt k m)"
proof (induction m)
  case Nil
  then show ?case by simp
next
  case (Cons p m)
  then show ?case
    by (cases p) (auto simp: omap_wf_Cons in_set_erase split: if_splits)
qed

text \<open>The lookup laws.\<close>

lemma find_insert:
  assumes "omap_wf lt m"
  shows "omap_find lt (omap_insert lt k v m) k' =
    (if equivalent lt k' k \<and> omap_find lt m k = None then Some v else omap_find lt m k')"
proof (rule find_eqI [OF wf_insert [OF assms]])
  fix w
  show "(\<exists>k''. (k'', w) \<in> set (omap_insert lt k v m) \<and> equivalent lt k'' k') \<longleftrightarrow>
    (if equivalent lt k' k \<and> omap_find lt m k = None then Some v else omap_find lt m k') = Some w"
  proof (cases "omap_find lt m k")
    case None
    then have "\<And>q. q \<in> set m \<Longrightarrow> \<not> equivalent lt (fst q) k"
      using find_None_iff [OF assms] by blast
    moreover have "equivalent lt k k' \<longleftrightarrow> equivalent lt k' k" using equivalent_sym by blast
    ultimately show ?thesis
      using None find_Some_iff [OF assms, of k' w] find_equivalent [of k' k m]
      by (auto simp: set_insert)
  next
    case (Some u)
    then show ?thesis
      using find_Some_iff [OF assms, of k' w] by (simp add: set_insert)
  qed
qed

lemma find_put:
  assumes "omap_wf lt m"
  shows "omap_find lt (omap_put lt k v m) k' =
    (if equivalent lt k' k then Some v else omap_find lt m k')"
  using assms
proof (induction m)
  case Nil
  then show ?case by (simp add: equivalent_def)
next
  case (Cons p m)
  obtain k1 v1 where p: "p = (k1, v1)" by (cases p)
  have IH: "omap_find lt (omap_put lt k v m) k' =
    (if equivalent lt k' k then Some v else omap_find lt m k')"
    using Cons by (simp add: omap_wf_Cons)
  show ?case
  proof (cases "equivalent lt k' k")
    case True
    then have "omap_find lt (omap_put lt k v (p # m)) k' = omap_find lt (omap_put lt k v (p # m)) k"
      by (rule find_equivalent)
    also have "\<dots> = Some v"
      using IH True find_equivalent [OF True, of "omap_put lt k v m"] by (simp add: p irrefl)
    finally show ?thesis using True by simp
  next
    case False
    then consider "lt k' k" | "lt k k'" by (auto simp: equivalent_def)
    then show ?thesis
    proof cases
      case 1
      with False IH show ?thesis
        using trans [of k1 k' k] trans [of k' k k1] asym [of k' k]
          lt_equivalent_left [of k1 k k'] lt_equivalent_right [of k1 k k']
        by (simp add: p equivalent_def)
    next
      case 2
      with False IH show ?thesis
        using trans [of k k' k1] trans [of k k1 k'] asym [of k k']
          lt_equivalent_left [of k1 k k'] lt_equivalent_right [of k1 k k']
        by (simp add: p equivalent_def)
    qed
  qed
qed

lemma find_erase:
  assumes "omap_wf lt m"
  shows "omap_find lt (omap_erase lt k m) k' =
    (if equivalent lt k' k then None else omap_find lt m k')"
proof (rule find_eqI [OF wf_erase [OF assms]])
  fix w
  show "(\<exists>k''. (k'', w) \<in> set (omap_erase lt k m) \<and> equivalent lt k'' k') \<longleftrightarrow>
    (if equivalent lt k' k then None else omap_find lt m k') = Some w"
  proof (cases "equivalent lt k' k")
    case True
    then have "\<And>k''. equivalent lt k'' k' \<Longrightarrow> equivalent lt k'' k"
      using incomparable_trans by blast
    with True show ?thesis by (auto simp: in_set_erase [OF assms])
  next
    case False
    then have "\<And>k''. equivalent lt k'' k' \<Longrightarrow> \<not> equivalent lt k'' k"
      using incomparable_trans equivalent_sym by blast
    with False show ?thesis using find_Some_iff [OF assms, of k' w] by (auto simp: in_set_erase [OF assms])
  qed
qed

lemma key_unique:
  assumes "omap_wf lt m" "(a, v) \<in> set m" "(b, w) \<in> set m" "equivalent lt a b"
  shows "v = w"
  using find_unique [OF assms(1,2)] find_unique [OF assms(1,3)] find_equivalent [OF assms(4), of m]
  by simp

lemmas find_laws = find_insert find_put find_erase
lemmas wf_laws = wf_insert wf_put wf_erase

end

section \<open>Comparisons of an extracted key\<close>

locale keyed_order =
  fixes lt :: "'k \<Rightarrow> 'k \<Rightarrow> bool" and key :: "'k \<Rightarrow> 'o::linorder"
  assumes lt_key: "lt a b \<longleftrightarrow> key a < key b"
begin

lemma equivalent_key: "equivalent lt a b \<longleftrightarrow> key a = key b"
  by (auto simp: equivalent_def lt_key)

end

sublocale keyed_order \<subseteq> strict_weak_order lt
proof
  show "equivalent lt a b \<Longrightarrow> equivalent lt b c \<Longrightarrow> equivalent lt a c" for a b c
    by (simp add: equivalent_key)
qed (auto simp: lt_key)

section \<open>Descriptors and addresses\<close>

text \<open>
  Maps keyed by a file descriptor compare \<open>int\<close>s, maps keyed by a pointer compare
  addresses; both with the built-in order, for which equivalent keys are equal.
\<close>

type_synonym addr = nat

interpretation fdo: keyed_order "(<) :: int \<Rightarrow> int \<Rightarrow> bool" "\<lambda>x. x"
  by unfold_locales simp

interpretation ado: keyed_order "(<) :: addr \<Rightarrow> addr \<Rightarrow> bool" "\<lambda>x. x"
  by unfold_locales simp

lemma equivalent_less [simp]: "equivalent (<) a b \<longleftrightarrow> a = (b :: 'a :: linorder)"
  by (auto simp: equivalent_def)

lemmas fd_find_laws [simp] = fdo.find_insert fdo.find_put fdo.find_erase
lemmas ad_find_laws [simp] = ado.find_insert ado.find_put ado.find_erase
lemmas fd_wf_laws [simp, intro] = fdo.wf_laws
lemmas ad_wf_laws [simp, intro] = ado.wf_laws

end
