(* ===== verification/Utils.thy ===== *)
theory Utils
  imports OrderedMap
begin

text \<open>
  The name rules of the server: \<open>src/src/c/Utils.cpp\<close>.

  \<open>IrcStringCompare\<close> is the comparison of the nickname and channel maps. It is shown to be
  a strict weak order whose equivalence is equality after RFC 1459 case folding, so the laws of
  \<open>OrderedMap\<close> hold for those maps (interpretation \<open>irc\<close>).
\<close>

section \<open>Character classes\<close>

definition irc_tolower :: "char \<Rightarrow> char" where
  "irc_tolower c =
     (if schar CHR ''A'' \<le> schar c \<and> schar c \<le> schar CHR ''Z''
        then char_of_int (schar c + (schar CHR ''a'' - schar CHR ''A''))
      else if c = CHR ''['' then CHR ''{''
      else if c = CHR '']'' then CHR ''}''
      else if c = CHR 0x5C then CHR ''|''
      else if c = CHR ''~'' then CHR ''^''
      else c)"

definition isLetter :: "char \<Rightarrow> bool" where
  "isLetter c \<longleftrightarrow> (schar CHR ''A'' \<le> schar c \<and> schar c \<le> schar CHR ''Z'')
     \<or> (schar CHR ''a'' \<le> schar c \<and> schar c \<le> schar CHR ''z'')"

definition isDigit :: "char \<Rightarrow> bool" where
  "isDigit c \<longleftrightarrow> schar CHR ''0'' \<le> schar c \<and> schar c \<le> schar CHR ''9''"

definition isSpecial :: "char \<Rightarrow> bool" where
  "isSpecial c \<longleftrightarrow> (schar CHR ''['' \<le> schar c \<and> schar c \<le> schar CHR 0x60)
     \<or> (schar CHR ''{'' \<le> schar c \<and> schar c \<le> schar CHR ''}'')"

definition isNicknameChar :: "char \<Rightarrow> bool" where
  "isNicknameChar c \<longleftrightarrow> isLetter c \<or> isDigit c \<or> isSpecial c \<or> c = CHR ''-''"

definition isChannelStringChar :: "char \<Rightarrow> bool" where
  "isChannelStringChar c \<longleftrightarrow>
     (if c = NUL \<or> c = BEL \<or> c = CR \<or> c = LF then False
      else c \<noteq> CHR '' '' \<and> c \<noteq> CHR '','' \<and> c \<noteq> CHR '':'')"

section \<open>Comparison of names\<close>

text \<open>The loop of \<open>IrcStringCompare::operator()\<close>: the first position where the folded
  characters differ decides; if there is none, the shorter string is less.\<close>

fun IrcStringCompare :: "string \<Rightarrow> string \<Rightarrow> bool" where
  "IrcStringCompare (a # as) (b # bs) =
     (if schar (irc_tolower a) < schar (irc_tolower b) then True
      else if schar (irc_tolower a) > schar (irc_tolower b) then False
      else IrcStringCompare as bs)"
| "IrcStringCompare a b = (length a < length b)"

definition irc_key :: "string \<Rightarrow> int list" where
  "irc_key s = map (\<lambda>c. schar (irc_tolower c)) s"

section \<open>Valid names\<close>

definition isValidNickname :: "string \<Rightarrow> bool" where
  "isValidNickname name =
     (if name = [] \<or> length name > 9 then False
      else if \<not> isLetter (name ! 0) \<and> \<not> isSpecial (name ! 0) then False
      else list_all (\<lambda>i. isNicknameChar (name ! i)) [1..<length name])"

definition isValidChannelName :: "string \<Rightarrow> bool" where
  "isValidChannelName name =
     (if length name < 2 \<or> name ! 0 \<noteq> CHR ''#'' then False
      else list_all (\<lambda>i. isChannelStringChar (name ! i)) [1..<length name])"

section \<open>Lemmas\<close>

lemma IrcStringCompare_key: "IrcStringCompare a b \<longleftrightarrow> irc_key a < irc_key b"
proof (induction a arbitrary: b)
  case Nil
  show ?case by (cases b) (simp_all add: irc_key_def)
next
  case (Cons x a)
  show ?case
  proof (cases b)
    case (Cons y b')
    with Cons.IH [of b'] show ?thesis by (cases "irc_tolower x = irc_tolower y") (simp_all add: irc_key_def)
  qed (simp add: irc_key_def)
qed

interpretation irc: keyed_order IrcStringCompare irc_key
  by unfold_locales (rule IrcStringCompare_key)

lemmas irc_find_laws [simp] = irc.find_insert irc.find_put irc.find_erase
lemmas irc_wf_laws [simp, intro] = irc.wf_laws

lemma irc_key_eq_iff: "irc_key a = irc_key b \<longleftrightarrow> map irc_tolower a = map irc_tolower b"
proof -
  have "irc_key a = map schar (map irc_tolower a)" for a by (simp add: irc_key_def)
  moreover have "inj schar" by (rule injI) simp
  ultimately show ?thesis by (metis inj_map_eq_map)
qed

lemma irc_key_Nil [simp]: "irc_key a = [] \<longleftrightarrow> a = []" "irc_key [] = []"
  by (simp_all add: irc_key_def)

lemma isValidNickname_nonempty [simp]: "\<not> isValidNickname []"
  by (simp add: isValidNickname_def)

lemma isValidNickname_alt:
  "isValidNickname s \<longleftrightarrow> s \<noteq> [] \<and> length s \<le> 9 \<and> (isLetter (hd s) \<or> isSpecial (hd s))
     \<and> (\<forall>c \<in> set (tl s). isNicknameChar c)"
  unfolding isValidNickname_def list_all_positions_from_1 by (cases s) auto

lemma isValidChannelName_alt:
  "isValidChannelName s \<longleftrightarrow>
     2 \<le> length s \<and> hd s = CHR ''#'' \<and> (\<forall>c \<in> set (tl s). isChannelStringChar c)"
  unfolding isValidChannelName_def list_all_positions_from_1 by (cases s) (auto simp: Suc_le_eq)

section \<open>Properties\<close>

text \<open>C26: the comparison of the nickname and channel tables is a strict weak order, and two names
  are equivalent in it exactly if they are equal after folding the case the IRC way.\<close>

theorem irc_order:
  "(IrcStringCompare a b \<longrightarrow> \<not> IrcStringCompare b a) \<and> (IrcStringCompare a b \<longrightarrow> IrcStringCompare b c \<longrightarrow> IrcStringCompare a c)
   \<and> (\<not> IrcStringCompare a b \<and> \<not> IrcStringCompare b a \<longleftrightarrow> map irc_tolower a = map irc_tolower b)"
  using irc.equivalent_key [of a b] by (auto simp: IrcStringCompare_key equivalent_def irc_key_eq_iff)

theorem irc_order_witness:
  "IrcStringCompare ''Ab[x]'' ''aC{x}'' \<and> \<not> IrcStringCompare ''aC{x}'' ''Ab[x]''
   \<and> \<not> IrcStringCompare ''Ab[x]'' ''aB{X}'' \<and> \<not> IrcStringCompare ''aB{X}'' ''Ab[x]''"
proof -
  have "IrcStringCompare ''Ab[x]'' ''aC{x}''" "map irc_tolower ''Ab[x]'' = map irc_tolower ''aB{X}''" by code_simp+
  with irc_order [of "''Ab[x]''" "''aC{x}''" "''aC{x}''"] irc_order [of "''Ab[x]''" "''aB{X}''" "''aB{X}''"]
  show ?thesis by blast
qed

end
