(* ===== verification/ChatObjects.thy ===== *)
theory ChatObjects
  imports Utils
begin

text \<open>
  The objects of the application-state layer: \<open>ChannelModes\<close>, \<open>Channel\<close> and
  \<open>Client\<close> (\<open>src/include/c/*.hpp\<close>, \<open>src/src/c/{ChannelModes,Channel,Client}.cpp\<close>).

  Pointers are addresses. \<open>std::map<Client*, MemberInfo>\<close> is a sorted association list,
  \<open>std::set<T*>\<close> a sorted list of addresses; both are iterated in address order, as the
  code does. A method that may get or return a null pointer has \<open>addr option\<close> there;
  the pointers held in the containers are never null.
\<close>

section \<open>ChannelModes\<close>

record channel_modes =
  cm_inviteOnly :: bool
  cm_topicRestricted :: bool
  cm_hasKey :: bool
  cm_key :: string
  cm_limit :: int

definition new_ChannelModes :: channel_modes where
  "new_ChannelModes = \<lparr>cm_inviteOnly = False, cm_topicRestricted = False, cm_hasKey = False,
     cm_key = [], cm_limit = -1\<rparr>"

definition isInviteOnly :: "channel_modes \<Rightarrow> bool" where
  "isInviteOnly m = cm_inviteOnly m"

definition setInviteOnly :: "bool \<Rightarrow> channel_modes \<Rightarrow> channel_modes" where
  "setInviteOnly b m = m\<lparr>cm_inviteOnly := b\<rparr>"

definition isTopicRestricted :: "channel_modes \<Rightarrow> bool" where
  "isTopicRestricted m = cm_topicRestricted m"

definition setTopicRestricted :: "bool \<Rightarrow> channel_modes \<Rightarrow> channel_modes" where
  "setTopicRestricted b m = m\<lparr>cm_topicRestricted := b\<rparr>"

definition hasKey :: "channel_modes \<Rightarrow> bool" where
  "hasKey m = cm_hasKey m"

definition setKey :: "string \<Rightarrow> channel_modes \<Rightarrow> channel_modes" where
  "setKey k m = m\<lparr>cm_hasKey := True, cm_key := k\<rparr>"

definition getKey :: "channel_modes \<Rightarrow> string" where
  "getKey m = cm_key m"

definition getLimit :: "channel_modes \<Rightarrow> int" where
  "getLimit m = cm_limit m"

definition setLimit :: "int \<Rightarrow> channel_modes \<Rightarrow> channel_modes" where
  "setLimit l m = (if l \<ge> 1 \<or> l = -1 then m\<lparr>cm_limit := l\<rparr> else m)"

definition unSetKey :: "channel_modes \<Rightarrow> channel_modes" where
  "unSetKey m = m\<lparr>cm_hasKey := False, cm_key := []\<rparr>"

definition unSetLimit :: "channel_modes \<Rightarrow> channel_modes" where
  "unSetLimit m = m\<lparr>cm_limit := -1\<rparr>"

lemmas channel_modes_defs = new_ChannelModes_def isInviteOnly_def setInviteOnly_def
  isTopicRestricted_def setTopicRestricted_def hasKey_def setKey_def getKey_def getLimit_def
  setLimit_def unSetKey_def unSetLimit_def

text \<open>The type invariant: the limit is \<open>-1\<close> (none) or positive, and a channel without a key
  stores the empty key.\<close>

definition modes_wf :: "channel_modes \<Rightarrow> bool" where
  "modes_wf m \<longleftrightarrow> (cm_limit m = -1 \<or> 1 \<le> cm_limit m) \<and> (\<not> cm_hasKey m \<longrightarrow> cm_key m = [])"

lemma modes_wf_ops [simp, intro]:
  "modes_wf new_ChannelModes"
  "modes_wf m \<Longrightarrow> modes_wf (setInviteOnly b m)"
  "modes_wf m \<Longrightarrow> modes_wf (setTopicRestricted b m)"
  "modes_wf m \<Longrightarrow> modes_wf (setKey k m)"
  "modes_wf m \<Longrightarrow> modes_wf (setLimit l m)"
  "modes_wf m \<Longrightarrow> modes_wf (unSetKey m)"
  "modes_wf m \<Longrightarrow> modes_wf (unSetLimit m)"
  by (auto simp: modes_wf_def channel_modes_defs)

section \<open>Channel\<close>

record member_info =
  mi_isOperator :: bool

definition new_MemberInfo :: member_info where
  "new_MemberInfo = \<lparr>mi_isOperator = False\<rparr>"

record channel =
  ch_name :: string
  ch_topic :: string
  ch_members :: "(addr \<times> member_info) list"
  ch_invitedClients :: "addr list"
  ch_modes :: channel_modes

definition new_Channel :: "string \<Rightarrow> channel" where
  "new_Channel name = \<lparr>ch_name = name, ch_topic = [], ch_members = [], ch_invitedClients = [],
     ch_modes = new_ChannelModes\<rparr>"

definition setTopic :: "string \<Rightarrow> channel \<Rightarrow> channel" where
  "setTopic t h = h\<lparr>ch_topic := t\<rparr>"

definition hasMember :: "channel \<Rightarrow> addr \<Rightarrow> bool" where
  "hasMember h a \<longleftrightarrow> omap_find (<) (ch_members h) a \<noteq> None"

definition removeInvite :: "addr \<Rightarrow> channel \<Rightarrow> channel" where
  "removeInvite a h = h\<lparr>ch_invitedClients := remove1 a (ch_invitedClients h)\<rparr>"

definition unsafe_addMember :: "addr \<Rightarrow> channel \<Rightarrow> channel" where
  "unsafe_addMember a h =
     removeInvite a (h\<lparr>ch_members := omap_put (<) a new_MemberInfo (ch_members h)\<rparr>)"

definition unsafe_removeMember :: "addr \<Rightarrow> channel \<Rightarrow> channel" where
  "unsafe_removeMember a h = h\<lparr>ch_members := omap_erase (<) a (ch_members h)\<rparr>"

definition unsafe_removeClientState :: "addr \<Rightarrow> channel \<Rightarrow> channel" where
  "unsafe_removeClientState a h = removeInvite a (unsafe_removeMember a h)"

definition getMembers :: "channel \<Rightarrow> addr list" where
  "getMembers h = map fst (ch_members h)"

definition memberCount :: "channel \<Rightarrow> nat" where
  "memberCount h = length (ch_members h)"

definition isOperator :: "channel \<Rightarrow> addr \<Rightarrow> bool" where
  "isOperator h a = (case omap_find (<) (ch_members h) a of
     Some mi \<Rightarrow> mi_isOperator mi | None \<Rightarrow> False)"

definition setOperator :: "addr \<Rightarrow> bool \<Rightarrow> channel \<Rightarrow> channel" where
  "setOperator a b h = (case omap_find (<) (ch_members h) a of
     Some mi \<Rightarrow> h\<lparr>ch_members := omap_put (<) a (mi\<lparr>mi_isOperator := b\<rparr>) (ch_members h)\<rparr>
   | None \<Rightarrow> h)"

definition addInvite :: "addr \<Rightarrow> channel \<Rightarrow> channel" where
  "addInvite a h = h\<lparr>ch_invitedClients := insort_insert a (ch_invitedClients h)\<rparr>"

definition isInvited :: "channel \<Rightarrow> addr \<Rightarrow> bool" where
  "isInvited h a \<longleftrightarrow> a \<in> set (ch_invitedClients h)"

definition channel_isEmpty :: "channel \<Rightarrow> bool" where
  "channel_isEmpty h \<longleftrightarrow> ch_members h = []"

definition channel_wf :: "channel \<Rightarrow> bool" where
  "channel_wf h \<longleftrightarrow> omap_wf (<) (ch_members h) \<and> distinct (ch_invitedClients h)
     \<and> sorted (ch_invitedClients h) \<and> modes_wf (ch_modes h)"

lemmas channel_defs = new_Channel_def setTopic_def removeInvite_def unsafe_addMember_def
  unsafe_removeMember_def unsafe_removeClientState_def addInvite_def

subsection \<open>What each channel operation does to members, operators and invitations\<close>

lemma insort_insert_facts [simp]:
  "set (insort_insert x xs) = insert x (set xs)"
  "distinct xs \<Longrightarrow> distinct (insort_insert x xs)"
  "sorted xs \<Longrightarrow> sorted (insort_insert x xs)"
  by (auto simp: insort_insert_key_def set_insort_key distinct_insort sorted_insort sorted_insort_insert)

lemma channel_wf_ops [simp, intro]:
  "channel_wf (new_Channel name)"
  "channel_wf h \<Longrightarrow> channel_wf (setTopic t h)"
  "channel_wf h \<Longrightarrow> channel_wf (removeInvite a h)"
  "channel_wf h \<Longrightarrow> channel_wf (unsafe_addMember a h)"
  "channel_wf h \<Longrightarrow> channel_wf (unsafe_removeMember a h)"
  "channel_wf h \<Longrightarrow> channel_wf (unsafe_removeClientState a h)"
  "channel_wf h \<Longrightarrow> channel_wf (addInvite a h)"
  "channel_wf h \<Longrightarrow> channel_wf (setOperator a b h)"
  "channel_wf h \<Longrightarrow> modes_wf m \<Longrightarrow> channel_wf (h\<lparr>ch_modes := m\<rparr>)"
  by (auto simp: channel_wf_def channel_defs setOperator_def sorted_remove1 split: option.split)

lemma hasMember_ops [simp]:
  "hasMember (new_Channel n) a = False"
  "hasMember (setTopic t h) a = hasMember h a"
  "hasMember (removeInvite b h) a = hasMember h a"
  "hasMember (addInvite b h) a = hasMember h a"
  "hasMember (h\<lparr>ch_modes := m\<rparr>) a = hasMember h a"
  "channel_wf h \<Longrightarrow> hasMember (unsafe_addMember b h) a \<longleftrightarrow> a = b \<or> hasMember h a"
  "channel_wf h \<Longrightarrow> hasMember (unsafe_removeMember b h) a \<longleftrightarrow> a \<noteq> b \<and> hasMember h a"
  "channel_wf h \<Longrightarrow> hasMember (unsafe_removeClientState b h) a \<longleftrightarrow> a \<noteq> b \<and> hasMember h a"
  "channel_wf h \<Longrightarrow> hasMember (setOperator b v h) a \<longleftrightarrow> hasMember h a"
  by (auto simp: hasMember_def channel_wf_def channel_defs setOperator_def split: option.split)

lemma isInvited_ops [simp]:
  "isInvited (new_Channel n) a = False"
  "isInvited (setTopic t h) a = isInvited h a"
  "isInvited (addInvite b h) a \<longleftrightarrow> a = b \<or> isInvited h a"
  "isInvited (h\<lparr>ch_modes := m\<rparr>) a = isInvited h a"
  "isInvited (setOperator b v h) a = isInvited h a"
  "channel_wf h \<Longrightarrow> isInvited (removeInvite b h) a \<longleftrightarrow> a \<noteq> b \<and> isInvited h a"
  "channel_wf h \<Longrightarrow> isInvited (unsafe_addMember b h) a \<longleftrightarrow> a \<noteq> b \<and> isInvited h a"
  "channel_wf h \<Longrightarrow> isInvited (unsafe_removeClientState b h) a \<longleftrightarrow> a \<noteq> b \<and> isInvited h a"
  by (auto simp: isInvited_def channel_wf_def channel_defs setOperator_def split: option.split)

lemma isOperator_ops [simp]:
  "isOperator (setTopic t h) a = isOperator h a"
  "isOperator (removeInvite b h) a = isOperator h a"
  "isOperator (addInvite b h) a = isOperator h a"
  "isOperator (h\<lparr>ch_modes := m\<rparr>) a = isOperator h a"
  "channel_wf h \<Longrightarrow> isOperator (unsafe_addMember b h) a \<longleftrightarrow> a \<noteq> b \<and> isOperator h a"
  "channel_wf h \<Longrightarrow> isOperator (unsafe_removeClientState b h) a \<longleftrightarrow> a \<noteq> b \<and> isOperator h a"
  "channel_wf h \<Longrightarrow> isOperator (setOperator b v h) a \<longleftrightarrow>
     (if a = b then v \<and> hasMember h b else isOperator h a)"
  by (auto simp: isOperator_def hasMember_def channel_wf_def channel_defs setOperator_def
      new_MemberInfo_def split: option.split)

lemma ch_fields_ops [simp]:
  "ch_name (new_Channel n) = n"
  "ch_name (setTopic t h) = ch_name h"
  "ch_name (removeInvite a h) = ch_name h"
  "ch_name (addInvite a h) = ch_name h"
  "ch_name (unsafe_addMember a h) = ch_name h"
  "ch_name (unsafe_removeMember a h) = ch_name h"
  "ch_name (unsafe_removeClientState a h) = ch_name h"
  "ch_name (setOperator a b h) = ch_name h"
  "ch_modes (setTopic t h) = ch_modes h"
  "ch_modes (removeInvite a h) = ch_modes h"
  "ch_modes (addInvite a h) = ch_modes h"
  "ch_modes (unsafe_addMember a h) = ch_modes h"
  "ch_modes (unsafe_removeClientState a h) = ch_modes h"
  "ch_modes (setOperator a b h) = ch_modes h"
  "ch_topic (setTopic t h) = t"
  "ch_topic (removeInvite a h) = ch_topic h"
  "ch_topic (addInvite a h) = ch_topic h"
  "ch_topic (unsafe_addMember a h) = ch_topic h"
  "ch_topic (unsafe_removeClientState a h) = ch_topic h"
  "ch_topic (setOperator a b h) = ch_topic h"
  by (auto simp: channel_defs setOperator_def split: option.split)

text \<open>The members are listed once each, and the member list is empty exactly when nobody is a member.\<close>

lemma set_getMembers: "channel_wf h \<Longrightarrow> a \<in> set (getMembers h) \<longleftrightarrow> hasMember h a"
proof -
  assume "channel_wf h"
  then have wf: "omap_wf (<) (ch_members h)" by (simp add: channel_wf_def)
  show ?thesis
    using ado.find_None_iff [OF wf, of a] by (auto simp: getMembers_def hasMember_def image_iff)
qed

lemma distinct_getMembers: "channel_wf h \<Longrightarrow> distinct (getMembers h)"
  by (simp add: channel_wf_def omap_wf_def getMembers_def strict_sorted_iff)

lemma channel_isEmpty_iff: "channel_wf h \<Longrightarrow> channel_isEmpty h \<longleftrightarrow> (\<forall>a. \<not> hasMember h a)"
  using set_getMembers [of h] by (cases "ch_members h") (auto simp: channel_isEmpty_def getMembers_def)

lemma memberCount_card: "channel_wf h \<Longrightarrow> memberCount h = card {a. hasMember h a}"
proof -
  assume wf: "channel_wf h"
  have "{a. hasMember h a} = set (getMembers h)" using set_getMembers [OF wf] by blast
  then show ?thesis
    using distinct_card [OF distinct_getMembers [OF wf]] by (simp add: memberCount_def getMembers_def)
qed

lemma isOperator_hasMember: "isOperator h a \<Longrightarrow> hasMember h a"
  by (auto simp: isOperator_def hasMember_def split: option.splits)

section \<open>Client\<close>

record client =
  cl_nickname :: string
  cl_username :: string
  cl_realname :: string
  cl_host :: string
  cl_fd :: int
  cl_passOk :: bool
  cl_registered :: bool
  cl_channels :: "addr list"

definition new_Client :: "int \<Rightarrow> string \<Rightarrow> client" where
  "new_Client fd host = \<lparr>cl_nickname = [], cl_username = [], cl_realname = [], cl_host = host,
     cl_fd = fd, cl_passOk = False, cl_registered = False, cl_channels = []\<rparr>"

definition getChannels :: "client \<Rightarrow> addr list" where
  "getChannels c = cl_channels c"

definition getFullPrefix :: "client \<Rightarrow> string" where
  "getFullPrefix c = cl_nickname c @ ''!'' @ cl_username c @ ''@'' @ cl_host c"

definition setUsername :: "string \<Rightarrow> client \<Rightarrow> client" where
  "setUsername u c = c\<lparr>cl_username := u\<rparr>"

definition setRealname :: "string \<Rightarrow> client \<Rightarrow> client" where
  "setRealname r c = c\<lparr>cl_realname := r\<rparr>"

definition setHost :: "string \<Rightarrow> client \<Rightarrow> client" where
  "setHost h c = c\<lparr>cl_host := h\<rparr>"

definition unsafe_setNick :: "string \<Rightarrow> client \<Rightarrow> client" where
  "unsafe_setNick n c = c\<lparr>cl_nickname := n\<rparr>"

definition unsafe_joinChannel :: "addr \<Rightarrow> client \<Rightarrow> client" where
  "unsafe_joinChannel x c = c\<lparr>cl_channels := insort_insert x (cl_channels c)\<rparr>"

definition unsafe_leaveChannel :: "addr \<Rightarrow> client \<Rightarrow> client" where
  "unsafe_leaveChannel x c = c\<lparr>cl_channels := remove1 x (cl_channels c)\<rparr>"

definition setPassOk :: "bool \<Rightarrow> client \<Rightarrow> client" where
  "setPassOk b c = c\<lparr>cl_passOk := b\<rparr>"

definition isPassOk :: "client \<Rightarrow> bool" where
  "isPassOk c = cl_passOk c"

definition isRegistered :: "client \<Rightarrow> bool" where
  "isRegistered c = cl_registered c"

definition canRegister :: "client \<Rightarrow> bool" where
  "canRegister c \<longleftrightarrow>
     cl_passOk c \<and> cl_nickname c \<noteq> [] \<and> cl_username c \<noteq> [] \<and> cl_realname c \<noteq> []"

definition markRegistered :: "client \<Rightarrow> client" where
  "markRegistered c = c\<lparr>cl_registered := True\<rparr>"

lemmas client_defs = new_Client_def getChannels_def setUsername_def setRealname_def setHost_def
  unsafe_setNick_def unsafe_joinChannel_def unsafe_leaveChannel_def setPassOk_def isPassOk_def
  isRegistered_def markRegistered_def

end
