(* ===== verification/ServerState.thy ===== *)
theory ServerState
  imports ChatObjects
begin

text \<open>
  The application state: \<open>ClientRegistry\<close> and \<open>ServerState\<close>
  (\<open>src/src/c/ClientRegistry.cpp\<close>, \<open>src/src/c/ServerState.cpp\<close>).

  The objects the classes own live in an explicit store: \<open>heapClients\<close> and
  \<open>heapChannels\<close> map the addresses of live objects to their contents, \<open>new\<close> adds an
  entry and \<open>delete\<close> removes it. Which address \<open>new\<close> returns is up to the allocator: the
  field \<open>placement\<close> is an arbitrary function of the addresses in use, and \<open>new_addr\<close>
  takes its proposal unless it is null or in use, so the theorems hold for every allocator.
  Reading through an address with no live object is undefined behaviour in C++ and \<open>None\<close> here.

  The registry record extends the store, and the server state extends the registry, so an
  operation of the registry is an operation on the state that contains it.
\<close>

section \<open>The store\<close>

record memory =
  heapClients :: "(addr \<times> client) list"
  heapChannels :: "(addr \<times> channel) list"
  placement :: "addr list \<Rightarrow> addr"

definition new_addr :: "(addr list \<Rightarrow> addr) \<Rightarrow> addr list \<Rightarrow> addr" where
  "new_addr p used = (let a = p used in
     if a = 0 \<or> a \<in> set used then Suc (fold max used 0) else a)"

definition deref_client :: "'z memory_scheme \<Rightarrow> addr \<Rightarrow> client option" where
  "deref_client s a = omap_find (<) (heapClients s) a"

definition deref_channel :: "'z memory_scheme \<Rightarrow> addr \<Rightarrow> channel option" where
  "deref_channel s x = omap_find (<) (heapChannels s) x"

definition store_client :: "addr \<Rightarrow> client \<Rightarrow> 'z memory_scheme \<Rightarrow> 'z memory_scheme" where
  "store_client a c s = s\<lparr>heapClients := omap_put (<) a c (heapClients s)\<rparr>"

definition store_channel :: "addr \<Rightarrow> channel \<Rightarrow> 'z memory_scheme \<Rightarrow> 'z memory_scheme" where
  "store_channel x h s = s\<lparr>heapChannels := omap_put (<) x h (heapChannels s)\<rparr>"

definition delete_client :: "addr \<Rightarrow> 'z memory_scheme \<Rightarrow> 'z memory_scheme" where
  "delete_client a s = s\<lparr>heapClients := omap_erase (<) a (heapClients s)\<rparr>"

definition delete_channel :: "addr \<Rightarrow> 'z memory_scheme \<Rightarrow> 'z memory_scheme" where
  "delete_channel x s = s\<lparr>heapChannels := omap_erase (<) x (heapChannels s)\<rparr>"

definition update_client :: "addr \<Rightarrow> (client \<Rightarrow> client) \<Rightarrow> 'z memory_scheme \<Rightarrow> 'z memory_scheme option" where
  "update_client a f s = do { c \<leftarrow> deref_client s a; Some (store_client a (f c) s) }"

definition update_channel :: "addr \<Rightarrow> (channel \<Rightarrow> channel) \<Rightarrow> 'z memory_scheme \<Rightarrow> 'z memory_scheme option" where
  "update_channel x f s = do { h \<leftarrow> deref_channel s x; Some (store_channel x (f h) s) }"

definition used_addrs :: "'z memory_scheme \<Rightarrow> addr list" where
  "used_addrs s = map fst (heapClients s) @ map fst (heapChannels s)"

section \<open>ClientRegistry\<close>

record client_registry = memory +
  nicknameToClient :: "(string \<times> addr) list"
  fdToClient :: "(int \<times> addr) list"

definition getClientByFd :: "'z client_registry_scheme \<Rightarrow> int \<Rightarrow> addr option" where
  "getClientByFd s fd = omap_find (<) (fdToClient s) fd"

definition getClientByNick :: "'z client_registry_scheme \<Rightarrow> string \<Rightarrow> addr option" where
  "getClientByNick s nick = omap_find IrcStringCompare (nicknameToClient s) nick"

definition nickExists :: "'z client_registry_scheme \<Rightarrow> string \<Rightarrow> bool" where
  "nickExists s nick \<longleftrightarrow> omap_find IrcStringCompare (nicknameToClient s) nick \<noteq> None"

definition registry_addClient :: "int \<Rightarrow> string \<Rightarrow> 'z client_registry_scheme \<Rightarrow> 'z client_registry_scheme" where
  "registry_addClient fd host s =
     (if getClientByFd s fd \<noteq> None then s
      else let a = new_addr (placement s) (used_addrs s);
               s1 = store_client a (new_Client fd host) s
           in s1\<lparr>fdToClient := omap_insert (<) fd a (fdToClient s1)\<rparr>)"

definition registry_removeClient :: "int \<Rightarrow> 'z client_registry_scheme \<Rightarrow> 'z client_registry_scheme option" where
  "registry_removeClient fd s = (case getClientByFd s fd of
     None \<Rightarrow> Some s
   | Some a \<Rightarrow> do {
       c \<leftarrow> deref_client s a;
       let s1 = s\<lparr>nicknameToClient := omap_erase IrcStringCompare (cl_nickname c) (nicknameToClient s)\<rparr>;
       let s2 = s1\<lparr>fdToClient := omap_erase (<) fd (fdToClient s1)\<rparr>;
       Some (delete_client a s2)
     })"

definition registry_updateNick :: "addr \<Rightarrow> string \<Rightarrow> 'z client_registry_scheme \<Rightarrow> (bool \<times> 'z client_registry_scheme) option" where
  "registry_updateNick client newNick s = do {
     c \<leftarrow> deref_client s client;
     let oldNick = cl_nickname c;
     if oldNick = newNick then Some (True, s)
     else
       (let it = omap_find IrcStringCompare (nicknameToClient s) newNick in
        if it \<noteq> None \<and> it \<noteq> Some client then Some (False, s)
        else do {
          let s1 = (if oldNick \<noteq> []
            then s\<lparr>nicknameToClient := omap_erase IrcStringCompare oldNick (nicknameToClient s)\<rparr>
            else s);
          let s2 = s1\<lparr>nicknameToClient :=
            omap_insert IrcStringCompare newNick client (nicknameToClient s1)\<rparr>;
          s3 \<leftarrow> update_client client (unsafe_setNick newNick) s2;
          Some (True, s3)
        })
   }"

section \<open>ServerState\<close>

record server_state = client_registry +
  ss_password :: string
  ss_channels :: "(string \<times> addr) list"

definition new_ServerState :: "(addr list \<Rightarrow> addr) \<Rightarrow> string \<Rightarrow> server_state" where
  "new_ServerState p pw = \<lparr>heapClients = [], heapChannels = [], placement = p,
     nicknameToClient = [], fdToClient = [], ss_password = pw, ss_channels = []\<rparr>"

definition getPassword :: "'z server_state_scheme \<Rightarrow> string" where
  "getPassword s = ss_password s"

definition addClient :: "int \<Rightarrow> string \<Rightarrow> 'z server_state_scheme \<Rightarrow> 'z server_state_scheme" where
  "addClient fd host s = registry_addClient fd host s"

definition updateNick :: "addr \<Rightarrow> string \<Rightarrow> 'z server_state_scheme \<Rightarrow> (bool \<times> 'z server_state_scheme) option" where
  "updateNick client newNick s = registry_updateNick client newNick s"

definition getChannel :: "'z server_state_scheme \<Rightarrow> string \<Rightarrow> addr option" where
  "getChannel s name = omap_find IrcStringCompare (ss_channels s) name"

definition getOrCreateChannel :: "string \<Rightarrow> 'z server_state_scheme \<Rightarrow> addr \<times> 'z server_state_scheme" where
  "getOrCreateChannel name s = (case getChannel s name of
     Some x \<Rightarrow> (x, s)
   | None \<Rightarrow>
       let x = new_addr (placement s) (used_addrs s);
           s1 = store_channel x (new_Channel name) s
       in (x, s1\<lparr>ss_channels := omap_insert IrcStringCompare name x (ss_channels s1)\<rparr>))"

definition removeChannelIfEmpty :: "string \<Rightarrow> 'z server_state_scheme \<Rightarrow> 'z server_state_scheme option" where
  "removeChannelIfEmpty name s = (case omap_find IrcStringCompare (ss_channels s) name of
     None \<Rightarrow> Some s
   | Some x \<Rightarrow> do {
       h \<leftarrow> deref_channel s x;
       if channel_isEmpty h
       then let s1 = delete_channel x s
            in Some (s1\<lparr>ss_channels := omap_erase IrcStringCompare name (ss_channels s1)\<rparr>)
       else Some s
     })"

definition addClientToChannel :: "addr option \<Rightarrow> string \<Rightarrow> 'z server_state_scheme \<Rightarrow> (addr option \<times> 'z server_state_scheme) option" where
  "addClientToChannel clientp channelName s = (case clientp of
     None \<Rightarrow> Some (None, s)
   | Some client \<Rightarrow> do {
       let (x, s1) = getOrCreateChannel channelName s;
       h \<leftarrow> deref_channel s1 x;
       if hasMember h client then Some (Some x, s1)
       else do {
         s2 \<leftarrow> update_channel x (unsafe_addMember client) s1;
         s3 \<leftarrow> update_client client (unsafe_joinChannel x) s2;
         h' \<leftarrow> deref_channel s3 x;
         s4 \<leftarrow> (if memberCount h' = 1 then update_channel x (setOperator client True) s3 else Some s3);
         Some (Some x, s4)
       }
     })"

definition removeClientFromChannel :: "addr option \<Rightarrow> string \<Rightarrow> 'z server_state_scheme \<Rightarrow> 'z server_state_scheme option" where
  "removeClientFromChannel clientp channelName s = (case clientp of
     None \<Rightarrow> Some s
   | Some client \<Rightarrow> (case getChannel s channelName of
       None \<Rightarrow> Some s
     | Some x \<Rightarrow> do {
         h \<leftarrow> deref_channel s x;
         if \<not> hasMember h client then Some s
         else do {
           s1 \<leftarrow> update_channel x (unsafe_removeClientState client) s;
           s2 \<leftarrow> update_client client (unsafe_leaveChannel x) s1;
           removeChannelIfEmpty channelName s2
         }
       }))"

definition inviteClientToChannel :: "addr option \<Rightarrow> addr option \<Rightarrow> 'z server_state_scheme \<Rightarrow> 'z server_state_scheme option" where
  "inviteClientToChannel clientp channelp s = (case (clientp, channelp) of
     (Some client, Some x) \<Rightarrow> update_channel x (addInvite client) s
   | _ \<Rightarrow> Some s)"

definition removeInviteFromChannel :: "addr option \<Rightarrow> addr option \<Rightarrow> 'z server_state_scheme \<Rightarrow> 'z server_state_scheme option" where
  "removeInviteFromChannel clientp channelp s = (case (clientp, channelp) of
     (Some client, Some x) \<Rightarrow> update_channel x (removeInvite client) s
   | _ \<Rightarrow> Some s)"

primrec removeInvites_loop :: "addr \<Rightarrow> addr list \<Rightarrow> 'z server_state_scheme \<Rightarrow> 'z server_state_scheme option" where
  "removeInvites_loop client [] s = Some s"
| "removeInvites_loop client (x # xs) s =
     do { s1 \<leftarrow> update_channel x (removeInvite client) s; removeInvites_loop client xs s1 }"

definition removeClientFromAllInvites :: "addr option \<Rightarrow> 'z server_state_scheme \<Rightarrow> 'z server_state_scheme option" where
  "removeClientFromAllInvites clientp s = (case clientp of
     None \<Rightarrow> Some s
   | Some client \<Rightarrow> removeInvites_loop client (map snd (ss_channels s)) s)"

text \<open>The loop of \<open>removeClient\<close> over the snapshot of the client's channels.\<close>

primrec leave_loop :: "addr \<Rightarrow> addr list \<Rightarrow> 'z server_state_scheme \<Rightarrow> 'z server_state_scheme option" where
  "leave_loop client [] s = Some s"
| "leave_loop client (x # xs) s = do {
     h \<leftarrow> deref_channel s x;
     let channelName = ch_name h;
     s1 \<leftarrow> update_channel x (unsafe_removeClientState client) s;
     s2 \<leftarrow> update_client client (unsafe_leaveChannel x) s1;
     s3 \<leftarrow> removeChannelIfEmpty channelName s2;
     leave_loop client xs s3
   }"

definition removeClient :: "int \<Rightarrow> 'z server_state_scheme \<Rightarrow> 'z server_state_scheme option" where
  "removeClient fd s = (case getClientByFd s fd of
     None \<Rightarrow> Some s
   | Some client \<Rightarrow> do {
       c \<leftarrow> deref_client s client;
       s1 \<leftarrow> leave_loop client (getChannels c) s;
       s2 \<leftarrow> removeClientFromAllInvites (Some client) s1;
       registry_removeClient fd s2
     })"

end
