(* ===== verification/StateInvariant.thy ===== *)
theory StateInvariant
  imports ServerState
begin

text \<open>
  The invariant of the application state and its preservation by every operation of
  \<open>ServerState\<close>.

  The invariant is stated over the five lookups a state offers (object stores, descriptor,
  nickname and channel tables), so that each operation's effect is a function update and each
  preservation proof a short argument about it. It says: every pointer stored anywhere leads to a
  live object; each live client is filed under its own descriptor, and under its nickname once it
  has one; each live channel is filed under its name and has at least one member; client and
  channel agree on who has joined what; only members are operators; and the registration rules
  of the command layer hold of every client.
\<close>

section \<open>The store seen as functions\<close>

definition heap_wf :: "'z server_state_scheme \<Rightarrow> bool" where
  "heap_wf s \<longleftrightarrow> omap_wf (<) (heapClients s) \<and> omap_wf (<) (heapChannels s)
     \<and> omap_wf IrcStringCompare (nicknameToClient s) \<and> omap_wf (<) (fdToClient s)
     \<and> omap_wf IrcStringCompare (ss_channels s)"

lemma fold_max_ge_init: "m \<le> fold max xs (m :: nat)"
proof (induction xs arbitrary: m)
  case (Cons x xs)
  show ?case using Cons.IH [of "max x m"] by simp
qed simp

lemma fold_max_ge: "x \<in> set xs \<Longrightarrow> x \<le> fold max xs (m :: nat)"
proof (induction xs arbitrary: m)
  case (Cons y xs)
  then show ?case using fold_max_ge_init [of "max y m" xs] by auto
qed simp

lemma new_addr_fresh: "new_addr p used \<notin> set used" "new_addr p used \<noteq> 0"
  using fold_max_ge [of "Suc (fold max used 0)" used 0] by (auto simp: new_addr_def Let_def)

lemma find_None_notin: "a \<notin> fst ` set m \<Longrightarrow> omap_find (<) m (a :: 'a :: linorder) = None"
  by (metis equivalent_less fst_conv image_eqI not_None_eq omap_find_in_set)

lemma new_addr_unused [simp]:
  "deref_client s (new_addr p (used_addrs s)) = None"
  "deref_channel s (new_addr p (used_addrs s)) = None"
  using new_addr_fresh [of p "used_addrs s"]
  by (auto simp: deref_client_def deref_channel_def used_addrs_def intro!: find_None_notin)

lemma store_views [simp]:
  "omap_wf (<) (heapClients s) \<Longrightarrow> deref_client (store_client a c s) = (deref_client s)(a := Some c)"
  "omap_wf (<) (heapChannels s) \<Longrightarrow> deref_channel (store_channel x h s) = (deref_channel s)(x := Some h)"
  "omap_wf (<) (heapClients s) \<Longrightarrow> deref_client (delete_client a s) = (deref_client s)(a := None)"
  "omap_wf (<) (heapChannels s) \<Longrightarrow> deref_channel (delete_channel x s) = (deref_channel s)(x := None)"
  by (auto simp: deref_client_def deref_channel_def store_client_def store_channel_def
      delete_client_def delete_channel_def)

lemma store_frames [simp]:
  "deref_channel (store_client a c s) = deref_channel s"
  "deref_client (store_channel x h s) = deref_client s"
  "deref_channel (delete_client a s) = deref_channel s"
  "deref_client (delete_channel x s) = deref_client s"
  "getClientByFd (store_client a c r) = getClientByFd r"
  "getClientByFd (store_channel x h r) = getClientByFd r"
  "getClientByFd (delete_client a r) = getClientByFd r"
  "getClientByFd (delete_channel x r) = getClientByFd r"
  "getClientByNick (store_client a c r) = getClientByNick r"
  "getClientByNick (store_channel x h r) = getClientByNick r"
  "getClientByNick (delete_client a r) = getClientByNick r"
  "getClientByNick (delete_channel x r) = getClientByNick r"
  "getChannel (store_client a c t) = getChannel t"
  "getChannel (store_channel x h t) = getChannel t"
  "getChannel (delete_client a t) = getChannel t"
  "getChannel (delete_channel x t) = getChannel t"
  by (auto simp: deref_client_def deref_channel_def store_client_def store_channel_def
      delete_client_def delete_channel_def getClientByFd_def getClientByNick_def getChannel_def)

lemma store_fields [simp]:
  "ss_password (store_client a c t) = ss_password t"
  "ss_password (store_channel x h t) = ss_password t"
  "ss_password (delete_client a t) = ss_password t"
  "ss_password (delete_channel x t) = ss_password t"
  "ss_channels (store_client a c t) = ss_channels t"
  "ss_channels (store_channel x h t) = ss_channels t"
  "ss_channels (delete_client a t) = ss_channels t"
  by (auto simp: store_client_def store_channel_def delete_client_def delete_channel_def)

lemma field_frames [simp]:
  "deref_client (s\<lparr>nicknameToClient := n\<rparr>) = deref_client s"
  "deref_client (s\<lparr>fdToClient := f\<rparr>) = deref_client s"
  "deref_client (t\<lparr>ss_channels := k\<rparr>) = deref_client t"
  "deref_channel (s\<lparr>nicknameToClient := n\<rparr>) = deref_channel s"
  "deref_channel (s\<lparr>fdToClient := f\<rparr>) = deref_channel s"
  "deref_channel (t\<lparr>ss_channels := k\<rparr>) = deref_channel t"
  "getClientByFd (s\<lparr>nicknameToClient := n\<rparr>) = getClientByFd s"
  "getClientByFd (t\<lparr>ss_channels := k\<rparr>) = getClientByFd t"
  "getClientByNick (s\<lparr>fdToClient := f\<rparr>) = getClientByNick s"
  "getClientByNick (t\<lparr>ss_channels := k\<rparr>) = getClientByNick t"
  "getChannel (t\<lparr>nicknameToClient := n\<rparr>) = getChannel t"
  "getChannel (t\<lparr>fdToClient := f\<rparr>) = getChannel t"
  by (auto simp: deref_client_def deref_channel_def getClientByFd_def getClientByNick_def getChannel_def)

lemma table_views [simp]:
  "omap_wf (<) (fdToClient s) \<Longrightarrow>
     getClientByFd (s\<lparr>fdToClient := omap_insert (<) fd a (fdToClient s)\<rparr>) =
     (if getClientByFd s fd = None then (getClientByFd s)(fd := Some a) else getClientByFd s)"
  "omap_wf (<) (fdToClient s) \<Longrightarrow>
     getClientByFd (s\<lparr>fdToClient := omap_erase (<) fd (fdToClient s)\<rparr>) = (getClientByFd s)(fd := None)"
  "omap_wf IrcStringCompare (nicknameToClient s) \<Longrightarrow>
     getClientByNick (s\<lparr>nicknameToClient := omap_insert IrcStringCompare n a (nicknameToClient s)\<rparr>) =
     (\<lambda>k. if irc_key k = irc_key n \<and> getClientByNick s n = None then Some a else getClientByNick s k)"
  "omap_wf IrcStringCompare (nicknameToClient s) \<Longrightarrow>
     getClientByNick (s\<lparr>nicknameToClient := omap_erase IrcStringCompare n (nicknameToClient s)\<rparr>) =
     (\<lambda>k. if irc_key k = irc_key n then None else getClientByNick s k)"
  "omap_wf IrcStringCompare (ss_channels t) \<Longrightarrow>
     getChannel (t\<lparr>ss_channels := omap_insert IrcStringCompare n x (ss_channels t)\<rparr>) =
     (\<lambda>k. if irc_key k = irc_key n \<and> getChannel t n = None then Some x else getChannel t k)"
  "omap_wf IrcStringCompare (ss_channels t) \<Longrightarrow>
     getChannel (t\<lparr>ss_channels := omap_erase IrcStringCompare n (ss_channels t)\<rparr>) =
     (\<lambda>k. if irc_key k = irc_key n then None else getChannel t k)"
  by (auto simp: getClientByFd_def getClientByNick_def getChannel_def irc.equivalent_key fun_eq_iff)

lemma heap_wf_ops [simp, intro]:
  "heap_wf s \<Longrightarrow> heap_wf (store_client a c s)"
  "heap_wf s \<Longrightarrow> heap_wf (store_channel x h s)"
  "heap_wf s \<Longrightarrow> heap_wf (delete_client a s)"
  "heap_wf s \<Longrightarrow> heap_wf (delete_channel x s)"
  "heap_wf s \<Longrightarrow> heap_wf (s\<lparr>fdToClient := omap_insert (<) fd a (fdToClient s)\<rparr>)"
  "heap_wf s \<Longrightarrow> heap_wf (s\<lparr>fdToClient := omap_erase (<) fd (fdToClient s)\<rparr>)"
  "heap_wf s \<Longrightarrow> heap_wf (s\<lparr>nicknameToClient := omap_insert IrcStringCompare n a (nicknameToClient s)\<rparr>)"
  "heap_wf s \<Longrightarrow> heap_wf (s\<lparr>nicknameToClient := omap_erase IrcStringCompare n (nicknameToClient s)\<rparr>)"
  "heap_wf s \<Longrightarrow> heap_wf (s\<lparr>ss_channels := omap_insert IrcStringCompare n x (ss_channels s)\<rparr>)"
  "heap_wf s \<Longrightarrow> heap_wf (s\<lparr>ss_channels := omap_erase IrcStringCompare n (ss_channels s)\<rparr>)"
  by (auto simp: heap_wf_def store_client_def store_channel_def delete_client_def delete_channel_def)

lemma heap_wfD [simp]:
  "heap_wf s \<Longrightarrow> omap_wf (<) (heapClients s)"
  "heap_wf s \<Longrightarrow> omap_wf (<) (heapChannels s)"
  "heap_wf s \<Longrightarrow> omap_wf IrcStringCompare (nicknameToClient s)"
  "heap_wf s \<Longrightarrow> omap_wf (<) (fdToClient s)"
  "heap_wf s \<Longrightarrow> omap_wf IrcStringCompare (ss_channels s)"
  by (auto simp: heap_wf_def)

lemma lookup_equivalent:
  "irc_key n = irc_key m \<Longrightarrow> getClientByNick s n = getClientByNick s m"
  "irc_key n = irc_key m \<Longrightarrow> getChannel t n = getChannel t m"
  unfolding getClientByNick_def getChannel_def
  by (auto intro!: irc.find_equivalent simp: irc.equivalent_key)

section \<open>The invariant\<close>

definition fd_inv :: "(addr \<rightharpoonup> client) \<Rightarrow> (int \<rightharpoonup> addr) \<Rightarrow> bool" where
  "fd_inv C F \<longleftrightarrow> C 0 = None \<and> (\<forall>fd a. F fd = Some a \<longrightarrow> (\<exists>c. C a = Some c \<and> cl_fd c = fd))
     \<and> (\<forall>a c. C a = Some c \<longrightarrow> F (cl_fd c) = Some a)"

definition nick_inv :: "(addr \<rightharpoonup> client) \<Rightarrow> (string \<rightharpoonup> addr) \<Rightarrow> bool" where
  "nick_inv C N \<longleftrightarrow>
     (\<forall>n a. N n = Some a \<longrightarrow>
        (\<exists>c. C a = Some c \<and> cl_nickname c \<noteq> [] \<and> irc_key (cl_nickname c) = irc_key n))
     \<and> (\<forall>a c. C a = Some c \<longrightarrow> cl_nickname c \<noteq> [] \<longrightarrow> N (cl_nickname c) = Some a)"

definition chan_inv :: "(addr \<rightharpoonup> channel) \<Rightarrow> (string \<rightharpoonup> addr) \<Rightarrow> bool" where
  "chan_inv H K \<longleftrightarrow> H 0 = None
     \<and> (\<forall>n x. K n = Some x \<longrightarrow> (\<exists>h. H x = Some h \<and> irc_key (ch_name h) = irc_key n))
     \<and> (\<forall>x h. H x = Some h \<longrightarrow> K (ch_name h) = Some x)"

text \<open>Who has joined what, as the channels say and as the clients say.\<close>

definition is_member :: "(addr \<rightharpoonup> channel) \<Rightarrow> addr \<Rightarrow> addr \<Rightarrow> bool" where
  "is_member H x a \<longleftrightarrow> (case H x of Some h \<Rightarrow> hasMember h a | None \<Rightarrow> False)"

definition has_joined :: "(addr \<rightharpoonup> client) \<Rightarrow> addr \<Rightarrow> addr \<Rightarrow> bool" where
  "has_joined C x a \<longleftrightarrow> (case C a of Some c \<Rightarrow> x \<in> set (cl_channels c) | None \<Rightarrow> False)"

definition member_inv :: "(addr \<rightharpoonup> client) \<Rightarrow> (addr \<rightharpoonup> channel) \<Rightarrow> bool" where
  "member_inv C H \<longleftrightarrow>
     (\<forall>x h. H x = Some h \<longrightarrow> channel_wf h)
     \<and> (\<forall>x h a. H x = Some h \<longrightarrow> isInvited h a \<longrightarrow> C a \<noteq> None \<and> \<not> hasMember h a)
     \<and> (\<forall>a c. C a = Some c \<longrightarrow> distinct (cl_channels c) \<and> sorted (cl_channels c))
     \<and> (\<forall>x a. is_member H x a \<longleftrightarrow> has_joined C x a)"

definition client_rules :: "client \<Rightarrow> bool" where
  "client_rules c \<longleftrightarrow> (cl_registered c \<longrightarrow> canRegister c)
     \<and> (cl_nickname c = [] \<or> isValidNickname (cl_nickname c))
     \<and> (cl_channels c \<noteq> [] \<longrightarrow> cl_registered c)"

definition rules_inv :: "(addr \<rightharpoonup> client) \<Rightarrow> (addr \<rightharpoonup> channel) \<Rightarrow> bool" where
  "rules_inv C H \<longleftrightarrow> (\<forall>a c. C a = Some c \<longrightarrow> client_rules c)
     \<and> (\<forall>x h. H x = Some h \<longrightarrow> isValidChannelName (ch_name h))"

definition core_inv :: "'z server_state_scheme \<Rightarrow> bool" where
  "core_inv s \<longleftrightarrow> heap_wf s \<and> fd_inv (deref_client s) (getClientByFd s)
     \<and> nick_inv (deref_client s) (getClientByNick s) \<and> chan_inv (deref_channel s) (getChannel s)
     \<and> member_inv (deref_client s) (deref_channel s) \<and> rules_inv (deref_client s) (deref_channel s)"

definition nonempty_inv :: "(addr \<rightharpoonup> channel) \<Rightarrow> bool" where
  "nonempty_inv H \<longleftrightarrow> (\<forall>x h. H x = Some h \<longrightarrow> \<not> channel_isEmpty h)"

definition state_inv :: "'z server_state_scheme \<Rightarrow> bool" where
  "state_inv s \<longleftrightarrow> core_inv s \<and> nonempty_inv (deref_channel s)"

section \<open>Function updates that keep the invariant\<close>

lemma fd_inv_upd:
  "fd_inv C F \<Longrightarrow> C a = Some c \<Longrightarrow> cl_fd c' = cl_fd c \<Longrightarrow> fd_inv (C(a := Some c')) F"
  by (cases "a = 0") (force simp: fd_inv_def)+

lemma fd_inv_new:
  "fd_inv C F \<Longrightarrow> C a = None \<Longrightarrow> a \<noteq> 0 \<Longrightarrow> F (cl_fd c) = None \<Longrightarrow>
     fd_inv (C(a := Some c)) (F(cl_fd c := Some a))"
  by (force simp: fd_inv_def)

lemma fd_inv_inject: "fd_inv C F \<Longrightarrow> C a = Some c \<Longrightarrow> C b = Some d \<Longrightarrow> cl_fd d = cl_fd c \<Longrightarrow> b = a"
  by (metis fd_inv_def option.inject)

lemma fd_inv_delete:
  assumes "fd_inv C F" "C a = Some c"
  shows "fd_inv (C(a := None)) (F(cl_fd c := None))"
proof -
  have "\<And>b d. C b = Some d \<Longrightarrow> b \<noteq> a \<Longrightarrow> cl_fd d \<noteq> cl_fd c"
    using fd_inv_inject [OF assms] by blast
  then have "\<forall>b d. (C(a := None)) b = Some d \<longrightarrow> (F(cl_fd c := None)) (cl_fd d) = Some b"
    using assms(1) by (auto simp: fd_inv_def)
  moreover have "\<exists>d. (C(a := None)) b = Some d \<and> cl_fd d = fd"
    if "(F(cl_fd c := None)) fd = Some b" for fd b
    using that assms by (force simp: fd_inv_def split: if_splits)
  ultimately show ?thesis using assms(1) by (simp add: fd_inv_def)
qed

lemma nick_inv_upd:
  "nick_inv C N \<Longrightarrow> C a = Some c \<Longrightarrow> cl_nickname c' = cl_nickname c \<Longrightarrow> nick_inv (C(a := Some c')) N"
  by (force simp: nick_inv_def)

lemma nick_inv_new:
  "nick_inv C N \<Longrightarrow> C a = None \<Longrightarrow> cl_nickname c = [] \<Longrightarrow> nick_inv (C(a := Some c)) N"
  by (force simp: nick_inv_def)

lemma chan_inv_upd:
  "chan_inv H K \<Longrightarrow> H x = Some h \<Longrightarrow> ch_name h' = ch_name h \<Longrightarrow> chan_inv (H(x := Some h')) K"
  by (cases "x = 0") (force simp: chan_inv_def)+

lemma is_member_upd [simp]:
  "is_member (H(x := Some h)) y a = (if y = x then hasMember h a else is_member H y a)"
  "is_member (H(x := None)) y a = (y \<noteq> x \<and> is_member H y a)"
  by (simp_all add: is_member_def)

lemma has_joined_upd [simp]:
  "has_joined (C(a := Some c)) x b = (if b = a then x \<in> set (cl_channels c) else has_joined C x b)"
  "has_joined (C(a := None)) x b = (b \<noteq> a \<and> has_joined C x b)"
  by (simp_all add: has_joined_def)

lemma is_member_Some: "H x = Some h \<Longrightarrow> is_member H x a \<longleftrightarrow> hasMember h a"
  by (simp add: is_member_def)

lemma has_joined_Some: "C a = Some c \<Longrightarrow> has_joined C x a \<longleftrightarrow> x \<in> set (cl_channels c)"
  by (simp add: has_joined_def)

lemma is_member_None: "H x = None \<Longrightarrow> \<not> is_member H x a"
  by (simp add: is_member_def)

lemma has_joined_None: "C a = None \<Longrightarrow> \<not> has_joined C x a"
  by (simp add: has_joined_def)

lemma member_invD:
  assumes "member_inv C H"
  shows "H x = Some h \<Longrightarrow> channel_wf h"
    and "H x = Some h \<Longrightarrow> isInvited h a \<Longrightarrow> C a \<noteq> None"
    and "H x = Some h \<Longrightarrow> isInvited h a \<Longrightarrow> \<not> hasMember h a"
    and "C a = Some c \<Longrightarrow> distinct (cl_channels c)"
    and "C a = Some c \<Longrightarrow> sorted (cl_channels c)"
    and "is_member H x a \<longleftrightarrow> has_joined C x a"
  using assms by (auto simp: member_inv_def)

lemma member_inv_client_upd:
  assumes "member_inv C H" "C a = Some c" "cl_channels c' = cl_channels c"
  shows "member_inv (C(a := Some c')) H"
  using assms has_joined_Some [of C a c] by (auto simp: member_inv_def)

lemma member_inv_channel_upd:
  assumes "member_inv C H" "H x = Some h" "channel_wf h'"
    and "\<And>a. hasMember h' a = hasMember h a"
    and "\<And>a. isInvited h' a \<Longrightarrow> C a \<noteq> None \<and> \<not> hasMember h a"
  shows "member_inv C (H(x := Some h'))"
  using assms is_member_Some [of H x h] by (auto simp: member_inv_def)

lemma member_inv_join:
  assumes "member_inv C H" "C a = Some c" "H x = Some h"
  shows "member_inv (C(a := Some (unsafe_joinChannel x c))) (H(x := Some (unsafe_addMember a h)))"
  using assms is_member_Some [of H x h] has_joined_Some [of C a c]
  by (auto simp: member_inv_def unsafe_joinChannel_def)

lemma member_inv_leave:
  assumes "member_inv C H" "C a = Some c" "H x = Some h"
  shows "member_inv (C(a := Some (unsafe_leaveChannel x c)))
    (H(x := Some (unsafe_removeClientState a h)))"
  using assms is_member_Some [of H x h] has_joined_Some [of C a c]
  by (auto simp: member_inv_def unsafe_leaveChannel_def sorted_remove1)

lemma member_inv_new_channel:
  assumes "member_inv C H" "H x = None"
  shows "member_inv C (H(x := Some (new_Channel n)))"
  using assms is_member_None [of H x] by (auto simp: member_inv_def)

lemma member_inv_new_client:
  assumes "member_inv C H" "C a = None" "cl_channels c = []"
  shows "member_inv (C(a := Some c)) H"
  using assms has_joined_None [of C a] by (auto simp: member_inv_def)

lemma member_inv_delete_channel:
  assumes "member_inv C H" "H x = Some h" "channel_isEmpty h"
  shows "member_inv C (H(x := None))"
  using assms is_member_Some [of H x h] member_invD(1) [OF assms(1,2)]
  by (auto simp: member_inv_def channel_isEmpty_iff)

lemma member_inv_delete_client:
  assumes "member_inv C H" "C a = Some c" "cl_channels c = []"
    and "\<And>x h. H x = Some h \<Longrightarrow> \<not> isInvited h a"
  shows "member_inv (C(a := None)) H"
  using assms has_joined_Some [of C a c] by (auto simp: member_inv_def)

lemma rules_inv_upd:
  "rules_inv C H \<Longrightarrow> client_rules c \<Longrightarrow> rules_inv (C(a := Some c)) H"
  "rules_inv C H \<Longrightarrow> isValidChannelName (ch_name h) \<Longrightarrow> rules_inv C (H(x := Some h))"
  "rules_inv C H \<Longrightarrow> rules_inv (C(a := None)) H"
  "rules_inv C H \<Longrightarrow> rules_inv C (H(x := None))"
  by (auto simp: rules_inv_def)

lemma nonempty_inv_upd:
  "nonempty_inv H \<Longrightarrow> \<not> channel_isEmpty h \<Longrightarrow> nonempty_inv (H(x := Some h))"
  "nonempty_inv (H(x := None)) \<Longrightarrow> \<not> channel_isEmpty h \<Longrightarrow> nonempty_inv (H(x := Some h))"
  "nonempty_inv H \<Longrightarrow> nonempty_inv (H(x := None))"
  by (auto simp: nonempty_inv_def split: if_splits)

end
