(* ===== verification/StateSafety.thy ===== *)
theory StateSafety
  imports StateInvariant
begin

text \<open>
  Every operation of \<open>ServerState\<close> runs without touching a dead object and keeps the
  invariant; what it changes is given through the lookups. The lemmas are stated with
  \<open>succeeds\<close>, so each of them contains the memory safety of the operation.
\<close>

section \<open>Access to the parts of the invariant\<close>

lemma core_invD:
  assumes "core_inv s"
  shows "heap_wf s"
    and "fd_inv (deref_client s) (getClientByFd s)"
    and "nick_inv (deref_client s) (getClientByNick s)"
    and "chan_inv (deref_channel s) (getChannel s)"
    and "member_inv (deref_client s) (deref_channel s)"
    and "rules_inv (deref_client s) (deref_channel s)"
  using assms by (auto simp: core_inv_def)

lemma state_invD [dest]: "state_inv s \<Longrightarrow> core_inv s" "state_inv s \<Longrightarrow> nonempty_inv (deref_channel s)"
  by (auto simp: state_inv_def)

lemma core_heap_wf [simp]: "core_inv s \<Longrightarrow> heap_wf s"
  by (rule core_invD)

lemma state_heap_wf [simp]: "state_inv s \<Longrightarrow> heap_wf s"
  by auto

lemma live_by_fd: "core_inv s \<Longrightarrow> getClientByFd s fd = Some a \<Longrightarrow> \<exists>c. deref_client s a = Some c \<and> cl_fd c = fd"
  using core_invD(2) unfolding fd_inv_def by blast

lemma fd_of_live: "core_inv s \<Longrightarrow> deref_client s a = Some c \<Longrightarrow> getClientByFd s (cl_fd c) = Some a"
  using core_invD(2) unfolding fd_inv_def by blast

lemma live_by_nick:
  "core_inv s \<Longrightarrow> getClientByNick s n = Some a \<Longrightarrow>
     \<exists>c. deref_client s a = Some c \<and> cl_nickname c \<noteq> [] \<and> irc_key (cl_nickname c) = irc_key n"
  using core_invD(3) unfolding nick_inv_def by blast

lemma live_by_name:
  "core_inv s \<Longrightarrow> getChannel s n = Some x \<Longrightarrow>
     \<exists>h. deref_channel s x = Some h \<and> irc_key (ch_name h) = irc_key n"
  using core_invD(4) unfolding chan_inv_def by blast

lemma name_of_live: "core_inv s \<Longrightarrow> deref_channel s x = Some h \<Longrightarrow> getChannel s (ch_name h) = Some x"
  using core_invD(4) unfolding chan_inv_def by blast

lemma live_channel_wf [simp]: "core_inv s \<Longrightarrow> deref_channel s x = Some h \<Longrightarrow> channel_wf h"
  using core_invD(5) unfolding member_inv_def by blast

lemma live_member: "core_inv s \<Longrightarrow> deref_channel s x = Some h \<Longrightarrow> hasMember h a \<Longrightarrow>
    \<exists>c. deref_client s a = Some c \<and> x \<in> set (cl_channels c)"
  using member_invD(6) [OF core_invD(5), of s x a]
  by (auto simp: is_member_def has_joined_def split: option.splits)

lemma joined_channel: "core_inv s \<Longrightarrow> deref_client s a = Some c \<Longrightarrow> x \<in> set (cl_channels c) \<Longrightarrow>
    \<exists>h. deref_channel s x = Some h \<and> hasMember h a"
  using member_invD(6) [OF core_invD(5), of s x a]
  by (auto simp: is_member_def has_joined_def split: option.splits)

lemma null_not_live [simp]:
  "core_inv s \<Longrightarrow> deref_client s 0 = None" "core_inv s \<Longrightarrow> deref_channel s 0 = None"
  using core_invD(2,4) unfolding fd_inv_def chan_inv_def by blast+

lemma live_client_rules: "core_inv s \<Longrightarrow> deref_client s a = Some c \<Longrightarrow> client_rules c"
  using core_invD(6) unfolding rules_inv_def by blast

lemma live_channel_name: "core_inv s \<Longrightarrow> deref_channel s x = Some h \<Longrightarrow> isValidChannelName (ch_name h)"
  using core_invD(6) unfolding rules_inv_def by blast

section \<open>Writing through a pointer\<close>

lemma update_client_succeeds [safe_simps]:
  "deref_client s a = Some c \<Longrightarrow> update_client a f s = Some (store_client a (f c) s)"
  by (simp add: update_client_def)

lemma update_channel_succeeds [safe_simps]:
  "deref_channel s x = Some h \<Longrightarrow> update_channel x f s = Some (store_channel x (f h) s)"
  by (simp add: update_channel_def)

lemma core_inv_store_client:
  assumes "core_inv s" "deref_client s a = Some c"
    and "cl_fd c' = cl_fd c" "cl_nickname c' = cl_nickname c" "cl_channels c' = cl_channels c"
    and "client_rules c'"
  shows "core_inv (store_client a c' s)"
  using core_invD [OF assms(1)] assms(2-)
  by (auto simp: core_inv_def intro!: fd_inv_upd nick_inv_upd member_inv_client_upd rules_inv_upd)

lemma state_inv_store_client:
  assumes "state_inv s" "deref_client s a = Some c"
    and "cl_fd c' = cl_fd c" "cl_nickname c' = cl_nickname c" "cl_channels c' = cl_channels c"
    and "client_rules c'"
  shows "state_inv (store_client a c' s)"
  using assms core_inv_store_client [of s a c c'] by (auto simp: state_inv_def)

lemma core_inv_store_channel:
  assumes "core_inv s" "deref_channel s x = Some h"
    and "ch_name h' = ch_name h" "channel_wf h'" "\<And>a. hasMember h' a = hasMember h a"
    and "\<And>a. isInvited h' a \<Longrightarrow> deref_client s a \<noteq> None \<and> \<not> hasMember h a"
  shows "core_inv (store_channel x h' s)"
proof -
  have "isValidChannelName (ch_name h')"
    using live_channel_name [OF assms(1,2)] assms(3) by simp
  with core_invD [OF assms(1)] assms(2-) show ?thesis
    by (auto simp: core_inv_def intro!: chan_inv_upd rules_inv_upd member_inv_channel_upd)
qed

lemma state_inv_store_channel:
  assumes "state_inv s" "deref_channel s x = Some h"
    and "ch_name h' = ch_name h" "channel_wf h'" "\<And>a. hasMember h' a = hasMember h a"
    and "\<And>a. isInvited h' a \<Longrightarrow> deref_client s a \<noteq> None \<and> \<not> hasMember h a"
  shows "state_inv (store_channel x h' s)"
proof -
  have "channel_wf h" and "\<not> channel_isEmpty h"
    using assms(1,2) live_channel_wf state_invD [of s] by (auto simp: nonempty_inv_def)
  then have "\<not> channel_isEmpty h'"
    using assms(4,5) by (simp add: channel_isEmpty_iff)
  then show ?thesis
    using assms core_inv_store_channel [of s x h h'] state_invD
    by (auto simp: state_inv_def intro!: nonempty_inv_upd)
qed

section \<open>Connections\<close>

lemma new_ServerState_views [simp]:
  "deref_client (new_ServerState p pw) = Map.empty"
  "deref_channel (new_ServerState p pw) = Map.empty"
  "getClientByFd (new_ServerState p pw) = Map.empty"
  "getClientByNick (new_ServerState p pw) = Map.empty"
  "getChannel (new_ServerState p pw) = Map.empty"
  by (auto simp: new_ServerState_def deref_client_def deref_channel_def getClientByFd_def
      getClientByNick_def getChannel_def)

lemma new_ServerState_inv: "state_inv (new_ServerState p pw)"
proof -
  have "heap_wf (new_ServerState p pw)"
    by (simp add: heap_wf_def new_ServerState_def del: heap_wfD)
  then show ?thesis
    by (simp add: state_inv_def core_inv_def nonempty_inv_def fd_inv_def nick_inv_def chan_inv_def
        member_inv_def rules_inv_def is_member_def has_joined_def del: core_heap_wf state_heap_wf null_not_live)
qed

lemma new_Client_rules [simp]: "client_rules (new_Client fd host)"
  by (simp add: client_rules_def new_Client_def)

lemma addClient_views:
  assumes "heap_wf s"
  shows "getClientByFd s fd \<noteq> None \<Longrightarrow> addClient fd host s = s"
    and "getClientByFd s fd = None \<Longrightarrow> deref_client (addClient fd host s) =
      (deref_client s)(new_addr (placement s) (used_addrs s) := Some (new_Client fd host))"
    and "getClientByFd s fd = None \<Longrightarrow> getClientByFd (addClient fd host s) =
      (getClientByFd s)(fd := Some (new_addr (placement s) (used_addrs s)))"
    and "deref_channel (addClient fd host s) = deref_channel s"
    and "getClientByNick (addClient fd host s) = getClientByNick s"
    and "getChannel (addClient fd host s) = getChannel s"
    and "heap_wf (addClient fd host s)"
    and "ss_password (addClient fd host s) = ss_password s"
  using assms by (auto simp: addClient_def registry_addClient_def Let_def)

lemma addClient_inv: "state_inv s \<Longrightarrow> state_inv (addClient fd host s)"
proof (cases "getClientByFd s fd")
  case None
  assume inv: "state_inv s"
  then have core: "core_inv s" by blast
  note parts = core_invD [OF core]
  note views = addClient_views(2-) [OF parts(1), of fd host, simplified None, simplified]
  have fd: "cl_fd (new_Client fd host) = fd" by (simp add: new_Client_def)
  have "core_inv (addClient fd host s)"
    unfolding core_inv_def views
    using parts None fd fd_inv_new [OF parts(2), of _ "new_Client fd host"]
      nick_inv_new [OF parts(3), of _ "new_Client fd host"]
      member_inv_new_client [OF parts(5), of _ "new_Client fd host"]
      new_addr_fresh(2) [of "placement s" "used_addrs s"]
    by (simp add: rules_inv_upd views) (simp add: new_Client_def)
  with inv show ?thesis by (auto simp: state_inv_def views)
next
  case (Some a)
  assume "state_inv s"
  with Some show ?thesis by (simp add: addClient_views(1))
qed

section \<open>Nicknames\<close>

text \<open>The tables after a nickname was taken over by client \<open>a\<close>.\<close>

lemma nick_inv_rename:
  assumes inv: "nick_inv C N" and resp: "\<And>k m. irc_key k = irc_key m \<Longrightarrow> N k = N m"
    and c: "C a = Some c" and n: "n \<noteq> []"
    and free: "\<And>b. N n = Some b \<Longrightarrow> b = a"
    and c': "cl_nickname c' = n"
  shows "nick_inv (C(a := Some c'))
    (\<lambda>k. if irc_key k = irc_key n then Some a
         else if cl_nickname c \<noteq> [] \<and> irc_key k = irc_key (cl_nickname c) then None else N k)"
    (is "nick_inv ?C ?N")
proof -
  have own: "irc_key m = irc_key (cl_nickname c)" if "N m = Some a" for m
    using inv c that by (fastforce simp: nick_inv_def)
  have "\<exists>d. ?C b = Some d \<and> cl_nickname d \<noteq> [] \<and> irc_key (cl_nickname d) = irc_key k"
    if "?N k = Some b" for k b
  proof (cases "irc_key k = irc_key n")
    case True
    with that c' n show ?thesis by auto
  next
    case False
    with that have k: "N k = Some b" "cl_nickname c = [] \<or> irc_key k \<noteq> irc_key (cl_nickname c)"
      by (auto split: if_splits)
    with inv have "\<exists>d. C b = Some d \<and> cl_nickname d \<noteq> [] \<and> irc_key (cl_nickname d) = irc_key k"
      by (simp add: nick_inv_def)
    moreover have "b \<noteq> a"
      using k own [of k] inv c by (fastforce simp: nick_inv_def)
    ultimately show ?thesis by auto
  qed
  moreover have "?N (cl_nickname d) = Some b" if d: "?C b = Some d" "cl_nickname d \<noteq> []" for b d
  proof (cases "b = a")
    case True
    with d c' show ?thesis by simp
  next
    case False
    with d inv have b: "N (cl_nickname d) = Some b" by (auto simp: nick_inv_def)
    have "irc_key (cl_nickname d) \<noteq> irc_key (cl_nickname c)" if "cl_nickname c \<noteq> []"
    proof
      assume same: "irc_key (cl_nickname d) = irc_key (cl_nickname c)"
      from inv c that have "N (cl_nickname c) = Some a" by (simp add: nick_inv_def)
      with b False resp [OF same] show False by simp
    qed
    moreover have "irc_key (cl_nickname d) \<noteq> irc_key n"
    proof
      assume "irc_key (cl_nickname d) = irc_key n"
      from resp [OF this] b have "N n = Some b" by simp
      from free [OF this] False show False by simp
    qed
    ultimately show ?thesis using b by auto
  qed
  ultimately show ?thesis by (simp add: nick_inv_def)
qed

text \<open>The state after the third step of \<open>updateNick\<close>, with the tables it leaves.\<close>

definition renamed :: "addr \<Rightarrow> client \<Rightarrow> string \<Rightarrow> 'z server_state_scheme \<Rightarrow> 'z server_state_scheme" where
  "renamed a c n s =
     (let s1 = (if cl_nickname c \<noteq> []
        then s\<lparr>nicknameToClient := omap_erase IrcStringCompare (cl_nickname c) (nicknameToClient s)\<rparr>
        else s);
        s2 = s1\<lparr>nicknameToClient := omap_insert IrcStringCompare n a (nicknameToClient s1)\<rparr>
      in store_client a (unsafe_setNick n c) s2)"

lemma updateNick_run:
  assumes "deref_client s a = Some c"
  shows "updateNick a n s = Some (
    if cl_nickname c = n then (True, s)
    else if getClientByNick s n \<noteq> None \<and> getClientByNick s n \<noteq> Some a then (False, s)
    else (True, renamed a c n s))"
  using assms
  by (auto simp: updateNick_def registry_updateNick_def getClientByNick_def Let_def
      update_client_def renamed_def)

lemma renamed_frames [simp]:
  "deref_channel (renamed a c n s) = deref_channel s"
  "getClientByFd (renamed a c n s) = getClientByFd s"
  "getChannel (renamed a c n s) = getChannel s"
  "ss_password (renamed a c n s) = ss_password s"
  "heap_wf s \<Longrightarrow> heap_wf (renamed a c n s)"
  "heap_wf s \<Longrightarrow> deref_client (renamed a c n s) = (deref_client s)(a := Some (unsafe_setNick n c))"
  by (auto simp: renamed_def Let_def)

lemma renamed_nicks:
  assumes "core_inv s" "deref_client s a = Some c" "\<And>b. getClientByNick s n = Some b \<Longrightarrow> b = a"
  shows "getClientByNick (renamed a c n s) = (\<lambda>k. if irc_key k = irc_key n then Some a
      else if cl_nickname c \<noteq> [] \<and> irc_key k = irc_key (cl_nickname c) then None
      else getClientByNick s k)"
proof (cases "getClientByNick s n")
  case None
  then show ?thesis using assms(1)
    by (auto simp: renamed_def Let_def fun_eq_iff getClientByNick_def store_client_def irc.equivalent_key)
next
  case (Some b)
  with assms(3) have "getClientByNick s n = Some a" by simp
  then have "irc_key (cl_nickname c) = irc_key n" "cl_nickname c \<noteq> []"
    using live_by_nick [OF assms(1)] assms(2) by fastforce+
  then show ?thesis using assms(1)
    by (auto simp: renamed_def Let_def fun_eq_iff getClientByNick_def store_client_def irc.equivalent_key)
qed

lemma renamed_inv:
  assumes "state_inv s" "deref_client s a = Some c" "isValidNickname n"
    and free: "\<And>b. getClientByNick s n = Some b \<Longrightarrow> b = a"
  shows "state_inv (renamed a c n s)"
proof -
  from assms(1) have core: "core_inv s" by blast
  note parts = core_invD [OF core]
  have n: "n \<noteq> []" using assms(3) by auto
  have "client_rules (unsafe_setNick n c)"
    using live_client_rules [OF core assms(2)] assms(3) n
    by (auto simp: client_rules_def unsafe_setNick_def canRegister_def)
  moreover have "nick_inv (deref_client (renamed a c n s)) (getClientByNick (renamed a c n s))"
    using nick_inv_rename [OF parts(3) lookup_equivalent(1) assms(2) n free, of "unsafe_setNick n c"]
      parts(1) by (simp add: renamed_nicks [OF core assms(2) free]) (simp add: unsafe_setNick_def)
  ultimately have "core_inv (renamed a c n s)"
    unfolding core_inv_def using parts assms(2)
    by (auto intro!: fd_inv_upd member_inv_client_upd rules_inv_upd simp: unsafe_setNick_def)
  then show ?thesis using assms(1) by (auto simp: state_inv_def)
qed

lemma updateNick_succeeds:
  assumes "state_inv s" "deref_client s a = Some c" "isValidNickname n"
  shows "succeeds (updateNick a n s) (\<lambda>(ok, s'). state_inv s'
    \<and> (ok \<longleftrightarrow> (\<forall>b. getClientByNick s n = Some b \<longrightarrow> b = a))
    \<and> (ok \<longrightarrow> deref_client s' = (deref_client s)(a := Some (c\<lparr>cl_nickname := n\<rparr>))
          \<and> getClientByNick s' n = Some a)
    \<and> (\<not> ok \<longrightarrow> s' = s)
    \<and> deref_channel s' = deref_channel s \<and> getClientByFd s' = getClientByFd s
    \<and> getChannel s' = getChannel s \<and> ss_password s' = ss_password s)"
proof -
  from assms(1) have core: "core_inv s" by blast
  have "n \<noteq> []" using assms(3) by auto
  then have same: "cl_nickname c = n \<Longrightarrow> getClientByNick s n = Some a"
    using core_invD(3) [OF core] assms(2) by (auto simp: nick_inv_def)
  show ?thesis
  proof (cases "cl_nickname c = n \<or> (getClientByNick s n \<noteq> None \<and> getClientByNick s n \<noteq> Some a)")
    case True
    with same assms show ?thesis
      by (auto simp: updateNick_run fun_upd_idem)
  next
    case False
    then have free: "\<And>b. getClientByNick s n = Some b \<Longrightarrow> b = a" by auto
    have "state_inv (renamed a c n s)" by (rule renamed_inv [OF assms free])
    with False free assms core show ?thesis
      by (auto simp: updateNick_run renamed_nicks [OF core assms(2) free] unsafe_setNick_def)
  qed
qed

end
