(* ===== verification/MembershipSafety.thy ===== *)
theory MembershipSafety
  imports StateSafety
begin

text \<open>
  The operations of \<open>ServerState\<close> that move clients in and out of channels: joining (which may
  create the channel and makes its first member operator), leaving (which may delete the channel),
  inviting, and the removal of a client from everything when its connection ends.
\<close>

section \<open>One step in, one step out\<close>

lemma length_omap_put: "length (omap_put lt k v m) = (if omap_find lt m k = None then Suc (length m) else length m)"
  by (induction m) (auto split: if_splits)

lemma memberCount_addMember:
  "\<not> hasMember h a \<Longrightarrow> memberCount (unsafe_addMember a h) = Suc (memberCount h)"
  by (simp add: memberCount_def hasMember_def channel_defs length_omap_put)

lemma memberCount_0_iff: "memberCount h = 0 \<longleftrightarrow> channel_isEmpty h"
  by (simp add: memberCount_def channel_isEmpty_def)

lemma addMember_not_empty [simp]: "channel_wf h \<Longrightarrow> \<not> channel_isEmpty (unsafe_addMember a h)"
  by (auto simp: channel_isEmpty_iff)

lemma client_rules_channels:
  "client_rules c \<Longrightarrow> cl_registered c \<Longrightarrow> client_rules (unsafe_joinChannel x c)"
  "client_rules c \<Longrightarrow> client_rules (unsafe_leaveChannel x c)"
  by (auto simp: client_rules_def unsafe_joinChannel_def unsafe_leaveChannel_def canRegister_def)

lemma core_inv_join:
  assumes "core_inv s" "deref_client s a = Some c" "deref_channel s x = Some h" "cl_registered c"
  shows "core_inv (store_client a (unsafe_joinChannel x c) (store_channel x (unsafe_addMember a h) s))"
  using core_invD [OF assms(1)] assms live_client_rules [OF assms(1,2)] live_channel_name [OF assms(1,3)]
    member_inv_join [OF core_invD(5) [OF assms(1)] assms(2,3)]
  by (auto simp: core_inv_def client_rules_channels
      intro!: fd_inv_upd nick_inv_upd chan_inv_upd rules_inv_upd)
    (auto simp: unsafe_joinChannel_def)

lemma core_inv_leave:
  assumes "core_inv s" "deref_client s a = Some c" "deref_channel s x = Some h"
  shows "core_inv (store_client a (unsafe_leaveChannel x c) (store_channel x (unsafe_removeClientState a h) s))"
  using core_invD [OF assms(1)] assms live_client_rules [OF assms(1,2)] live_channel_name [OF assms(1,3)]
    member_inv_leave [OF core_invD(5) [OF assms(1)] assms(2,3)]
  by (auto simp: core_inv_def client_rules_channels
      intro!: fd_inv_upd nick_inv_upd chan_inv_upd rules_inv_upd)
    (auto simp: unsafe_leaveChannel_def)

section \<open>Creating and deleting channels\<close>

lemma chan_inv_new:
  assumes inv: "chan_inv H K" and resp: "\<And>k m. irc_key k = irc_key m \<Longrightarrow> K k = K m"
    and "H x = None" "K (ch_name h) = None" "x \<noteq> 0"
  shows "chan_inv (H(x := Some h)) (\<lambda>k. if irc_key k = irc_key (ch_name h) then Some x else K k)"
  unfolding chan_inv_def
proof (intro conjI allI impI)
  show "(H(x := Some h)) 0 = None" using inv \<open>x \<noteq> 0\<close> by (simp add: chan_inv_def)
next
  fix k y assume y: "(if irc_key k = irc_key (ch_name h) then Some x else K k) = Some y"
  show "\<exists>g. (H(x := Some h)) y = Some g \<and> irc_key (ch_name g) = irc_key k"
  proof (cases "irc_key k = irc_key (ch_name h)")
    case False
    with y inv have "\<exists>g. H y = Some g \<and> irc_key (ch_name g) = irc_key k" by (simp add: chan_inv_def)
    with assms(3) show ?thesis by auto
  qed (use y in auto)
next
  fix y g assume g: "(H(x := Some h)) y = Some g"
  show "(if irc_key (ch_name g) = irc_key (ch_name h) then Some x else K (ch_name g)) = Some y"
  proof (cases "y = x")
    case False
    with g inv have "K (ch_name g) = Some y" by (simp add: chan_inv_def)
    with assms(4) resp [of "ch_name g" "ch_name h"] show ?thesis by auto
  qed (use g in auto)
qed

lemma chan_inv_delete:
  assumes inv: "chan_inv H K" and resp: "\<And>k m. irc_key k = irc_key m \<Longrightarrow> K k = K m"
    and "H x = Some h" "K n = Some x"
  shows "chan_inv (H(x := None)) (\<lambda>k. if irc_key k = irc_key n then None else K k)"
  unfolding chan_inv_def
proof (intro conjI allI impI)
  show "(H(x := None)) 0 = None" using inv by (simp add: chan_inv_def)
next
  have key: "irc_key (ch_name h) = irc_key n" using inv assms(3,4) by (fastforce simp: chan_inv_def)
  fix k y assume "(if irc_key k = irc_key n then None else K k) = Some y"
  then have y: "K k = Some y" "irc_key k \<noteq> irc_key n" by (auto split: if_splits)
  with inv have "\<exists>g. H y = Some g \<and> irc_key (ch_name g) = irc_key k" by (simp add: chan_inv_def)
  with y(2) key assms(3) show "\<exists>g. (H(x := None)) y = Some g \<and> irc_key (ch_name g) = irc_key k" by auto
next
  fix y g assume g: "(H(x := None)) y = Some g"
  then have "K (ch_name g) = Some y" "y \<noteq> x"
    using inv by (auto simp: chan_inv_def split: if_splits)
  with assms(4) resp [of "ch_name g" n]
  show "(if irc_key (ch_name g) = irc_key n then None else K (ch_name g)) = Some y" by auto
qed

lemma getOrCreateChannel_new:
  assumes "core_inv s" "getChannel s n = None" "isValidChannelName n"
  obtains x s1 where "getOrCreateChannel n s = (x, s1)" "deref_channel s x = None"
    "deref_channel s1 = (deref_channel s)(x := Some (new_Channel n))"
    "deref_client s1 = deref_client s" "getClientByFd s1 = getClientByFd s"
    "getClientByNick s1 = getClientByNick s"
    "getChannel s1 = (\<lambda>k. if irc_key k = irc_key n then Some x else getChannel s k)"
    "ss_password s1 = ss_password s" "core_inv s1"
proof -
  define x where "x = new_addr (placement s) (used_addrs s)"
  define s0 where "s0 = store_channel x (new_Channel n) s"
  define s1 where "s1 = s0\<lparr>ss_channels := omap_insert IrcStringCompare n x (ss_channels s0)\<rparr>"
  note parts = core_invD [OF assms(1)]
  have run: "getOrCreateChannel n s = (x, s1)"
    using assms(2) by (simp add: getOrCreateChannel_def Let_def x_def s0_def s1_def)
  have fresh: "deref_channel s x = None" by (simp add: x_def)
  have wf0: "heap_wf s0" using parts(1) by (simp add: s0_def)
  have wf: "heap_wf s1" unfolding s1_def using wf0 by (rule heap_wf_ops(9))
  have views: "deref_channel s1 = (deref_channel s)(x := Some (new_Channel n))"
    "deref_client s1 = deref_client s" "getClientByFd s1 = getClientByFd s"
    "getClientByNick s1 = getClientByNick s" "ss_password s1 = ss_password s"
    using parts(1) by (simp_all add: s1_def) (simp_all add: s0_def)
  have names: "getChannel s1 = (\<lambda>k. if irc_key k = irc_key n then Some x else getChannel s k)"
    using wf0 assms(2) by (auto simp: s1_def) (auto simp: s0_def)
  have "chan_inv (deref_channel s1) (getChannel s1)"
    using chan_inv_new [OF parts(4) lookup_equivalent(2) fresh, of "new_Channel n"] assms(2)
      new_addr_fresh(2) [of "placement s" "used_addrs s", folded x_def]
    by (simp add: views names)
  then have core: "core_inv s1"
    using parts wf assms(3) fresh
    by (auto simp: core_inv_def views intro!: member_inv_new_channel rules_inv_upd)
  show thesis by (rule that [OF run fresh views(1-4) names views(5) core])
qed

lemma core_inv_delete_channel:
  assumes "core_inv s" "getChannel s n = Some x" "deref_channel s x = Some h" "channel_isEmpty h"
  defines "s' \<equiv> (delete_channel x s)\<lparr>ss_channels := omap_erase IrcStringCompare n (ss_channels (delete_channel x s))\<rparr>"
  shows "core_inv s'"
proof -
  note parts = core_invD [OF assms(1)]
  have wf: "heap_wf (delete_channel x s)" using parts(1) by simp
  have views: "deref_channel s' = (deref_channel s)(x := None)" "deref_client s' = deref_client s"
    "getClientByFd s' = getClientByFd s" "getClientByNick s' = getClientByNick s"
    "getChannel s' = (\<lambda>k. if irc_key k = irc_key n then None else getChannel s k)" "heap_wf s'"
    using parts(1) wf by (simp_all add: s'_def cong: if_cong)
  have "chan_inv (deref_channel s') (getChannel s')"
    unfolding views by (rule chan_inv_delete [OF parts(4) lookup_equivalent(2) assms(3,2)])
  then show ?thesis
    using parts views assms(3,4)
    by (auto simp: core_inv_def intro!: member_inv_delete_channel rules_inv_upd)
qed

text \<open>A channel whose last member left is deleted; otherwise nothing happens.\<close>

lemma removeChannelIfEmpty_succeeds:
  assumes "core_inv s" "getChannel s n = Some x" "deref_channel s x = Some h"
    and others: "nonempty_inv ((deref_channel s)(x := None))"
  shows "succeeds (removeChannelIfEmpty n s) (\<lambda>s'. state_inv s'
    \<and> deref_client s' = deref_client s
    \<and> deref_channel s' = (if channel_isEmpty h then (deref_channel s)(x := None) else deref_channel s)
    \<and> getClientByFd s' = getClientByFd s \<and> getClientByNick s' = getClientByNick s
    \<and> getChannel s' = (if channel_isEmpty h then (\<lambda>k. if irc_key k = irc_key n then None else getChannel s k)
        else getChannel s)
    \<and> ss_password s' = ss_password s)"
proof (cases "channel_isEmpty h")
  case True
  have wf: "heap_wf s" using assms(1) by simp
  from True core_inv_delete_channel [OF assms(1-3)] assms(2,3) others wf show ?thesis
    by (simp add: removeChannelIfEmpty_def getChannel_def [symmetric] Let_def state_inv_def cong: if_cong)
next
  case False
  then have "nonempty_inv (deref_channel s)"
    using others assms(3) unfolding nonempty_inv_def by (metis fun_upd_apply option.inject)
  with False assms show ?thesis
    by (simp add: removeChannelIfEmpty_def getChannel_def [symmetric] state_inv_def)
qed

section \<open>Joining\<close>

text \<open>The channel a client is in after joining it: a member without privileges, except that the
  first member of a channel is its operator.\<close>

definition channel_after_join :: "addr \<Rightarrow> channel \<Rightarrow> channel" where
  "channel_after_join a h =
     (if hasMember h a then h
      else if channel_isEmpty h then setOperator a True (unsafe_addMember a h)
      else unsafe_addMember a h)"

definition client_after_join :: "addr \<Rightarrow> client \<Rightarrow> client" where
  "client_after_join x c = (if x \<in> set (cl_channels c) then c else unsafe_joinChannel x c)"

lemma channel_after_join_facts [simp]:
  "channel_wf h \<Longrightarrow> channel_wf (channel_after_join a h)"
  "ch_name (channel_after_join a h) = ch_name h"
  "ch_modes (channel_after_join a h) = ch_modes h"
  "ch_topic (channel_after_join a h) = ch_topic h"
  "channel_wf h \<Longrightarrow> hasMember (channel_after_join a h) b \<longleftrightarrow> b = a \<or> hasMember h b"
  "channel_wf h \<Longrightarrow> isOperator (channel_after_join a h) b \<longleftrightarrow>
     isOperator h b \<or> (b = a \<and> channel_isEmpty h)"
  "channel_wf h \<Longrightarrow> \<not> hasMember h a \<Longrightarrow>
     isInvited (channel_after_join a h) b \<longleftrightarrow> b \<noteq> a \<and> isInvited h b"
  by (auto simp: channel_after_join_def channel_isEmpty_iff dest: isOperator_hasMember)

lemma join_existing:
  assumes "core_inv s" "deref_client s a = Some c" "cl_registered c"
    and "getOrCreateChannel n s0 = (x, s)" "deref_channel s x = Some h"
    and others: "nonempty_inv ((deref_channel s)(x := None))"
  shows "succeeds (addClientToChannel (Some a) n s0) (\<lambda>(r, s'). state_inv s' \<and> r = Some x
    \<and> deref_client s' = (deref_client s)(a := Some (client_after_join x c))
    \<and> deref_channel s' = (deref_channel s)(x := Some (channel_after_join a h))
    \<and> getClientByFd s' = getClientByFd s \<and> getClientByNick s' = getClientByNick s
    \<and> getChannel s' = getChannel s \<and> ss_password s' = ss_password s)"
proof (cases "hasMember h a")
  case True
  then have "x \<in> set (cl_channels c)"
    using live_member [OF assms(1,5) True] assms(2) by auto
  moreover have "nonempty_inv (deref_channel s)"
    using others True assms(1,5) live_channel_wf [OF assms(1,5)]
    unfolding nonempty_inv_def by (metis channel_isEmpty_iff fun_upd_apply option.inject)
  ultimately show ?thesis
    using True assms
    by (simp add: addClientToChannel_def client_after_join_def channel_after_join_def state_inv_def
        fun_upd_idem)
next
  case False
  then have new: "x \<notin> set (cl_channels c)"
    using joined_channel [OF assms(1,2), of x] assms(5) by auto
  define s3 where "s3 = store_client a (unsafe_joinChannel x c) (store_channel x (unsafe_addMember a h) s)"
  have core: "core_inv s3" unfolding s3_def by (rule core_inv_join [OF assms(1,2,5,3)])
  have wf: "heap_wf s" "channel_wf h" using assms by auto
  have h': "deref_channel s3 x = Some (unsafe_addMember a h)" using wf by (simp add: s3_def)
  have ne: "nonempty_inv (deref_channel s3)"
    using others wf by (auto simp: s3_def intro!: nonempty_inv_upd)
  have inv3: "state_inv s3" using core ne by (simp add: state_inv_def)
  have inv4: "state_inv (store_channel x (setOperator a True (unsafe_addMember a h)) s3)"
    using wf member_invD(2,3) [OF core_invD(5) [OF assms(1)] assms(5)]
    by (intro state_inv_store_channel [OF inv3 h']) (auto simp: s3_def)
  show ?thesis
    using False new assms wf inv3 inv4 h'
    by (auto simp: addClientToChannel_def update_channel_succeeds update_client_succeeds
        s3_def [symmetric] memberCount_addMember memberCount_0_iff client_after_join_def
        channel_after_join_def) (auto simp: s3_def)
qed

lemma addClientToChannel_old:
  assumes "state_inv s" "deref_client s a = Some c" "cl_registered c"
    and "getChannel s n = Some x" "deref_channel s x = Some h"
  shows "succeeds (addClientToChannel (Some a) n s) (\<lambda>(r, s'). state_inv s' \<and> r = Some x
    \<and> deref_client s' = (deref_client s)(a := Some (client_after_join x c))
    \<and> deref_channel s' = (deref_channel s)(x := Some (channel_after_join a h))
    \<and> getClientByFd s' = getClientByFd s \<and> getClientByNick s' = getClientByNick s
    \<and> getChannel s' = getChannel s \<and> ss_password s' = ss_password s)"
  using assms
  by (intro join_existing) (auto simp: getOrCreateChannel_def intro: nonempty_inv_upd)

lemma addClientToChannel_new:
  assumes "state_inv s" "deref_client s a = Some c" "cl_registered c"
    and "getChannel s n = None" "isValidChannelName n"
  shows "succeeds (addClientToChannel (Some a) n s) (\<lambda>(r, s'). state_inv s' \<and>
    (\<exists>x. r = Some x \<and> deref_channel s x = None
    \<and> deref_client s' = (deref_client s)(a := Some (unsafe_joinChannel x c))
    \<and> deref_channel s' = (deref_channel s)(x := Some (channel_after_join a (new_Channel n)))
    \<and> getClientByFd s' = getClientByFd s \<and> getClientByNick s' = getClientByNick s
    \<and> getChannel s' = (\<lambda>k. if irc_key k = irc_key n then Some x else getChannel s k)
    \<and> ss_password s' = ss_password s))"
proof -
  from assms(1) have core: "core_inv s" by blast
  from core assms(4,5) obtain x s1 where x: "getOrCreateChannel n s = (x, s1)"
    "deref_channel s x = None" "deref_channel s1 = (deref_channel s)(x := Some (new_Channel n))"
    "deref_client s1 = deref_client s" "getClientByFd s1 = getClientByFd s"
    "getClientByNick s1 = getClientByNick s"
    "getChannel s1 = (\<lambda>k. if irc_key k = irc_key n then Some x else getChannel s k)"
    "ss_password s1 = ss_password s" "core_inv s1"
    by (rule getOrCreateChannel_new)
  have "nonempty_inv ((deref_channel s1)(x := None))"
    using state_invD(2) [OF assms(1)] by (simp add: x nonempty_inv_upd)
  moreover have "x \<notin> set (cl_channels c)"
    using joined_channel [OF core assms(2), of x] x(2) by auto
  ultimately show ?thesis
    using join_existing [OF x(9) _ assms(3) x(1), of a "new_Channel n"] assms(2) x
    by (auto simp: client_after_join_def elim!: succeeds_mono)
qed

section \<open>Leaving\<close>

lemma leave_step:
  assumes "state_inv s" "deref_client s a = Some c" "deref_channel s x = Some h"
    and name: "irc_key (ch_name h) = irc_key n"
  defines "s2 \<equiv> store_client a (unsafe_leaveChannel x c) (store_channel x (unsafe_removeClientState a h) s)"
    and "h' \<equiv> unsafe_removeClientState a h"
  shows "succeeds (removeChannelIfEmpty n s2) (\<lambda>s'. state_inv s'
    \<and> deref_client s' = (deref_client s)(a := Some (unsafe_leaveChannel x c))
    \<and> deref_channel s' = (deref_channel s)(x := (if channel_isEmpty h' then None else Some h'))
    \<and> getClientByFd s' = getClientByFd s \<and> getClientByNick s' = getClientByNick s
    \<and> getChannel s' = (if channel_isEmpty h' then (\<lambda>k. if irc_key k = irc_key n then None else getChannel s k)
        else getChannel s)
    \<and> ss_password s' = ss_password s)"
proof -
  from assms(1) have core: "core_inv s" and ne: "nonempty_inv (deref_channel s)" by blast+
  have wf: "heap_wf s" using core by simp
  have core2: "core_inv s2" unfolding s2_def by (rule core_inv_leave [OF core assms(2,3)])
  have x: "getChannel s2 n = Some x"
    using name_of_live [OF core assms(3)] lookup_equivalent(2) [OF name, of s] by (simp add: s2_def)
  have h': "deref_channel s2 x = Some h'" using wf by (simp add: s2_def h'_def)
  have others: "nonempty_inv ((deref_channel s2)(x := None))"
    using ne wf by (simp add: s2_def nonempty_inv_upd)
  show ?thesis
    using removeChannelIfEmpty_succeeds [OF core2 x h' others] wf
    by (auto simp: s2_def h'_def elim!: succeeds_mono)
qed

lemma removeClientFromChannel_succeeds:
  assumes "state_inv s" "deref_client s a = Some c" "getChannel s n = Some x"
    and "deref_channel s x = Some h" "hasMember h a"
  defines "h' \<equiv> unsafe_removeClientState a h"
  shows "succeeds (removeClientFromChannel (Some a) n s) (\<lambda>s'. state_inv s'
    \<and> deref_client s' = (deref_client s)(a := Some (unsafe_leaveChannel x c))
    \<and> deref_channel s' = (deref_channel s)(x := (if channel_isEmpty h' then None else Some h'))
    \<and> getClientByFd s' = getClientByFd s \<and> getClientByNick s' = getClientByNick s
    \<and> getChannel s' = (if channel_isEmpty h' then (\<lambda>k. if irc_key k = irc_key n then None else getChannel s k)
        else getChannel s)
    \<and> ss_password s' = ss_password s)"
proof -
  have name: "irc_key (ch_name h) = irc_key n"
    using live_by_name [of s n x] assms by auto
  have wf: "heap_wf s" using assms(1) by simp
  have run: "removeClientFromChannel (Some a) n s = removeChannelIfEmpty n
      (store_client a (unsafe_leaveChannel x c) (store_channel x (unsafe_removeClientState a h) s))"
    using assms wf by (simp add: removeClientFromChannel_def update_channel_succeeds update_client_succeeds)
  show ?thesis unfolding run h'_def by (rule leave_step [OF assms(1,2,4) name])
qed

section \<open>Invitations\<close>

lemma inviteClientToChannel_succeeds:
  assumes "state_inv s" "deref_client s a = Some c" "deref_channel s x = Some h" "\<not> hasMember h a"
  shows "succeeds (inviteClientToChannel (Some a) (Some x) s) (\<lambda>s'. state_inv s'
    \<and> deref_client s' = deref_client s
    \<and> deref_channel s' = (deref_channel s)(x := Some (addInvite a h))
    \<and> getClientByFd s' = getClientByFd s \<and> getClientByNick s' = getClientByNick s
    \<and> getChannel s' = getChannel s \<and> ss_password s' = ss_password s)"
proof -
  from assms(1) have core: "core_inv s" by blast
  have "state_inv (store_channel x (addInvite a h) s)"
    using assms core member_invD(2,3) [OF core_invD(5) [OF core] assms(3)]
    by (intro state_inv_store_channel [OF assms(1,3)]) auto
  with assms core show ?thesis
    by (simp add: inviteClientToChannel_def update_channel_succeeds)
qed

lemma removeInvite_idem [simp]: "channel_wf h \<Longrightarrow> removeInvite a (removeInvite a h) = removeInvite a h"
  by (simp add: removeInvite_def channel_wf_def remove1_idem)

lemma removeInvite_step:
  assumes "state_inv s" "deref_channel s x = Some h"
  shows "state_inv (store_channel x (removeInvite a h) s)"
proof -
  from assms(1) have core: "core_inv s" by blast
  show ?thesis
    using assms core member_invD(2,3) [OF core_invD(5) [OF core] assms(2)]
    by (intro state_inv_store_channel [OF assms]) auto
qed

lemma removeInvites_loop_succeeds:
  assumes "state_inv s" "\<And>x. x \<in> set xs \<Longrightarrow> deref_channel s x \<noteq> None"
  shows "succeeds (removeInvites_loop a xs s) (\<lambda>s'. state_inv s'
    \<and> deref_client s' = deref_client s
    \<and> deref_channel s' = (\<lambda>x. if x \<in> set xs then map_option (removeInvite a) (deref_channel s x)
        else deref_channel s x)
    \<and> getClientByFd s' = getClientByFd s \<and> getClientByNick s' = getClientByNick s
    \<and> getChannel s' = getChannel s \<and> ss_password s' = ss_password s)"
  using assms
proof (induction xs arbitrary: s)
  case (Cons x xs)
  then obtain h where h: "deref_channel s x = Some h" by fastforce
  define s1 where "s1 = store_channel x (removeInvite a h) s"
  have wf: "heap_wf s" using Cons.prems(1) by simp
  have inv: "state_inv s1" unfolding s1_def by (rule removeInvite_step [OF Cons.prems(1) h])
  have run: "removeInvites_loop a (x # xs) s = removeInvites_loop a xs s1"
    by (simp add: update_channel_succeeds [OF h] s1_def)
  have "\<And>y. y \<in> set xs \<Longrightarrow> deref_channel s1 y \<noteq> None" using Cons.prems(2) wf by (auto simp: s1_def)
  moreover have "channel_wf h" using h Cons.prems(1) by auto
  ultimately show ?case
    unfolding run using wf h Cons.IH [OF inv] by (auto simp: s1_def fun_eq_iff elim!: succeeds_mono)
qed simp


lemma listed_channels:
  assumes "core_inv s"
  shows "x \<in> set (map snd (ss_channels s)) \<longleftrightarrow> deref_channel s x \<noteq> None"
proof
  assume "x \<in> set (map snd (ss_channels s))"
  then obtain n where "(n, x) \<in> set (ss_channels s)" by auto
  then have "getChannel s n = Some x"
    using assms by (auto simp: getChannel_def intro!: irc.find_unique)
  with live_by_name [OF assms] show "deref_channel s x \<noteq> None" by fastforce
next
  assume "deref_channel s x \<noteq> None"
  then obtain h where "deref_channel s x = Some h" by blast
  from name_of_live [OF assms this] obtain k where "(k, x) \<in> set (ss_channels s)"
    unfolding getChannel_def using omap_find_in_set by fastforce
  then show "x \<in> set (map snd (ss_channels s))" by force
qed

lemma removeClientFromAllInvites_succeeds:
  assumes "state_inv s"
  shows "succeeds (removeClientFromAllInvites (Some a) s) (\<lambda>s'. state_inv s'
    \<and> deref_client s' = deref_client s
    \<and> deref_channel s' = (\<lambda>x. map_option (removeInvite a) (deref_channel s x))
    \<and> getClientByFd s' = getClientByFd s \<and> getClientByNick s' = getClientByNick s
    \<and> getChannel s' = getChannel s \<and> ss_password s' = ss_password s)"
proof -
  from assms have core: "core_inv s" by blast
  have all: "x \<in> set (map snd (ss_channels s)) \<longleftrightarrow> deref_channel s x \<noteq> None" for x
    by (rule listed_channels [OF core])
  have same: "(if deref_channel s x \<noteq> None then map_option (removeInvite a) (deref_channel s x)
      else deref_channel s x) = map_option (removeInvite a) (deref_channel s x)" for x
    by (cases "deref_channel s x") auto
  show ?thesis
    using removeInvites_loop_succeeds [OF assms, of "map snd (ss_channels s)" a]
    unfolding removeClientFromAllInvites_def option.case all same by simp
qed

section \<open>The end of a connection\<close>

definition channel_after_leave :: "addr \<Rightarrow> channel \<Rightarrow> channel option" where
  "channel_after_leave a h =
     (let h' = unsafe_removeClientState a h in if channel_isEmpty h' then None else Some h')"

lemma leave_loop_succeeds:
  assumes "state_inv s" "deref_client s a = Some c" "distinct xs" "set xs \<subseteq> set (cl_channels c)"
  shows "succeeds (leave_loop a xs s) (\<lambda>s'. state_inv s'
    \<and> deref_client s' = (deref_client s)(a := Some (fold unsafe_leaveChannel xs c))
    \<and> (\<forall>x. deref_channel s' x = (if x \<in> set xs
         then Option.bind (deref_channel s x) (channel_after_leave a) else deref_channel s x))
    \<and> getClientByFd s' = getClientByFd s \<and> getClientByNick s' = getClientByNick s
    \<and> ss_password s' = ss_password s)"
  using assms
proof (induction xs arbitrary: s c)
  case Nil
  then show ?case by (simp add: fun_upd_idem)
next
  case (Cons x xs)
  have wf: "heap_wf s" using Cons.prems(1) by simp
  from Cons.prems(1) have core: "core_inv s" by blast
  from Cons.prems(4) joined_channel [OF core Cons.prems(2), of x] obtain h
    where h: "deref_channel s x = Some h" "hasMember h a" by auto
  define s2 where "s2 = store_client a (unsafe_leaveChannel x c) (store_channel x (unsafe_removeClientState a h) s)"
  have run: "leave_loop a (x # xs) s = removeChannelIfEmpty (ch_name h) s2 \<bind> leave_loop a xs"
    using wf h Cons.prems(2) by (simp add: update_channel_succeeds update_client_succeeds s2_def)
  have sub: "set xs \<subseteq> set (cl_channels (unsafe_leaveChannel x c))"
    using Cons.prems(3,4) member_invD(4) [OF core_invD(5) [OF core] Cons.prems(2)]
    by (auto simp: unsafe_leaveChannel_def)
  have "succeeds (removeChannelIfEmpty (ch_name h) s2) (\<lambda>s'. state_inv s'
    \<and> deref_client s' = (deref_client s)(a := Some (unsafe_leaveChannel x c))
    \<and> deref_channel s' = (deref_channel s)(x := channel_after_leave a h)
    \<and> getClientByFd s' = getClientByFd s \<and> getClientByNick s' = getClientByNick s
    \<and> ss_password s' = ss_password s)"
    using leave_step [OF Cons.prems(1,2) h(1) refl]
    unfolding s2_def channel_after_leave_def Let_def by (rule succeeds_mono) blast
  then obtain s3 where s3: "removeChannelIfEmpty (ch_name h) s2 = Some s3" "state_inv s3"
    "deref_client s3 = (deref_client s)(a := Some (unsafe_leaveChannel x c))"
    "deref_channel s3 = (deref_channel s)(x := channel_after_leave a h)"
    "getClientByFd s3 = getClientByFd s" "getClientByNick s3 = getClientByNick s"
    "ss_password s3 = ss_password s"
    unfolding succeeds_iff by blast
  show ?case
    unfolding run s3(1) bind.simps
    using Cons.IH [OF s3(2) _ _ sub] Cons.prems(3) h(1)
    by (auto simp: s3(3-) elim!: succeeds_mono)
qed

lemma fold_remove1_self: "fold remove1 xs xs = []"
  by (induction xs) auto

lemma leave_all: "fold unsafe_leaveChannel xs c = c\<lparr>cl_channels := fold remove1 xs (cl_channels c)\<rparr>"
  by (induction xs arbitrary: c) (auto simp: unsafe_leaveChannel_def)

lemma nick_inv_delete:
  assumes inv: "nick_inv C N" and resp: "\<And>k m. irc_key k = irc_key m \<Longrightarrow> N k = N m"
    and c: "C a = Some c"
  shows "nick_inv (C(a := None)) (\<lambda>k. if irc_key k = irc_key (cl_nickname c) then None else N k)"
  unfolding nick_inv_def
proof (intro conjI allI impI)
  fix n b assume "(if irc_key n = irc_key (cl_nickname c) then None else N n) = Some b"
  then have n: "N n = Some b" "irc_key n \<noteq> irc_key (cl_nickname c)" by (auto split: if_splits)
  with inv have "\<exists>d. C b = Some d \<and> cl_nickname d \<noteq> [] \<and> irc_key (cl_nickname d) = irc_key n"
    by (simp add: nick_inv_def)
  with n(2) c show "\<exists>d. (C(a := None)) b = Some d \<and> cl_nickname d \<noteq> [] \<and> irc_key (cl_nickname d) = irc_key n"
    by auto
next
  fix b d assume d: "(C(a := None)) b = Some d" "cl_nickname d \<noteq> []"
  then have b: "C b = Some d" "b \<noteq> a" "N (cl_nickname d) = Some b"
    using inv by (auto simp: nick_inv_def split: if_splits)
  have "irc_key (cl_nickname d) \<noteq> irc_key (cl_nickname c)"
  proof
    assume same: "irc_key (cl_nickname d) = irc_key (cl_nickname c)"
    from d(2) same have "cl_nickname c \<noteq> []" by auto
    with inv c have "N (cl_nickname c) = Some a" by (simp add: nick_inv_def)
    with b resp [OF same] show False by simp
  qed
  with b show "(if irc_key (cl_nickname d) = irc_key (cl_nickname c) then None else N (cl_nickname d)) = Some b"
    by simp
qed

lemma registry_removeClient_succeeds:
  assumes "state_inv s" "getClientByFd s fd = Some a" "deref_client s a = Some c"
    and "cl_channels c = []" "\<And>x h. deref_channel s x = Some h \<Longrightarrow> \<not> isInvited h a"
  shows "succeeds (registry_removeClient fd s) (\<lambda>s'. state_inv s'
    \<and> deref_client s' = (deref_client s)(a := None)
    \<and> deref_channel s' = deref_channel s
    \<and> getClientByFd s' = (getClientByFd s)(fd := None)
    \<and> getClientByNick s' = (\<lambda>k. if irc_key k = irc_key (cl_nickname c) then None else getClientByNick s k)
    \<and> getChannel s' = getChannel s \<and> ss_password s' = ss_password s)"
proof -
  from assms(1) have core: "core_inv s" by blast
  note parts = core_invD [OF core]
  define s1 where "s1 = s\<lparr>nicknameToClient := omap_erase IrcStringCompare (cl_nickname c) (nicknameToClient s)\<rparr>"
  define s2 where "s2 = s1\<lparr>fdToClient := omap_erase (<) fd (fdToClient s1)\<rparr>"
  define s3 where "s3 = delete_client a s2"
  have wf1: "heap_wf s1" unfolding s1_def using parts(1) by simp
  have wf2: "heap_wf s2" unfolding s2_def using wf1 by (rule heap_wf_ops(6))
  have wf: "heap_wf s1" "heap_wf s2" "heap_wf s3" using wf1 wf2 by (simp_all add: s3_def)
  have run: "registry_removeClient fd s = Some s3"
    using assms(2,3) by (simp add: registry_removeClient_def s1_def s2_def s3_def)
  have fd: "fd = cl_fd c" using live_by_fd [OF core assms(2)] assms(3) by auto
  have views: "deref_client s3 = (deref_client s)(a := None)" "deref_channel s3 = deref_channel s"
    "getClientByFd s3 = (getClientByFd s)(fd := None)"
    "getClientByNick s3 = (\<lambda>k. if irc_key k = irc_key (cl_nickname c) then None else getClientByNick s k)"
    "getChannel s3 = getChannel s" "ss_password s3 = ss_password s"
    using wf parts(1) by (simp_all add: s3_def) (simp_all add: s2_def, simp_all add: s1_def)
  have "core_inv s3"
    unfolding core_inv_def views
    using wf(3) parts fd_inv_delete [OF parts(2) assms(3)] rules_inv_upd(3) [OF parts(6)]
      nick_inv_delete [OF parts(3) lookup_equivalent(1) assms(3)]
      member_inv_delete_client [OF parts(5) assms(3,4,5)]
    by (simp add: fd)
  then have "state_inv s3" using assms(1) by (auto simp: state_inv_def views)
  with views show ?thesis by (simp add: run)
qed


text \<open>A disconnected client is gone: from both tables, from every channel it was in (channels it
  leaves empty are deleted) and from every invitation list; nothing else changes.\<close>

lemma removeClient_succeeds:
  assumes "state_inv s" "getClientByFd s fd = Some a" "deref_client s a = Some c"
  shows "succeeds (removeClient fd s) (\<lambda>s'. state_inv s'
    \<and> deref_client s' = (deref_client s)(a := None)
    \<and> (\<forall>x. deref_channel s' x = (if x \<in> set (cl_channels c)
         then map_option (removeInvite a) (Option.bind (deref_channel s x) (channel_after_leave a))
         else map_option (removeInvite a) (deref_channel s x)))
    \<and> getClientByFd s' = (getClientByFd s)(fd := None)
    \<and> getClientByNick s' = (\<lambda>k. if irc_key k = irc_key (cl_nickname c) then None else getClientByNick s k)
    \<and> ss_password s' = ss_password s)"
proof -
  from assms(1) have core: "core_inv s" by blast
  have "distinct (cl_channels c)" using member_invD(4) [OF core_invD(5) [OF core] assms(3)] .
  with leave_loop_succeeds [OF assms(1,3), of "cl_channels c"]
  obtain s1 where s1: "leave_loop a (cl_channels c) s = Some s1" "state_inv s1"
    "deref_client s1 = (deref_client s)(a := Some (c\<lparr>cl_channels := []\<rparr>))"
    "\<And>x. deref_channel s1 x = (if x \<in> set (cl_channels c)
         then Option.bind (deref_channel s x) (channel_after_leave a) else deref_channel s x)"
    "getClientByFd s1 = getClientByFd s" "getClientByNick s1 = getClientByNick s"
    "ss_password s1 = ss_password s"
    unfolding succeeds_iff leave_all fold_remove1_self by blast
  from removeClientFromAllInvites_succeeds [OF s1(2), of a]
  obtain s2 where s2: "removeClientFromAllInvites (Some a) s1 = Some s2" "state_inv s2"
    "deref_client s2 = deref_client s1"
    "deref_channel s2 = (\<lambda>x. map_option (removeInvite a) (deref_channel s1 x))"
    "getClientByFd s2 = getClientByFd s1" "getClientByNick s2 = getClientByNick s1"
    "ss_password s2 = ss_password s1"
    unfolding succeeds_iff by blast
  have run: "removeClient fd s = registry_removeClient fd s2"
    by (simp add: removeClient_def assms(2,3) getChannels_def s1(1) s2(1))
  have no_invite: "\<not> isInvited g a" if "deref_channel s2 x = Some g" for x g
    using that live_channel_wf [OF state_invD(1) [OF s1(2)], of x] by (auto simp: s2(4))
  have "succeeds (registry_removeClient fd s2) (\<lambda>s'. state_inv s'
    \<and> deref_client s' = (deref_client s2)(a := None) \<and> deref_channel s' = deref_channel s2
    \<and> getClientByFd s' = (getClientByFd s2)(fd := None)
    \<and> getClientByNick s' = (\<lambda>k. if irc_key k = irc_key (cl_nickname c) then None else getClientByNick s2 k)
    \<and> getChannel s' = getChannel s2 \<and> ss_password s' = ss_password s2)"
    using registry_removeClient_succeeds [OF s2(2), of fd a "c\<lparr>cl_channels := []\<rparr>"] no_invite assms(2)
    by (simp add: s2(3,5) s1(3,5))
  then show ?thesis
    unfolding run by (rule succeeds_mono) (simp add: s2(3-) s1(3-) cong: if_cong)
qed

end
