(* ===== verification/IrcMessage.thy ===== *)
theory IrcMessage
  imports Prelude
begin

text \<open>
  \<open>Message\<close> and \<open>Parser\<close> (\<open>src/src/b/Message.cpp\<close>, \<open>src/src/b/Parser.cpp\<close>): one line of
  protocol text becomes a prefix, a command and its parameters.

  The parser walks over the line with a position, as the source does; \<open>parse_spec\<close> describes the
  same grammar on the remaining characters, and the two agree. From the specification follow the
  shape of every parsed parameter list and the round trip with the printed form of a message.
\<close>

section \<open>Message\<close>

record message =
  msg_prefix :: string
  msg_command :: string
  msg_params :: "string list"

definition empty_Message :: message where
  "empty_Message = \<lparr>msg_prefix = [], msg_command = [], msg_params = []\<rparr>"

definition new_Message :: "string \<Rightarrow> string \<Rightarrow> string list \<Rightarrow> message" where
  "new_Message prefix command params =
     \<lparr>msg_prefix = prefix, msg_command = command, msg_params = params\<rparr>"

definition getParamCount :: "message \<Rightarrow> nat" where
  "getParamCount m = length (msg_params m)"

definition getSingleParam :: "message \<Rightarrow> nat \<Rightarrow> string" where
  "getSingleParam m index = (if length (msg_params m) \<le> index then [] else msg_params m ! index)"

definition hasParam :: "message \<Rightarrow> nat \<Rightarrow> bool" where
  "hasParam m index \<longleftrightarrow> index < length (msg_params m)"

lemmas message_defs = getParamCount_def getSingleParam_def hasParam_def

section \<open>Parser\<close>

definition removeIrcLineTerminator :: "string \<Rightarrow> string" where
  "removeIrcLineTerminator line =
     (if 2 \<le> length line \<and> line ! (length line - 2) = CR \<and> line ! (length line - 1) = LF
      then take (length line - 2) line else line)"

definition toupper_char :: "char \<Rightarrow> char" where
  "toupper_char c =
     (if 97 \<le> uchar c \<and> uchar c \<le> 122 then char_of_int (uchar c - 32) else c)"

definition upperCommand :: "string \<Rightarrow> string" where
  "upperCommand command = map toupper_char command"

definition isMessageSeparator :: "char \<Rightarrow> bool" where
  "isMessageSeparator c \<longleftrightarrow> c = CHR '' ''"

function (sequential) skipSeparators :: "string \<Rightarrow> nat \<Rightarrow> nat" where
  "skipSeparators input pos =
     (if pos < length input \<and> isMessageSeparator (input ! pos)
      then skipSeparators input (pos + 1) else pos)"
  by pat_completeness auto
termination by (relation "measure (\<lambda>(input, pos). length input - pos)") auto

text \<open>The loop of \<open>readPrefix\<close> and \<open>readToken\<close> that looks for the end of a word.\<close>

function (sequential) tokenEnd :: "string \<Rightarrow> nat \<Rightarrow> nat" where
  "tokenEnd input pos =
     (if pos < length input \<and> \<not> isMessageSeparator (input ! pos)
      then tokenEnd input (pos + 1) else pos)"
  by pat_completeness auto
termination by (relation "measure (\<lambda>(input, pos). length input - pos)") auto

declare skipSeparators.simps [simp del] tokenEnd.simps [simp del]

text \<open>\<open>substr(start, n)\<close> for a start inside the string.\<close>

definition substr :: "nat \<Rightarrow> nat \<Rightarrow> string \<Rightarrow> string" where
  "substr start n input = take n (drop start input)"

text \<open>\<open>None\<close> is the return value \<open>false\<close>; otherwise the new values of \<open>pos\<close> and \<open>prefix\<close>.\<close>

definition readPrefix :: "string \<Rightarrow> nat \<Rightarrow> string \<Rightarrow> (nat \<times> string) option" where
  "readPrefix input pos0 prefix =
     (let pos = skipSeparators input pos0 in
      if length input \<le> pos \<or> input ! pos \<noteq> CHR '':'' then Some (pos, prefix)
      else
        let prefixStart = pos + 1; prefixEnd = tokenEnd input prefixStart in
        if prefixEnd = length input then None
        else Some (skipSeparators input prefixEnd, substr prefixStart (prefixEnd - prefixStart) input))"

definition readToken :: "string \<Rightarrow> nat \<Rightarrow> string \<times> nat" where
  "readToken input pos =
     (let e = tokenEnd input pos in (substr pos (e - pos) input, e))"

lemma skipSeparators_ge: "pos \<le> skipSeparators input pos"
proof (induction input pos rule: skipSeparators.induct)
  case (1 input pos)
  then show ?case by (subst skipSeparators.simps) auto
qed

lemma tokenEnd_ge: "pos \<le> tokenEnd input pos"
proof (induction input pos rule: tokenEnd.induct)
  case (1 input pos)
  then show ?case by (subst tokenEnd.simps) auto
qed

lemma skipSeparators_stops:
  "skipSeparators input pos < length input \<Longrightarrow> \<not> isMessageSeparator (input ! skipSeparators input pos)"
proof (induction input pos rule: skipSeparators.induct)
  case (1 input pos)
  then show ?case
    by (cases "pos < length input \<and> isMessageSeparator (input ! pos)")
      (auto simp: skipSeparators.simps [of input pos])
qed

lemma tokenEnd_progress:
  "pos < length input \<Longrightarrow> \<not> isMessageSeparator (input ! pos) \<Longrightarrow> pos < tokenEnd input pos"
  using tokenEnd_ge [of "pos + 1" input] by (subst tokenEnd.simps) auto

function (sequential) readParams :: "string \<Rightarrow> nat \<Rightarrow> string list \<Rightarrow> string list" where
  "readParams input pos0 params =
     (if pos0 < length input then
        let pos = skipSeparators input pos0 in
        if length input \<le> pos then params
        else if input ! pos = CHR '':'' then params @ [drop (pos + 1) input]
        else case readToken input pos of (token, e) \<Rightarrow> readParams input e (params @ [token])
      else params)"
  by pat_completeness auto
termination
proof (relation "measure (\<lambda>(input, pos, params). length input - pos)", goal_cases)
  case (2 input pos0 params pos token e)
  then have e: "e = tokenEnd input pos" by (simp add: readToken_def Let_def)
  have "pos0 \<le> pos" "pos < length input" "\<not> isMessageSeparator (input ! pos)"
    using 2 skipSeparators_ge [of pos0 input] skipSeparators_stops [of input pos0] by auto
  then show ?case using tokenEnd_progress [of pos input] e 2 by auto
qed simp

declare readParams.simps [simp del]

definition parse :: "string \<Rightarrow> message" where
  "parse line =
     (let input = removeIrcLineTerminator line in
      case readPrefix input 0 [] of
        None \<Rightarrow> empty_Message
      | Some (pos, prefix) \<Rightarrow>
          if length input \<le> pos then empty_Message
          else case readToken input pos of (command, pos1) \<Rightarrow>
            new_Message prefix (upperCommand command) (readParams input pos1 []))"

section \<open>The grammar on the remaining characters\<close>

abbreviation sep :: "char \<Rightarrow> bool" where "sep \<equiv> isMessageSeparator"

abbreviation word_char :: "char \<Rightarrow> bool" where "word_char c \<equiv> \<not> isMessageSeparator c"

function (sequential) params_spec :: "string \<Rightarrow> string list" where
  "params_spec cs = (case dropWhile sep cs of
     [] \<Rightarrow> []
   | c # rest \<Rightarrow> if c = CHR '':'' then [rest]
       else (c # takeWhile word_char rest) # params_spec (dropWhile word_char rest))"
  by pat_completeness auto
termination
proof (relation "measure length", goal_cases)
  case (2 cs c rest)
  have "length (c # rest) \<le> length cs" using length_dropWhile_le [of sep cs] 2 by simp
  then show ?case using length_dropWhile_le [of word_char rest] by simp
qed simp

declare params_spec.simps [simp del]
declare dropWhile_eq_Nil_conv [simp del]

definition command_spec :: "string \<Rightarrow> string \<Rightarrow> message" where
  "command_spec prefix cs = (if cs = [] then empty_Message
     else new_Message prefix (upperCommand (takeWhile word_char cs)) (params_spec (dropWhile word_char cs)))"

definition parse_spec :: "string \<Rightarrow> message" where
  "parse_spec input = (case dropWhile sep input of
     [] \<Rightarrow> empty_Message
   | c # rest \<Rightarrow>
       if c = CHR '':'' then
         (if dropWhile word_char rest = [] then empty_Message
          else command_spec (takeWhile word_char rest) (dropWhile sep (dropWhile word_char rest)))
       else command_spec [] (c # rest))"


section \<open>The parser implements the grammar\<close>

lemma skipSeparators_takeWhile: "skipSeparators input pos = pos + length (takeWhile sep (drop pos input))"
proof (induction input pos rule: skipSeparators.induct)
  case (1 input pos)
  show ?case
  proof (cases "pos < length input")
    case True
    then have "drop pos input = input ! pos # drop (pos + 1) input" by (simp add: Cons_nth_drop_Suc)
    with 1 True show ?thesis by (simp add: skipSeparators.simps [of input pos])
  qed (simp add: skipSeparators.simps [of input pos])
qed

lemma tokenEnd_takeWhile: "tokenEnd input pos = pos + length (takeWhile word_char (drop pos input))"
proof (induction input pos rule: tokenEnd.induct)
  case (1 input pos)
  show ?case
  proof (cases "pos < length input")
    case True
    then have "drop pos input = input ! pos # drop (pos + 1) input" by (simp add: Cons_nth_drop_Suc)
    with 1 True show ?thesis by (simp add: tokenEnd.simps [of input pos])
  qed (simp add: tokenEnd.simps [of input pos])
qed

lemma drop_after_takeWhile: "drop (pos + length (takeWhile P (drop pos xs))) xs = dropWhile P (drop pos xs)"
  by (metis add.commute drop_drop drop_takeWhile)

lemma drop_skipSeparators: "drop (skipSeparators input pos) input = dropWhile sep (drop pos input)"
  by (simp add: skipSeparators_takeWhile drop_after_takeWhile)

lemma drop_tokenEnd: "drop (tokenEnd input pos) input = dropWhile word_char (drop pos input)"
  by (simp add: tokenEnd_takeWhile drop_after_takeWhile)

lemma substr_token: "substr pos (tokenEnd input pos - pos) input = takeWhile word_char (drop pos input)"
  unfolding substr_def tokenEnd_takeWhile by (metis add_diff_cancel_left' takeWhile_eq_take)

lemma at_end_iff: "length input \<le> pos \<longleftrightarrow> drop pos input = []"
  by simp

lemma drop_ConsD: "drop pos xs = c # rest \<Longrightarrow> xs ! pos = c \<and> drop (Suc pos) xs = rest \<and> pos < length xs"
proof -
  assume a: "drop pos xs = c # rest"
  then have "pos < length xs" by (metis drop_eq_Nil linorder_not_less list.distinct(1))
  with Cons_nth_drop_Suc [OF this] a show ?thesis by simp
qed

lemma readParams_spec: "readParams input pos params = params @ params_spec (drop pos input)"
proof (induction input pos params rule: readParams.induct)
  case (1 input pos0 params)
  show ?case
  proof (cases "dropWhile sep (drop pos0 input)")
    case Nil
    then have "length input \<le> skipSeparators input pos0"
      unfolding at_end_iff drop_skipSeparators .
    with Nil show ?thesis
      by (simp add: readParams.simps [of input pos0] params_spec.simps [of "drop pos0 input"])
  next
    case (Cons c rest)
    let ?pos = "skipSeparators input pos0"
    from Cons have pos: "input ! ?pos = c" "drop (Suc ?pos) input = rest" "?pos < length input"
      using drop_ConsD [of ?pos input c rest] by (auto simp: drop_skipSeparators)
    have "pos0 < length input" using pos(3) skipSeparators_ge [of pos0 input] by simp
    moreover have "word_char c" using skipSeparators_stops [of input pos0] pos by simp
    ultimately show ?thesis
      using 1 pos Cons
      by (auto simp: readParams.simps [of input pos0] params_spec.simps [of "drop pos0 input"]
          readToken_def Let_def substr_token drop_tokenEnd drop_skipSeparators)
  qed
qed

lemma readToken_spec: "readToken input pos = (takeWhile word_char (drop pos input), tokenEnd input pos)"
  by (simp add: readToken_def Let_def substr_token)

lemma command_at:
  "(if length input \<le> pos then empty_Message
    else case readToken input pos of (command, pos1) \<Rightarrow>
      new_Message prefix (upperCommand command) (readParams input pos1 []))
   = command_spec prefix (drop pos input)"
  by (simp add: command_spec_def readToken_spec readParams_spec drop_tokenEnd)

lemma parse_eq_spec: "parse line = parse_spec (removeIrcLineTerminator line)"
proof -
  let ?in = "removeIrcLineTerminator line"
  let ?pos = "skipSeparators ?in 0"
  have at: "drop ?pos ?in = dropWhile sep ?in" by (simp add: drop_skipSeparators)
  show ?thesis
  proof (cases "dropWhile sep ?in")
    case Nil
    then show ?thesis using at by (simp add: parse_def readPrefix_def Let_def parse_spec_def)
  next
    case (Cons c rest)
    then have c: "?in ! ?pos = c" "drop (Suc ?pos) ?in = rest" "?pos < length ?in"
      using drop_ConsD [of ?pos ?in c rest] at by auto
    let ?e = "tokenEnd ?in (Suc ?pos)"
    have e: "drop ?e ?in = dropWhile word_char rest" by (simp add: drop_tokenEnd c(2))
    have "?e \<le> length ?in"
      using c(2,3) length_takeWhile_le [of word_char rest] by (auto simp: tokenEnd_takeWhile)
    then have "?e = length ?in \<longleftrightarrow> dropWhile word_char rest = []" by (auto simp flip: e)
    then show ?thesis
      using Cons c command_at [of ?in ?pos "[]"] at
        command_at [of ?in "skipSeparators ?in ?e" "takeWhile word_char rest"]
      by (simp add: parse_def readPrefix_def Let_def parse_spec_def substr_token drop_skipSeparators e)
  qed
qed


section \<open>The shape of a parsed message\<close>

definition is_word :: "string \<Rightarrow> bool" where
  "is_word w \<longleftrightarrow> w \<noteq> [] \<and> list_all word_char w"

definition is_middle :: "string \<Rightarrow> bool" where
  "is_middle w \<longleftrightarrow> is_word w \<and> hd w \<noteq> CHR '':''"

text \<open>Only the last parameter may be empty, contain spaces or start with a colon.\<close>

definition params_wf :: "string list \<Rightarrow> bool" where
  "params_wf ps \<longleftrightarrow> list_all is_middle (butlast ps)"

lemma params_wf_simps [simp]:
  "params_wf []" "params_wf [p]" "params_wf (p # q # ps) \<longleftrightarrow> is_middle p \<and> params_wf (q # ps)"
  by (simp_all add: params_wf_def)

lemma dropWhile_hd: "dropWhile P xs = y # ys \<Longrightarrow> \<not> P y"
  by (metis hd_dropWhile list.distinct(1) list.sel(1))

lemma params_spec_Cons:
  assumes "dropWhile sep cs = c # rest" "c \<noteq> CHR '':''"
  shows "is_middle (c # takeWhile word_char rest)"
  using dropWhile_hd [OF assms(1)] assms(2)
  by (auto simp: is_middle_def is_word_def list_all_iff dest: set_takeWhileD)

lemma params_spec_wf: "params_wf (params_spec cs)"
proof (induction cs rule: params_spec.induct)
  case (1 cs)
  show ?case
  proof (cases "dropWhile sep cs")
    case Nil
    then show ?thesis by (simp add: params_spec.simps [of cs])
  next
    case (Cons c rest)
    show ?thesis
      using 1 [OF Cons] params_spec_Cons [OF Cons] Cons
      by (cases "params_spec (dropWhile word_char rest)")
        (auto simp: params_spec.simps [of cs])
  qed
qed

text \<open>No parameter contains a character the line did not contain.\<close>

lemma params_spec_chars: "p \<in> set (params_spec cs) \<Longrightarrow> set p \<subseteq> set cs"
proof (induction cs rule: params_spec.induct)
  case (1 cs)
  show ?case
  proof (cases "dropWhile sep cs")
    case Nil
    then show ?thesis using 1 by (simp add: params_spec.simps [of cs])
  next
    case (Cons c rest)
    have sub: "set (c # rest) \<subseteq> set cs" unfolding Cons [symmetric] by (meson set_dropWhileD subsetI)
    have sub': "set (dropWhile word_char rest) \<subseteq> set rest" "set (takeWhile word_char rest) \<subseteq> set rest"
      by (meson set_dropWhileD set_takeWhileD subsetI)+
    show ?thesis
      using 1(1) [OF Cons] 1(2) Cons sub sub'
      by (auto simp: params_spec.simps [of cs] split: if_splits)
  qed
qed

lemma set_removeIrcLineTerminator: "set (removeIrcLineTerminator line) \<subseteq> set line"
  by (auto simp: removeIrcLineTerminator_def dest: in_set_takeD)

lemma command_spec_params:
  "params_wf (msg_params (command_spec p cs))"
  "q \<in> set (msg_params (command_spec p cs)) \<Longrightarrow> set q \<subseteq> set cs"
  using params_spec_wf params_spec_chars [of q "dropWhile word_char cs"]
  by (auto simp: command_spec_def empty_Message_def new_Message_def split: if_splits dest: set_dropWhileD)

lemma parse_spec_params: "params_wf (msg_params (parse_spec cs))"
  using command_spec_params(1)
  by (auto simp: parse_spec_def empty_Message_def split: list.splits)

lemma parse_spec_chars: "q \<in> set (msg_params (parse_spec cs)) \<Longrightarrow> set q \<subseteq> set cs"
proof (cases "dropWhile sep cs")
  case (Cons c rest)
  have sub: "set (c # rest) \<subseteq> set cs" unfolding Cons [symmetric] by (meson set_dropWhileD subsetI)
  have sub': "set (dropWhile sep (dropWhile word_char rest)) \<subseteq> set rest"
    by (meson set_dropWhileD subsetI)
  assume "q \<in> set (msg_params (parse_spec cs))"
  then show ?thesis
    using Cons sub sub' command_spec_params(2) [of q]
    by (fastforce simp: parse_spec_def empty_Message_def split: if_splits)
qed (simp add: parse_spec_def empty_Message_def)

section \<open>Printing a message, and reading it back\<close>

fun print_params :: "string list \<Rightarrow> string" where
  "print_params [] = []"
| "print_params [p] = '' :'' @ p"
| "print_params (p # q # ps) = '' '' @ p @ print_params (q # ps)"

definition print_message :: "message \<Rightarrow> string" where
  "print_message m = (if msg_prefix m = [] then [] else '':'' @ msg_prefix m @ '' '')
     @ msg_command m @ print_params (msg_params m)"

definition message_wf :: "message \<Rightarrow> bool" where
  "message_wf m \<longleftrightarrow> list_all word_char (msg_prefix m) \<and> is_word (msg_command m)
     \<and> upperCommand (msg_command m) = msg_command m
     \<and> (msg_prefix m = [] \<longrightarrow> hd (msg_command m) \<noteq> CHR '':'') \<and> params_wf (msg_params m)"

lemma sep_space [simp]: "isMessageSeparator (CHR '' '')" "\<not> isMessageSeparator (CHR '':'')"
  by (simp_all add: isMessageSeparator_def)

lemma print_params_head: "print_params ps = [] \<or> hd (print_params ps) = CHR '' ''"
  by (cases ps rule: print_params.cases) auto

lemma take_word:
  assumes "list_all word_char w" "rest = [] \<or> hd rest = CHR '' ''"
  shows "takeWhile word_char (w @ rest) = w" "dropWhile word_char (w @ rest) = rest"
  using assms by (cases rest; auto simp: list_all_iff takeWhile_append dropWhile_append dropWhile_eq_Nil_conv)+

lemma params_spec_print: "params_wf ps \<Longrightarrow> params_spec (print_params ps) = ps"
proof (induction ps rule: print_params.induct)
  case (3 p q ps)
  then obtain c w where p: "p = c # w" "word_char c" "list_all word_char w" "c \<noteq> CHR '':''"
    by (auto simp: is_middle_def is_word_def neq_Nil_conv)
  with 3 take_word [OF p(3) print_params_head, of "q # ps"] show ?case
    by (simp add: params_spec.simps [of "CHR '' '' # _"])
qed (simp_all add: params_spec.simps)

lemma removeIrcLineTerminator_CRLF [simp]: "removeIrcLineTerminator (xs @ CRLF) = xs"
  by (simp add: removeIrcLineTerminator_def nth_append)

lemma parse_CRLF: "parse (xs @ CRLF) = parse_spec xs"
  by (simp add: parse_eq_spec)

lemma command_spec_print:
  assumes "is_word c" "upperCommand c = c" "params_wf ps"
  shows "command_spec p (c @ print_params ps) = new_Message p c ps"
  using assms take_word [of c "print_params ps"] print_params_head [of ps]
  by (auto simp: command_spec_def is_word_def params_spec_print)

lemma dropWhile_sep_word: "is_word w \<Longrightarrow> dropWhile sep (w @ rest) = w @ rest"
  by (cases w) (auto simp: is_word_def)

lemma parse_print: "message_wf m \<Longrightarrow> parse (print_message m @ CRLF) = m"
proof -
  assume wf: "message_wf m"
  then have m: "is_word (msg_command m)" "upperCommand (msg_command m) = msg_command m"
    "params_wf (msg_params m)" "list_all word_char (msg_prefix m)"
    "msg_prefix m = [] \<Longrightarrow> hd (msg_command m) \<noteq> CHR '':''"
    by (auto simp: message_wf_def)
  have eq: "new_Message (msg_prefix m) (msg_command m) (msg_params m) = m" by (simp add: new_Message_def)
  have cmd: "command_spec (msg_prefix m) (msg_command m @ print_params (msg_params m)) = m"
    using command_spec_print [OF m(1-3)] eq by simp
  show ?thesis
  proof (cases "msg_prefix m = []")
    case True
    from m(1,5) True obtain c w where c: "msg_command m = c # w" "c \<noteq> CHR '':''" "word_char c"
      by (cases "msg_command m") (auto simp: is_word_def)
    with True cmd show ?thesis
      unfolding parse_CRLF by (simp add: print_message_def parse_spec_def)
  next
    case False
    have "takeWhile word_char (msg_prefix m @ '' '' @ rest) = msg_prefix m"
      "dropWhile word_char (msg_prefix m @ '' '' @ rest) = '' '' @ rest" for rest
      using take_word [OF m(4), of "'' '' @ rest"] by simp_all
    with False cmd m(1) show ?thesis
      unfolding parse_CRLF by (simp add: print_message_def parse_spec_def dropWhile_sep_word)
  qed
qed


lemma uchar_toupper: "97 \<le> uchar c \<Longrightarrow> uchar c \<le> 122 \<Longrightarrow> uchar (char_of_int (uchar c - 32)) = uchar c - 32"
  by (simp add: uchar_char_of_int)

lemma toupper_char_idem [simp]: "toupper_char (toupper_char c) = toupper_char c"
  by (simp add: toupper_char_def uchar_toupper)

lemma upperCommand_idem [simp]: "upperCommand (upperCommand c) = upperCommand c"
  by (simp add: upperCommand_def)

lemma uchar_space: "uchar (CHR '' '') = 32"
  by (simp add: uchar_def)

lemma toupper_char_word: "word_char c \<Longrightarrow> word_char (toupper_char c)"
  using uchar_toupper [of c] uchar_space
  by (auto simp: toupper_char_def isMessageSeparator_def simp flip: uchar_inject split: if_splits)

lemma is_word_upperCommand: "is_word w \<Longrightarrow> is_word (upperCommand w)"
  by (auto simp: is_word_def upperCommand_def list_all_iff toupper_char_word)

lemma is_word_takeWhile: "cs \<noteq> [] \<Longrightarrow> word_char (hd cs) \<Longrightarrow> is_word (takeWhile word_char cs)"
  by (cases cs) (auto simp: is_word_def list_all_iff dest: set_takeWhileD)

lemma command_spec_wf:
  assumes "cs \<noteq> []" "word_char (hd cs)" "list_all word_char p"
  shows "msg_prefix (command_spec p cs) = p" "is_word (msg_command (command_spec p cs))"
    "upperCommand (msg_command (command_spec p cs)) = msg_command (command_spec p cs)"
    "params_wf (msg_params (command_spec p cs))"
  using assms is_word_upperCommand [OF is_word_takeWhile]
  by (auto simp: command_spec_def new_Message_def params_spec_wf)

text \<open>A parsed line with a command is a well-formed message, unless the empty prefix was followed
  by a command that starts with a colon.\<close>

lemma parse_message_wf:
  assumes "msg_command (parse line) \<noteq> []"
    "msg_prefix (parse line) = [] \<longrightarrow> hd (msg_command (parse line)) \<noteq> CHR '':''"
  shows "message_wf (parse line)"
proof -
  let ?in = "removeIrcLineTerminator line"
  have eq: "parse line = parse_spec ?in" by (rule parse_eq_spec)
  show ?thesis
  proof (cases "dropWhile sep ?in")
    case Nil
    with assms eq show ?thesis by (simp add: parse_spec_def empty_Message_def)
  next
    case (Cons c rest)
    have c: "word_char c" by (rule dropWhile_hd [OF Cons])
    let ?cs = "dropWhile sep (dropWhile word_char rest)"
    have p: "list_all word_char (takeWhile word_char rest)"
      by (auto simp: list_all_iff dest: set_takeWhileD)
    have cs: "?cs \<noteq> [] \<Longrightarrow> word_char (hd ?cs)" by (metis hd_dropWhile)
    have "parse line = command_spec [] (c # rest) \<or>
        (?cs \<noteq> [] \<and> parse line = command_spec (takeWhile word_char rest) ?cs)"
      using Cons eq assms(1)
      by (auto simp: parse_spec_def command_spec_def empty_Message_def split: if_splits)
    then show ?thesis
      using assms(2) c p cs command_spec_wf [of "c # rest" "[]"] command_spec_wf [of ?cs]
      by (auto simp: message_wf_def)
  qed
qed

section \<open>Properties\<close>

text \<open>C23: the parser, which walks over the line with an index, computes the message of the grammar
  (\<open>parse_spec\<close>, on lists, without an index), and all parameters but the last are non-empty, hold
  no space and do not start with a colon.\<close>

theorem parser_implements_grammar:
  "parse line = parse_spec (removeIrcLineTerminator line) \<and> list_all is_middle (butlast (msg_params (parse line)))"
  using parse_eq_spec parse_spec_params [of "removeIrcLineTerminator line"] by (simp add: params_wf_def)

text \<open>C24: printing a well-formed message and parsing the line gives the message back.\<close>

theorem print_then_parse:
  assumes "message_wf m"
  shows "parse (print_message m @ CRLF) = m"
  by (rule parse_print [OF assms])

theorem print_then_parse_witness:
  "parse (print_message \<lparr>msg_prefix = ''ann!u@h'', msg_command = ''PRIVMSG'', msg_params = [''#c'', ''hi all'']\<rparr> @ CRLF)
     = \<lparr>msg_prefix = ''ann!u@h'', msg_command = ''PRIVMSG'', msg_params = [''#c'', ''hi all'']\<rparr>"
proof (rule print_then_parse)
  show "message_wf \<lparr>msg_prefix = ''ann!u@h'', msg_command = ''PRIVMSG'', msg_params = [''#c'', ''hi all'']\<rparr>" by code_simp
qed

end
