(* ===== verification/ReplyBuilder.thy ===== *)
theory ReplyBuilder
  imports ServerState IrcMessage
begin

text \<open>
  \<open>CommandResult\<close> and \<open>ReplyBuilder\<close> (\<open>src/src/b/CommandResult.cpp\<close>,
  \<open>src/src/b/ReplyBuilder.cpp\<close>): what a command sends back, and the text of every reply.

  The lemmas say that a reply is one protocol line, and that the server's own parser reads a
  numeric reply back as its code, its parameters and its text.
\<close>

section \<open>CommandResult\<close>

record command_result =
  replies :: "(int \<times> string) list"
  shouldDisconnect :: bool

definition new_CommandResult :: command_result where
  "new_CommandResult = \<lparr>replies = [], shouldDisconnect = False\<rparr>"

definition addReply :: "int \<Rightarrow> string \<Rightarrow> command_result \<Rightarrow> command_result" where
  "addReply fd text r = r\<lparr>replies := replies r @ [(fd, text)]\<rparr>"

lemma command_result_simps [simp]:
  "replies new_CommandResult = []" "\<not> shouldDisconnect new_CommandResult"
  "replies (addReply fd t r) = replies r @ [(fd, t)]"
  "shouldDisconnect (addReply fd t r) = shouldDisconnect r"
  by (simp_all add: new_CommandResult_def addReply_def)

section \<open>Reply codes\<close>

definition SERVER_NAME :: string where "SERVER_NAME = ''irc.local''"
definition RPL_WELCOME :: string where "RPL_WELCOME = ''001''"
definition RPL_CHANNELMODEIS :: string where "RPL_CHANNELMODEIS = ''324''"
definition RPL_NOTOPIC :: string where "RPL_NOTOPIC = ''331''"
definition RPL_TOPIC :: string where "RPL_TOPIC = ''332''"
definition RPL_INVITING :: string where "RPL_INVITING = ''341''"
definition RPL_NAMREPLY :: string where "RPL_NAMREPLY = ''353''"
definition RPL_ENDOFNAMES :: string where "RPL_ENDOFNAMES = ''366''"
definition ERR_NOSUCHNICK :: string where "ERR_NOSUCHNICK = ''401''"
definition ERR_NOSUCHCHANNEL :: string where "ERR_NOSUCHCHANNEL = ''403''"
definition ERR_CANNOTSENDTOCHAN :: string where "ERR_CANNOTSENDTOCHAN = ''404''"
definition ERR_UNKNOWNCOMMAND :: string where "ERR_UNKNOWNCOMMAND = ''421''"
definition ERR_ERRONEUSNICKNAME :: string where "ERR_ERRONEUSNICKNAME = ''432''"
definition ERR_NICKNAMEINUSE :: string where "ERR_NICKNAMEINUSE = ''433''"
definition ERR_USERNOTINCHANNEL :: string where "ERR_USERNOTINCHANNEL = ''441''"
definition ERR_NOTONCHANNEL :: string where "ERR_NOTONCHANNEL = ''442''"
definition ERR_USERONCHANNEL :: string where "ERR_USERONCHANNEL = ''443''"
definition ERR_NOTREGISTERED :: string where "ERR_NOTREGISTERED = ''451''"
definition ERR_NEEDMOREPARAMS :: string where "ERR_NEEDMOREPARAMS = ''461''"
definition ERR_ALREADYREGISTERED :: string where "ERR_ALREADYREGISTERED = ''462''"
definition ERR_PASSWDMISMATCH :: string where "ERR_PASSWDMISMATCH = ''464''"
definition ERR_CHANNELISFULL :: string where "ERR_CHANNELISFULL = ''471''"
definition ERR_UNKNOWNMODE :: string where "ERR_UNKNOWNMODE = ''472''"
definition ERR_INVITEONLYCHAN :: string where "ERR_INVITEONLYCHAN = ''473''"
definition ERR_BADCHANNELKEY :: string where "ERR_BADCHANNELKEY = ''475''"
definition ERR_CHANOPRIVSNEEDED :: string where "ERR_CHANOPRIVSNEEDED = ''482''"
definition ERR_INVALIDMODEPARAM :: string where "ERR_INVALIDMODEPARAM = ''696''"

lemmas reply_codes = RPL_WELCOME_def
  RPL_CHANNELMODEIS_def
  RPL_NOTOPIC_def
  RPL_TOPIC_def
  RPL_INVITING_def
  RPL_NAMREPLY_def
  RPL_ENDOFNAMES_def
  ERR_NOSUCHNICK_def
  ERR_NOSUCHCHANNEL_def
  ERR_CANNOTSENDTOCHAN_def
  ERR_UNKNOWNCOMMAND_def
  ERR_ERRONEUSNICKNAME_def
  ERR_NICKNAMEINUSE_def
  ERR_USERNOTINCHANNEL_def
  ERR_NOTONCHANNEL_def
  ERR_USERONCHANNEL_def
  ERR_NOTREGISTERED_def
  ERR_NEEDMOREPARAMS_def
  ERR_ALREADYREGISTERED_def
  ERR_PASSWDMISMATCH_def
  ERR_CHANNELISFULL_def
  ERR_UNKNOWNMODE_def
  ERR_INVITEONLYCHAN_def
  ERR_BADCHANNELKEY_def
  ERR_CHANOPRIVSNEEDED_def
  ERR_INVALIDMODEPARAM_def

section \<open>Replies\<close>

definition replyTarget :: "client \<Rightarrow> string" where
  "replyTarget client = (if cl_nickname client = [] then ''*'' else cl_nickname client)"

definition numericReply :: "string \<Rightarrow> string \<Rightarrow> string \<Rightarrow> string \<Rightarrow> string" where
  "numericReply code target params text =
     '':'' @ SERVER_NAME @ '' '' @ code @ '' '' @ target
     @ (if params = [] then [] else '' '' @ params) @ '' :'' @ text @ CRLF"

definition reply_ping :: "string \<Rightarrow> string" where
  "reply_ping token = '':'' @ SERVER_NAME @ '' PING :'' @ token @ CRLF"

definition reply_pong :: "string \<Rightarrow> string" where
  "reply_pong token = '':'' @ SERVER_NAME @ '' PONG '' @ SERVER_NAME @ '' :'' @ token @ CRLF"

definition reply_welcome :: "client \<Rightarrow> string" where
  "reply_welcome client = numericReply RPL_WELCOME (cl_nickname client) []
     (''Welcome to the IRC Network '' @ getFullPrefix client)"

definition needMoreParams :: "client \<Rightarrow> string \<Rightarrow> string" where
  "needMoreParams client command =
     numericReply ERR_NEEDMOREPARAMS (replyTarget client) command ''Not enough parameters''"

definition alreadyRegistered :: "client \<Rightarrow> string" where
  "alreadyRegistered client =
     numericReply ERR_ALREADYREGISTERED (replyTarget client) [] ''You may not reregister''"

definition passwordMismatch :: string where
  "passwordMismatch = numericReply ERR_PASSWDMISMATCH ''*'' [] ''Password incorrect''"

definition erroneousNickname :: "client \<Rightarrow> string \<Rightarrow> string" where
  "erroneousNickname client nick =
     numericReply ERR_ERRONEUSNICKNAME (replyTarget client) nick ''Erroneous nickname''"

definition nickInUse :: "string \<Rightarrow> string" where
  "nickInUse nick = numericReply ERR_NICKNAMEINUSE ''*'' nick ''Nickname is already in use''"

definition noSuchNick :: "client \<Rightarrow> string \<Rightarrow> string" where
  "noSuchNick client targetName =
     numericReply ERR_NOSUCHNICK (replyTarget client) targetName ''No such nick/channel''"

definition noSuchChannel :: "client \<Rightarrow> string \<Rightarrow> string" where
  "noSuchChannel client channelName =
     numericReply ERR_NOSUCHCHANNEL (replyTarget client) channelName ''No such channel''"

definition noTopic :: "client \<Rightarrow> string \<Rightarrow> string" where
  "noTopic client channelName =
     numericReply RPL_NOTOPIC (replyTarget client) channelName ''No topic is set''"

definition topicReply :: "client \<Rightarrow> string \<Rightarrow> string \<Rightarrow> string" where
  "topicReply client channelName topic =
     numericReply RPL_TOPIC (replyTarget client) channelName topic"

definition channelModeIs :: "client \<Rightarrow> string \<Rightarrow> string \<Rightarrow> string \<Rightarrow> string" where
  "channelModeIs client channelName modes modeArgs =
     '':'' @ SERVER_NAME @ '' '' @ RPL_CHANNELMODEIS @ '' '' @ replyTarget client @ '' ''
     @ channelName @ '' '' @ modes @ (if modeArgs = [] then [] else '' '' @ modeArgs) @ CRLF"

definition inviting :: "client \<Rightarrow> string \<Rightarrow> string \<Rightarrow> string" where
  "inviting client targetNick channelName =
     '':'' @ SERVER_NAME @ '' '' @ RPL_INVITING @ '' '' @ replyTarget client @ '' ''
     @ targetNick @ '' '' @ channelName @ CRLF"

text \<open>The loop of \<open>nameReply\<close> over the members, appending to \<open>names\<close>.\<close>

primrec nameReply_loop :: "'z memory_scheme \<Rightarrow> channel \<Rightarrow> addr list \<Rightarrow> string \<Rightarrow> string option" where
  "nameReply_loop s channel [] names = Some names"
| "nameReply_loop s channel (member # members) names =
     (if member = 0 then nameReply_loop s channel members names
      else do {
        m \<leftarrow> deref_client s member;
        let names1 = (if names = [] then names else names @ '' '');
        let names2 = (if isOperator channel member then names1 @ ''@'' else names1);
        nameReply_loop s channel members (names2 @ cl_nickname m)
      })"

definition nameReply :: "'z memory_scheme \<Rightarrow> client \<Rightarrow> channel \<Rightarrow> string option" where
  "nameReply s client channel = do {
     names \<leftarrow> nameReply_loop s channel (getMembers channel) [];
     Some (numericReply RPL_NAMREPLY (replyTarget client) (''= '' @ ch_name channel) names)
   }"

definition endOfNames :: "client \<Rightarrow> string \<Rightarrow> string" where
  "endOfNames client channelName =
     numericReply RPL_ENDOFNAMES (replyTarget client) channelName ''End of /NAMES list''"

definition cannotSendToChan :: "client \<Rightarrow> string \<Rightarrow> string" where
  "cannotSendToChan client channelName =
     numericReply ERR_CANNOTSENDTOCHAN (replyTarget client) channelName ''Cannot send to channel''"

definition userNotInChannel :: "client \<Rightarrow> string \<Rightarrow> string" where
  "userNotInChannel client channelName =
     numericReply ERR_USERNOTINCHANNEL (replyTarget client) channelName ''You are not on that channel''"

definition notOnChannel :: "client \<Rightarrow> string \<Rightarrow> string" where
  "notOnChannel client channelName =
     numericReply ERR_NOTONCHANNEL (replyTarget client) channelName ''You are not on that channel''"

definition userOnChannel :: "client \<Rightarrow> string \<Rightarrow> string \<Rightarrow> string" where
  "userOnChannel client targetNick channelName =
     numericReply ERR_USERONCHANNEL (replyTarget client) (targetNick @ '' '' @ channelName)
       ''is already on channel''"

definition chanOpPrivsNeeded :: "client \<Rightarrow> string \<Rightarrow> string" where
  "chanOpPrivsNeeded client channelName =
     numericReply ERR_CHANOPRIVSNEEDED (replyTarget client) channelName ''You are not channel operator''"

definition channelIsFull :: "client \<Rightarrow> string \<Rightarrow> string" where
  "channelIsFull client channelName =
     numericReply ERR_CHANNELISFULL (replyTarget client) channelName ''Cannot join channel (+l)''"

definition inviteOnlyChan :: "client \<Rightarrow> string \<Rightarrow> string" where
  "inviteOnlyChan client channelName =
     numericReply ERR_INVITEONLYCHAN (replyTarget client) channelName ''Cannot join channel (+i)''"

definition badChannelKey :: "client \<Rightarrow> string \<Rightarrow> string" where
  "badChannelKey client channelName =
     numericReply ERR_BADCHANNELKEY (replyTarget client) channelName ''Cannot join channel (+k)''"

definition noRegistered :: "client \<Rightarrow> string" where
  "noRegistered client =
     numericReply ERR_NOTREGISTERED (replyTarget client) [] '':You have not registered''"

definition reply_join :: "string \<Rightarrow> string \<Rightarrow> string \<Rightarrow> string" where
  "reply_join clientFullPrefix command channelName =
     '':'' @ clientFullPrefix @ '' '' @ command @ '' '' @ channelName @ CRLF"

definition reply_part :: "string \<Rightarrow> string \<Rightarrow> string \<Rightarrow> string" where
  "reply_part clientFullPrefix command channelName =
     '':'' @ clientFullPrefix @ '' '' @ command @ '' '' @ channelName @ CRLF"

definition reply_privmsg :: "string \<Rightarrow> string \<Rightarrow> string \<Rightarrow> string \<Rightarrow> string" where
  "reply_privmsg client command target text =
     '':'' @ client @ '' '' @ command @ '' '' @ target @ '' :'' @ text @ CRLF"

definition reply_notice :: "string \<Rightarrow> string \<Rightarrow> string \<Rightarrow> string \<Rightarrow> string" where
  "reply_notice client command target text =
     '':'' @ client @ '' '' @ command @ '' '' @ target @ '' :'' @ text @ CRLF"

definition reply_topic :: "string \<Rightarrow> string \<Rightarrow> string \<Rightarrow> string \<Rightarrow> string" where
  "reply_topic client command target text =
     '':'' @ client @ '' '' @ command @ '' '' @ target @ '' :'' @ text @ CRLF"

definition reply_invite :: "string \<Rightarrow> string \<Rightarrow> string \<Rightarrow> string" where
  "reply_invite client target channelName =
     '':'' @ client @ '' INVITE '' @ target @ '' :'' @ channelName @ CRLF"

definition reply_quit :: "string \<Rightarrow> string \<Rightarrow> string" where
  "reply_quit client reason = '':'' @ client @ '' QUIT :'' @ reason @ CRLF"

definition unknownCommand :: "client \<Rightarrow> string \<Rightarrow> string" where
  "unknownCommand client command =
     numericReply ERR_UNKNOWNCOMMAND (replyTarget client) command ''Unknown command''"

definition unknownMode :: "client \<Rightarrow> string \<Rightarrow> string" where
  "unknownMode client modeToken =
     numericReply ERR_UNKNOWNMODE (replyTarget client) modeToken ''is unknown mode char to me''"

definition invalidModeParam :: "client \<Rightarrow> string \<Rightarrow> string \<Rightarrow> string \<Rightarrow> string" where
  "invalidModeParam client channelName modeToken modeArg =
     numericReply ERR_INVALIDMODEPARAM (replyTarget client)
       (channelName @ '' '' @ modeToken @ '' '' @ modeArg) ''Invalid mode parameter''"

definition reply_kick :: "string \<Rightarrow> string \<Rightarrow> string \<Rightarrow> string \<Rightarrow> string" where
  "reply_kick client channelName target reason =
     '':'' @ client @ '' KICK '' @ channelName @ '' '' @ target @ '' :'' @ reason @ CRLF"

definition reply_mode :: "string \<Rightarrow> string \<Rightarrow> string \<Rightarrow> string \<Rightarrow> string" where
  "reply_mode client channelName modeToken modeArg =
     '':'' @ client @ '' MODE '' @ channelName @ '' '' @ modeToken
     @ (if modeArg = [] then [] else '' '' @ modeArg) @ CRLF"

section \<open>Every reply is one line\<close>

text \<open>Text that cannot break a line, and a line of the protocol.\<close>

definition clean :: "string \<Rightarrow> bool" where
  "clean t \<longleftrightarrow> LF \<notin> set t"

definition is_line :: "string \<Rightarrow> bool" where
  "is_line t \<longleftrightarrow> (\<exists>body. t = body @ CRLF \<and> clean body)"

lemma clean_simps [simp]:
  "clean []" "clean (c # t) \<longleftrightarrow> c \<noteq> LF \<and> clean t" "clean (t @ u) \<longleftrightarrow> clean t \<and> clean u"
  by (auto simp: clean_def)

lemma clean_if [simp]: "clean (if b then t else u) \<longleftrightarrow> (if b then clean t else clean u)"
  by simp

lemma is_line_simps [simp]:
  "is_line CRLF"
  "c \<noteq> LF \<Longrightarrow> is_line t \<Longrightarrow> is_line (c # t)"
  "clean u \<Longrightarrow> is_line t \<Longrightarrow> is_line (u @ t)"
  unfolding is_line_def
  by (simp, metis append_Cons clean_simps(2), metis append_assoc clean_simps(3))

definition client_clean :: "client \<Rightarrow> bool" where
  "client_clean c \<longleftrightarrow> clean (cl_nickname c) \<and> clean (cl_username c) \<and> clean (cl_realname c)
     \<and> clean (cl_host c)"

lemma client_clean_facts [simp]:
  "client_clean c \<Longrightarrow> clean (cl_nickname c)"
  "client_clean c \<Longrightarrow> clean (replyTarget c)"
  "client_clean c \<Longrightarrow> clean (getFullPrefix c)"
  by (auto simp: client_clean_def replyTarget_def getFullPrefix_def)

lemma numericReply_line:
  "clean code \<Longrightarrow> clean target \<Longrightarrow> clean params \<Longrightarrow> clean text \<Longrightarrow>
     is_line (numericReply code target params text)"
  by (simp add: numericReply_def SERVER_NAME_def)

lemma reply_lines [simp]:
  "clean token \<Longrightarrow> is_line (reply_ping token)"
  "clean token \<Longrightarrow> is_line (reply_pong token)"
  "client_clean c \<Longrightarrow> is_line (reply_welcome c)"
  "client_clean c \<Longrightarrow> clean command \<Longrightarrow> is_line (needMoreParams c command)"
  "client_clean c \<Longrightarrow> is_line (alreadyRegistered c)"
  "is_line passwordMismatch"
  "client_clean c \<Longrightarrow> clean nick \<Longrightarrow> is_line (erroneousNickname c nick)"
  "clean nick \<Longrightarrow> is_line (nickInUse nick)"
  "client_clean c \<Longrightarrow> clean nick \<Longrightarrow> is_line (noSuchNick c nick)"
  "client_clean c \<Longrightarrow> clean name \<Longrightarrow> is_line (noSuchChannel c name)"
  "client_clean c \<Longrightarrow> clean name \<Longrightarrow> is_line (noTopic c name)"
  "client_clean c \<Longrightarrow> clean name \<Longrightarrow> clean topic \<Longrightarrow> is_line (topicReply c name topic)"
  "client_clean c \<Longrightarrow> clean name \<Longrightarrow> clean modes \<Longrightarrow> clean args \<Longrightarrow> is_line (channelModeIs c name modes args)"
  "client_clean c \<Longrightarrow> clean nick \<Longrightarrow> clean name \<Longrightarrow> is_line (inviting c nick name)"
  "client_clean c \<Longrightarrow> clean name \<Longrightarrow> is_line (endOfNames c name)"
  "client_clean c \<Longrightarrow> clean name \<Longrightarrow> is_line (cannotSendToChan c name)"
  "client_clean c \<Longrightarrow> clean name \<Longrightarrow> is_line (userNotInChannel c name)"
  "client_clean c \<Longrightarrow> clean name \<Longrightarrow> is_line (notOnChannel c name)"
  "client_clean c \<Longrightarrow> clean nick \<Longrightarrow> clean name \<Longrightarrow> is_line (userOnChannel c nick name)"
  "client_clean c \<Longrightarrow> clean name \<Longrightarrow> is_line (chanOpPrivsNeeded c name)"
  "client_clean c \<Longrightarrow> clean name \<Longrightarrow> is_line (channelIsFull c name)"
  "client_clean c \<Longrightarrow> clean name \<Longrightarrow> is_line (inviteOnlyChan c name)"
  "client_clean c \<Longrightarrow> clean name \<Longrightarrow> is_line (badChannelKey c name)"
  "client_clean c \<Longrightarrow> is_line (noRegistered c)"
  "clean prefix \<Longrightarrow> clean command \<Longrightarrow> clean name \<Longrightarrow> is_line (reply_join prefix command name)"
  "clean prefix \<Longrightarrow> clean command \<Longrightarrow> clean name \<Longrightarrow> is_line (reply_part prefix command name)"
  "clean prefix \<Longrightarrow> clean command \<Longrightarrow> clean name \<Longrightarrow> clean text \<Longrightarrow> is_line (reply_privmsg prefix command name text)"
  "clean prefix \<Longrightarrow> clean command \<Longrightarrow> clean name \<Longrightarrow> clean text \<Longrightarrow> is_line (reply_notice prefix command name text)"
  "clean prefix \<Longrightarrow> clean command \<Longrightarrow> clean name \<Longrightarrow> clean text \<Longrightarrow> is_line (reply_topic prefix command name text)"
  "clean prefix \<Longrightarrow> clean nick \<Longrightarrow> clean name \<Longrightarrow> is_line (reply_invite prefix nick name)"
  "clean prefix \<Longrightarrow> clean reason \<Longrightarrow> is_line (reply_quit prefix reason)"
  "client_clean c \<Longrightarrow> clean command \<Longrightarrow> is_line (unknownCommand c command)"
  "client_clean c \<Longrightarrow> clean token \<Longrightarrow> is_line (unknownMode c token)"
  "client_clean c \<Longrightarrow> clean name \<Longrightarrow> clean token \<Longrightarrow> clean arg \<Longrightarrow> is_line (invalidModeParam c name token arg)"
  "clean prefix \<Longrightarrow> clean name \<Longrightarrow> clean nick \<Longrightarrow> clean reason \<Longrightarrow> is_line (reply_kick prefix name nick reason)"
  "clean prefix \<Longrightarrow> clean name \<Longrightarrow> clean token \<Longrightarrow> clean arg \<Longrightarrow> is_line (reply_mode prefix name token arg)"
  unfolding reply_ping_def reply_pong_def reply_welcome_def needMoreParams_def alreadyRegistered_def
    passwordMismatch_def erroneousNickname_def nickInUse_def noSuchNick_def noSuchChannel_def
    noTopic_def topicReply_def channelModeIs_def inviting_def endOfNames_def cannotSendToChan_def
    userNotInChannel_def notOnChannel_def userOnChannel_def chanOpPrivsNeeded_def channelIsFull_def
    inviteOnlyChan_def badChannelKey_def noRegistered_def reply_join_def reply_part_def
    reply_privmsg_def reply_notice_def reply_topic_def reply_invite_def reply_quit_def
    unknownCommand_def unknownMode_def invalidModeParam_def reply_kick_def reply_mode_def
    SERVER_NAME_def reply_codes
  by (simp_all add: numericReply_line)

lemma nameReply_loop_clean:
  assumes "nameReply_loop s h members names = Some r" "clean names"
    "\<And>a c. deref_client s a = Some c \<Longrightarrow> clean (cl_nickname c)"
  shows "clean r"
  using assms
proof (induction members arbitrary: names)
  case (Cons a members)
  show ?case
  proof (cases "a = 0")
    case False
    with Cons.prems(1) obtain c where c: "deref_client s a = Some c" by (cases "deref_client s a") auto
    show ?thesis
      using Cons.IH [of "(let names1 = (if names = [] then names else names @ '' '')
          in if isOperator h a then names1 @ ''@'' else names1) @ cl_nickname c"]
        Cons.prems c False by (auto simp: Let_def)
  qed (use Cons in simp)
qed simp

lemma nameReply_line:
  assumes "nameReply s c h = Some r" "client_clean c" "clean (ch_name h)"
    and "\<And>a d. deref_client s a = Some d \<Longrightarrow> clean (cl_nickname d)"
  shows "is_line r"
proof -
  from assms(1) obtain names where names: "nameReply_loop s h (getMembers h) [] = Some names"
    "r = numericReply RPL_NAMREPLY (replyTarget c) (''= '' @ ch_name h) names"
    by (cases "nameReply_loop s h (getMembers h) []") (auto simp: nameReply_def)
  have "clean names" by (rule nameReply_loop_clean [OF names(1) _ assms(4)]) simp_all
  with assms(2,3) show ?thesis
    unfolding names(2) by (simp add: numericReply_line RPL_NAMREPLY_def)
qed

section \<open>Replies are read back by the parser\<close>

lemma upperCommand_digits: "list_all is_decimal_digit code \<Longrightarrow> upperCommand code = code"
  by (induction code) (auto simp: upperCommand_def toupper_char_def is_decimal_digit_def)

lemma digit_word_char: "is_decimal_digit d \<Longrightarrow> word_char d"
  by (auto simp: is_decimal_digit_def isMessageSeparator_def uchar_def)

text \<open>The words of a parameter string, as \<open>numericReply\<close> puts them after the target.\<close>

fun unwords :: "string list \<Rightarrow> string" where
  "unwords [] = []"
| "unwords [w] = w"
| "unwords (v # w # ws) = v @ '' '' @ unwords (w # ws)"

lemma unwords_empty_iff: "list_all is_middle ws \<Longrightarrow> unwords ws = [] \<longleftrightarrow> ws = []"
  by (cases ws rule: unwords.cases) (auto simp: is_middle_def is_word_def)

lemma print_params_unwords:
  "print_params (ws @ [text]) = (if ws = [] then [] else '' '' @ unwords ws) @ '' :'' @ text"
proof (induction ws rule: unwords.induct)
  case (3 v w ws)
  then show ?case by simp
qed simp_all

lemma parse_numericReply:
  assumes "list_all is_decimal_digit code" "code \<noteq> []" "is_middle target" "list_all is_middle ps"
  shows "parse (numericReply code target (unwords ps) text) = new_Message SERVER_NAME code (target # ps @ [text])"
proof -
  let ?m = "new_Message SERVER_NAME code (target # ps @ [text])"
  have "params_wf (target # ps @ [text])"
    using assms by (simp add: params_wf_def butlast_append)
  moreover have "list_all word_char code" using assms(1) digit_word_char by (auto simp: list_all_iff)
  ultimately have "message_wf ?m"
    using assms by (auto simp: message_wf_def new_Message_def SERVER_NAME_def isMessageSeparator_def
        is_word_def upperCommand_digits)
  moreover have "numericReply code target (unwords ps) text = print_message ?m @ CRLF"
    using print_params_unwords [of "target # ps" "text"] unwords_empty_iff [OF assms(4)]
    by (cases ps) (auto simp: numericReply_def print_message_def new_Message_def SERVER_NAME_def)
  ultimately show ?thesis using parse_print by metis
qed

section \<open>Properties\<close>

text \<open>C25: the server's own parser reads a numeric reply back: its code, the client it is for, the
  middle parameters and the text.\<close>

theorem numeric_reply_parses:
  assumes "list_all is_decimal_digit code" "code \<noteq> []" "is_middle target" "list_all is_middle ps"
  shows "parse (numericReply code target (unwords ps) body) = new_Message SERVER_NAME code (target # ps @ [body])"
  by (rule parse_numericReply [OF assms])

theorem numeric_reply_parses_witness:
  "parse (numericReply ''433'' ''*'' ''bob'' ''Nickname is already in use'')
     = new_Message ''irc.local'' ''433'' [''*'', ''bob'', ''Nickname is already in use'']"
proof -
  have "list_all is_decimal_digit ''433''" "is_middle ''*''" "list_all is_middle [''bob'']" by code_simp+
  from numeric_reply_parses [OF this(1) _ this(2,3), of "''Nickname is already in use''"] show ?thesis
    by (simp add: SERVER_NAME_def)
qed

end
