(* ===== verification/CLib.thy ===== *)
theory CLib
  imports Prelude
begin

text \<open>
  What several components use of the C library: 32-bit integers, the bytes of a C string, and the
  conversion of decimal text by \<open>strtol\<close> and \<open>atoi\<close>.
\<close>

definition int32 :: "int \<Rightarrow> int" where
  "int32 i = (i + 2 ^ 31) mod 2 ^ 32 - 2 ^ 31"

abbreviation (input) is_int :: "int \<Rightarrow> bool" where
  "is_int i \<equiv> - (2 ^ 31) \<le> i \<and> i < 2 ^ 31"

text \<open>
  \<open>std::strtol(s, &end, 10)\<close> in the C locale, for a 64-bit \<open>long\<close>: the value, the text
  from \<open>end\<close> on, and whether \<open>errno\<close> is \<open>ERANGE\<close>. The argument is a C string:
  \<open>c_str\<close> is the part of an object up to its first NUL.
\<close>

definition c_str :: "string \<Rightarrow> string" where
  "c_str s = takeWhile (\<lambda>c. c \<noteq> NUL) s"

definition isspace_c :: "char \<Rightarrow> bool" where
  "isspace_c c \<longleftrightarrow> c \<in> {CHR '' '', TAB, LF, VT, FF, CR}"

definition LONG_MAX :: int where "LONG_MAX = 2 ^ 63 - 1"
definition LONG_MIN :: int where "LONG_MIN = - (2 ^ 63)"
definition INT_MAX :: int where "INT_MAX = 2 ^ 31 - 1"

definition strtol10 :: "string \<Rightarrow> int \<times> string \<times> bool" where
  "strtol10 s =
     (let t = dropWhile isspace_c s;
          negative = (t \<noteq> [] \<and> hd t = CHR ''-'');
          u = (if t \<noteq> [] \<and> (hd t = CHR ''-'' \<or> hd t = CHR ''+'') then tl t else t);
          digits = takeWhile is_decimal_digit u;
          rest = dropWhile is_decimal_digit u;
          v = (if negative then - digits_value 0 digits else digits_value 0 digits)
      in if digits = [] then (0, s, False)
         else if v > LONG_MAX then (LONG_MAX, rest, True)
         else if v < LONG_MIN then (LONG_MIN, rest, True)
         else (v, rest, False))"

text \<open>\<open>atoi\<close> is \<open>strtol\<close> converted to \<open>int\<close>, as glibc defines it.\<close>

definition c_atoi :: "string \<Rightarrow> int" where
  "c_atoi s = int32 (fst (strtol10 s))"

lemma decimal_not_space: "is_decimal_digit c \<Longrightarrow> \<not> isspace_c c \<and> c \<noteq> CHR ''-'' \<and> c \<noteq> CHR ''+'' \<and> c \<noteq> NUL"
  by (auto simp: is_decimal_digit_def isspace_c_def uchar_def)

lemma strtol10_digits:
  assumes "list_all is_decimal_digit ds" "ds \<noteq> []" "digits_value 0 ds \<le> LONG_MAX" "0 \<le> digits_value 0 ds"
  shows "strtol10 (c_str ds) = (digits_value 0 ds, [], False)"
proof -
  obtain d ds' where ds: "ds = d # ds'" using assms(2) by (cases ds) auto
  have "\<forall>c \<in> set ds. c \<noteq> NUL" using assms(1) decimal_not_space by (auto simp: list_all_iff)
  then have "c_str ds = ds" unfolding c_str_def by (simp add: takeWhile_eq_all_conv)
  moreover have "takeWhile is_decimal_digit ds = ds" "dropWhile is_decimal_digit ds = []"
    using assms(1) by (simp_all add: list_all_iff takeWhile_eq_all_conv dropWhile_eq_Nil_conv)
  moreover have "dropWhile isspace_c ds = ds" "hd ds \<noteq> CHR ''-''" "hd ds \<noteq> CHR ''+''"
    using assms(1) decimal_not_space [of d] ds by auto
  ultimately show ?thesis using assms(2-4)
    by (simp add: strtol10_def LONG_MIN_def del: takeWhile_eq_all_conv dropWhile_eq_Nil_conv)
qed

end
