(* ===== verification/ChannelCommands.thy ===== *)
theory ChannelCommands
  imports MembershipSafety ReplyBuilder CLib
begin

text \<open>
  \<open>ChannelCommandHandler\<close> (\<open>src/src/b/ChannelCommandHandler.cpp\<close>): KICK, INVITE, TOPIC
  and MODE. A handler gets the descriptor, the message, the address of the calling client and the
  state; it returns the command result and the new state, or \<open>None\<close> if it read through a
  dangling pointer.
\<close>

section \<open>Mode arguments\<close>

definition intToString :: "int \<Rightarrow> string" where
  "intToString value = int_to_string value"

definition appendModeArg :: "string \<Rightarrow> string \<Rightarrow> string" where
  "appendModeArg args value = (if args = [] then args else args @ '' '') @ value"

definition buildChannelModeQuery :: "channel \<Rightarrow> string \<times> string" where
  "buildChannelModeQuery channel =
     (let m = ch_modes channel;
          modes0 = ''+''; args0 = [];
          modes1 = (if isInviteOnly m then modes0 @ ''i'' else modes0);
          modes2 = (if isTopicRestricted m then modes1 @ ''t'' else modes1);
          (modes3, args3) = (if hasKey m then (modes2 @ ''k'', appendModeArg args0 (getKey m))
                             else (modes2, args0));
          (modes4, args4) = (if getLimit m \<ge> 0 then (modes3 @ ''l'', appendModeArg args3 (intToString (getLimit m)))
                             else (modes3, args3))
      in (modes4, args4))"

text \<open>\<open>None\<close> is the return value \<open>false\<close>; otherwise the value stored in \<open>limit\<close>.\<close>

definition parsePositiveLimit :: "string \<Rightarrow> int option" where
  "parsePositiveLimit value =
     (if value = [] then None
      else let (parsed, rest, erange) = strtol10 (c_str value) in
        if rest \<noteq> [] \<or> erange \<or> parsed < 1 \<or> parsed > INT_MAX then None
        else Some parsed)"

definition isSupportedSingleModeToken :: "string \<Rightarrow> bool" where
  "isSupportedSingleModeToken modeToken \<longleftrightarrow>
     (if length modeToken \<noteq> 2 then False
      else if modeToken ! 0 \<noteq> CHR ''+'' \<and> modeToken ! 0 \<noteq> CHR ''-'' then False
      else let mode = modeToken ! 1 in
        mode = CHR ''i'' \<or> mode = CHR ''t'' \<or> mode = CHR ''k'' \<or> mode = CHR ''o'' \<or> mode = CHR ''l'')"

section \<open>Handlers\<close>

primrec addRepliesToMembers ::
    "'z memory_scheme \<Rightarrow> addr list \<Rightarrow> string \<Rightarrow> int \<Rightarrow> command_result \<Rightarrow> command_result option" where
  "addRepliesToMembers s [] text exceptFd result = Some result"
| "addRepliesToMembers s (member # members) text exceptFd result =
     (if member = 0 then addRepliesToMembers s members text exceptFd result
      else do {
        m \<leftarrow> deref_client s member;
        addRepliesToMembers s members text exceptFd
          (if cl_fd m \<noteq> exceptFd then addReply (cl_fd m) text result else result)
      })"

text \<open>The idiom \<open>result.addReply(fd, text); return result;\<close> on a fresh result.\<close>

definition one_reply :: "int \<Rightarrow> string \<Rightarrow> 's \<Rightarrow> (command_result \<times> 's) option" where
  "one_reply fd text s = Some (addReply fd text new_CommandResult, s)"

definition handleKick :: "int \<Rightarrow> message \<Rightarrow> addr \<Rightarrow> 'z server_state_scheme \<Rightarrow> (command_result \<times> 'z server_state_scheme) option" where
  "handleKick fd msg client s = do {
     c \<leftarrow> deref_client s client;
     if \<not> isRegistered c then one_reply fd (noRegistered c) s
     else if getParamCount msg < 2 then one_reply fd (needMoreParams c ''KICK'') s
     else let channelName = getSingleParam msg 0; targetNick = getSingleParam msg 1 in
       if \<not> isValidChannelName channelName then one_reply fd (noSuchChannel c channelName) s
       else case getChannel s channelName of
         None \<Rightarrow> one_reply fd (noSuchChannel c channelName) s
       | Some x \<Rightarrow> do {
           h \<leftarrow> deref_channel s x;
           if \<not> hasMember h client then one_reply fd (notOnChannel c channelName) s
           else if \<not> isOperator h client then one_reply fd (chanOpPrivsNeeded c channelName) s
           else if \<not> isValidNickname targetNick then one_reply fd (noSuchNick c targetNick) s
           else case getClientByNick s targetNick of
             None \<Rightarrow> one_reply fd (noSuchNick c targetNick) s
           | Some targetClient \<Rightarrow>
               if \<not> hasMember h targetClient then one_reply fd (userNotInChannel c channelName) s
               else do {
                 let reason = (if hasParam msg 2 then getSingleParam msg 2 else cl_nickname c);
                 let kickMsg = reply_kick (getFullPrefix c) channelName targetNick reason;
                 result \<leftarrow> addRepliesToMembers s (getMembers h) kickMsg (-1) new_CommandResult;
                 s1 \<leftarrow> removeClientFromChannel (Some targetClient) channelName s;
                 Some (result, s1)
               }
         }
   }"

definition handleInvite :: "int \<Rightarrow> message \<Rightarrow> addr \<Rightarrow> 'z server_state_scheme \<Rightarrow> (command_result \<times> 'z server_state_scheme) option" where
  "handleInvite fd msg client s = do {
     c \<leftarrow> deref_client s client;
     if \<not> isRegistered c then one_reply fd (noRegistered c) s
     else if getParamCount msg < 2 then one_reply fd (needMoreParams c ''INVITE'') s
     else let targetNick = getSingleParam msg 0; channelName = getSingleParam msg 1 in
       if \<not> isValidNickname targetNick then one_reply fd (noSuchNick c targetNick) s
       else if \<not> isValidChannelName channelName then one_reply fd (noSuchChannel c channelName) s
       else case getClientByNick s targetNick of
         None \<Rightarrow> one_reply fd (noSuchNick c targetNick) s
       | Some targetClient \<Rightarrow> (case getChannel s channelName of
           None \<Rightarrow> one_reply fd (noSuchChannel c channelName) s
         | Some x \<Rightarrow> do {
             h \<leftarrow> deref_channel s x;
             if \<not> hasMember h client then one_reply fd (notOnChannel c channelName) s
             else if hasMember h targetClient then one_reply fd (userOnChannel c targetNick channelName) s
             else if isInviteOnly (ch_modes h) \<and> \<not> isOperator h client
               then one_reply fd (chanOpPrivsNeeded c channelName) s
             else do {
               s1 \<leftarrow> inviteClientToChannel (Some targetClient) (Some x) s;
               t \<leftarrow> deref_client s1 targetClient;
               Some (addReply (cl_fd t) (reply_invite (getFullPrefix c) targetNick channelName)
                 (addReply fd (inviting c targetNick channelName) new_CommandResult), s1)
             }
           })
   }"

definition handleTopic :: "int \<Rightarrow> message \<Rightarrow> addr \<Rightarrow> 'z server_state_scheme \<Rightarrow> (command_result \<times> 'z server_state_scheme) option" where
  "handleTopic fd msg client s = do {
     c \<leftarrow> deref_client s client;
     if \<not> isRegistered c then one_reply fd (noRegistered c) s
     else if \<not> hasParam msg 0 then one_reply fd (needMoreParams c ''TOPIC'') s
     else let channelName = getSingleParam msg 0 in
       if \<not> isValidChannelName channelName then one_reply fd (noSuchChannel c channelName) s
       else case getChannel s channelName of
         None \<Rightarrow> one_reply fd (noSuchChannel c channelName) s
       | Some x \<Rightarrow> do {
           h \<leftarrow> deref_channel s x;
           if \<not> hasMember h client then one_reply fd (notOnChannel c channelName) s
           else if \<not> hasParam msg 1 then
             (if ch_topic h = [] then one_reply fd (noTopic c channelName) s
              else one_reply fd (topicReply c channelName (ch_topic h)) s)
           else if isTopicRestricted (ch_modes h) \<and> \<not> isOperator h client
             then one_reply fd (chanOpPrivsNeeded c channelName) s
           else do {
             let topic = getSingleParam msg 1;
             s1 \<leftarrow> update_channel x (setTopic topic) s;
             h1 \<leftarrow> deref_channel s1 x;
             result \<leftarrow> addRepliesToMembers s1 (getMembers h1)
               (reply_topic (getFullPrefix c) ''TOPIC'' channelName topic) (-1) new_CommandResult;
             Some (result, s1)
           }
         }
   }"

definition applyOperatorMode ::
    "int \<Rightarrow> message \<Rightarrow> addr \<Rightarrow> addr \<Rightarrow> string \<Rightarrow> string \<Rightarrow> 'z server_state_scheme \<Rightarrow> (command_result \<times> 'z server_state_scheme) option" where
  "applyOperatorMode fd msg client channel channelName modeToken s = do {
     c \<leftarrow> deref_client s client;
     if \<not> hasParam msg 2 then one_reply fd (needMoreParams c ''MODE'') s
     else let targetNick = getSingleParam msg 2 in
       if \<not> isValidNickname targetNick then one_reply fd (noSuchNick c targetNick) s
       else case getClientByNick s targetNick of
         None \<Rightarrow> one_reply fd (noSuchNick c targetNick) s
       | Some targetClient \<Rightarrow> do {
           h \<leftarrow> deref_channel s channel;
           if \<not> hasMember h targetClient then one_reply fd (userNotInChannel c channelName) s
           else do {
             s1 \<leftarrow> update_channel channel (setOperator targetClient (modeToken ! 0 = CHR ''+'')) s;
             h1 \<leftarrow> deref_channel s1 channel;
             result \<leftarrow> addRepliesToMembers s1 (getMembers h1)
               (reply_mode (getFullPrefix c) channelName modeToken targetNick) (-1) new_CommandResult;
             Some (result, s1)
           }
         }
   }"

text \<open>The end of \<open>handleMode\<close>: the changed modes are stored and announced to the members.\<close>

definition announceMode ::
    "addr \<Rightarrow> addr \<Rightarrow> string \<Rightarrow> string \<Rightarrow> string \<Rightarrow> (channel_modes \<Rightarrow> channel_modes) \<Rightarrow>
     'z server_state_scheme \<Rightarrow> (command_result \<times> 'z server_state_scheme) option" where
  "announceMode client channel channelName modeToken modeArg change s = do {
     s1 \<leftarrow> update_channel channel (\<lambda>h. h\<lparr>ch_modes := change (ch_modes h)\<rparr>) s;
     c \<leftarrow> deref_client s1 client;
     h1 \<leftarrow> deref_channel s1 channel;
     result \<leftarrow> addRepliesToMembers s1 (getMembers h1)
       (reply_mode (getFullPrefix c) channelName modeToken modeArg) (-1) new_CommandResult;
     Some (result, s1)
   }"

definition handleMode :: "int \<Rightarrow> message \<Rightarrow> addr \<Rightarrow> 'z server_state_scheme \<Rightarrow> (command_result \<times> 'z server_state_scheme) option" where
  "handleMode fd msg client s = do {
     c \<leftarrow> deref_client s client;
     if \<not> isRegistered c then one_reply fd (noRegistered c) s
     else if getParamCount msg < 1 then one_reply fd (needMoreParams c ''MODE'') s
     else let channelName = getSingleParam msg 0 in
       if \<not> isValidChannelName channelName then one_reply fd (noSuchChannel c channelName) s
       else case getChannel s channelName of
         None \<Rightarrow> one_reply fd (noSuchChannel c channelName) s
       | Some x \<Rightarrow> do {
           h \<leftarrow> deref_channel s x;
           if \<not> hasMember h client then one_reply fd (notOnChannel c channelName) s
           else if getParamCount msg = 1 then
             (let (modes, modeArgs) = buildChannelModeQuery h
              in one_reply fd (channelModeIs c channelName modes modeArgs) s)
           else if \<not> isOperator h client then one_reply fd (chanOpPrivsNeeded c channelName) s
           else let modeToken = getSingleParam msg 1 in
             if \<not> isSupportedSingleModeToken modeToken then one_reply fd (unknownMode c modeToken) s
             else let adding = (modeToken ! 0 = CHR ''+''); mode = modeToken ! 1 in
               if mode = CHR ''i'' then announceMode client x channelName modeToken [] (setInviteOnly adding) s
               else if mode = CHR ''t'' then announceMode client x channelName modeToken [] (setTopicRestricted adding) s
               else if mode = CHR ''k'' then
                 (if adding then
                    (if \<not> hasParam msg 2 then one_reply fd (needMoreParams c ''MODE'') s
                     else let modeArg = getSingleParam msg 2
                          in announceMode client x channelName modeToken modeArg (setKey modeArg) s)
                  else announceMode client x channelName modeToken [] unSetKey s)
               else if mode = CHR ''l'' then
                 (if adding then
                    (if \<not> hasParam msg 2 then one_reply fd (needMoreParams c ''MODE'') s
                     else let modeArg = getSingleParam msg 2 in
                       case parsePositiveLimit modeArg of
                         None \<Rightarrow> one_reply fd (invalidModeParam c channelName modeToken modeArg) s
                       | Some limit \<Rightarrow> announceMode client x channelName modeToken modeArg (setLimit limit) s)
                  else announceMode client x channelName modeToken [] unSetLimit s)
               else if mode = CHR ''o'' then applyOperatorMode fd msg client x channelName modeToken s
               else announceMode client x channelName modeToken [] (\<lambda>m. m) s
         }
   }"

section \<open>Properties\<close>

text \<open>C27: MODE +l accepts exactly the limits an \<open>int\<close> can hold: whatever is accepted lies between 1
  and \<open>INT_MAX\<close>, and every such number, written in decimal, is read back as itself.\<close>

theorem limit_parsing:
  "(parsePositiveLimit value = Some k \<longrightarrow> 1 \<le> k \<and> k \<le> 2147483647)
   \<and> (1 \<le> n \<and> n \<le> 2147483647 \<longrightarrow> parsePositiveLimit (int_to_string n) = Some n)"
proof (rule conjI; rule impI)
  assume "parsePositiveLimit value = Some k"
  then show "1 \<le> k \<and> k \<le> 2147483647"
    by (auto simp: parsePositiveLimit_def INT_MAX_def Let_def split: if_splits prod.splits)
next
  assume n: "1 \<le> n \<and> n \<le> 2147483647"
  then have "digits_value 0 (nat_to_string (nat n)) = n" by (simp add: digits_value_nat_to_string)
  with n strtol10_digits [OF nat_to_string_digits, of "nat n"] show "parsePositiveLimit (int_to_string n) = Some n"
    by (simp add: parsePositiveLimit_def int_to_string_def INT_MAX_def LONG_MAX_def)
qed

theorem limit_parsing_witness: "parsePositiveLimit ''2147483647'' = Some 2147483647"
proof -
  have "int_to_string 2147483647 = ''2147483647''"
    by (simp add: int_to_string_def nat_to_string.simps char_of_def bit_0)
  then show ?thesis using limit_parsing [of "[]" 0 2147483647] by simp
qed

end
