(* ===== verification/HealthMonitor.thy ===== *)
theory HealthMonitor
  imports ReplyBuilder
begin

text \<open>
  \<open>ConnectionHealthMonitor\<close> (\<open>src/src/lifecycle/ConnectionHealthMonitor.cpp\<close>): the
  ping/pong bookkeeping of each connection. The clock is a parameter: every operation takes the
  time \<open>now\<close>, which the source reads with \<open>std::time(NULL)\<close> in its shorter overloads.
\<close>

section \<open>State and operations\<close>

type_synonym time_t = int

record health_state =
  lastActivity :: time_t
  waitingForPong :: bool
  lastPingSentAt :: time_t
  lastPongReceivedAt :: time_t
  expectedPongToken :: string

definition new_HealthState :: "time_t \<Rightarrow> health_state" where
  "new_HealthState activityTime = \<lparr>lastActivity = activityTime, waitingForPong = False,
     lastPingSentAt = 0, lastPongReceivedAt = 0, expectedPongToken = []\<rparr>"

record health_monitor =
  hm_timeoutSeconds :: time_t
  hm_clients :: "(int \<times> health_state) list"

definition DEFAULT_TIMEOUT_SECONDS :: time_t where
  "DEFAULT_TIMEOUT_SECONDS = 120"

definition new_HealthMonitor :: "time_t \<Rightarrow> health_monitor" where
  "new_HealthMonitor timeoutSeconds = \<lparr>hm_timeoutSeconds = timeoutSeconds, hm_clients = []\<rparr>"

definition health_of :: "health_monitor \<Rightarrow> int \<Rightarrow> health_state option" where
  "health_of m fd = omap_find (<) (hm_clients m) fd"

text \<open>\<open>getOrCreateState\<close> returns a reference into the map; the caller writes through it.\<close>

definition getOrCreateState :: "int \<Rightarrow> time_t \<Rightarrow> health_monitor \<Rightarrow> health_state \<times> health_monitor" where
  "getOrCreateState fd now m = (case omap_find (<) (hm_clients m) fd of
     Some st \<Rightarrow> (st, m)
   | None \<Rightarrow> (new_HealthState now,
       m\<lparr>hm_clients := omap_insert (<) fd (new_HealthState now) (hm_clients m)\<rparr>))"

definition put_state :: "int \<Rightarrow> health_state \<Rightarrow> health_monitor \<Rightarrow> health_monitor" where
  "put_state fd st m = m\<lparr>hm_clients := omap_put (<) fd st (hm_clients m)\<rparr>"

definition updateActivity :: "int \<Rightarrow> time_t \<Rightarrow> health_monitor \<Rightarrow> health_monitor" where
  "updateActivity fd now m =
     (let (st, m1) = getOrCreateState fd now m in put_state fd (st\<lparr>lastActivity := now\<rparr>) m1)"

definition makePingToken :: "int \<Rightarrow> time_t \<Rightarrow> string" where
  "makePingToken fd now = ''irc.local-'' @ int_to_string fd @ ''-'' @ int_to_string now"

definition generatePing :: "int \<Rightarrow> time_t \<Rightarrow> health_monitor \<Rightarrow> command_result \<times> health_monitor" where
  "generatePing fd now m =
     (let (st, m1) = getOrCreateState fd now m;
          st1 = st\<lparr>lastActivity := now, waitingForPong := True, lastPingSentAt := now,
                  expectedPongToken := makePingToken fd now\<rparr>
      in (addReply fd (reply_ping (expectedPongToken st1)) new_CommandResult, put_state fd st1 m1))"

definition markPongReceived :: "int \<Rightarrow> string \<Rightarrow> time_t \<Rightarrow> health_monitor \<Rightarrow> health_monitor" where
  "markPongReceived fd token now m =
     (let (st, m1) = getOrCreateState fd now m;
          st1 = st\<lparr>lastActivity := now\<rparr>;
          st2 = (if waitingForPong st1 \<and> token = expectedPongToken st1
            then st1\<lparr>waitingForPong := False, lastPongReceivedAt := now, expectedPongToken := []\<rparr>
            else st1)
      in put_state fd st2 m1)"

definition hasTimedOut :: "health_monitor \<Rightarrow> int \<Rightarrow> time_t \<Rightarrow> bool" where
  "hasTimedOut m fd now = (case omap_find (<) (hm_clients m) fd of
     None \<Rightarrow> False
   | Some st \<Rightarrow> waitingForPong st \<and> now - lastPingSentAt st > hm_timeoutSeconds m)"

definition collectTimedOutClients :: "health_monitor \<Rightarrow> time_t \<Rightarrow> int list" where
  "collectTimedOutClients m now = filter (\<lambda>fd. hasTimedOut m fd now) (map fst (hm_clients m))"

definition hm_removeClient :: "int \<Rightarrow> health_monitor \<Rightarrow> health_monitor" where
  "hm_removeClient fd m = m\<lparr>hm_clients := omap_erase (<) fd (hm_clients m)\<rparr>"

definition isWaitingForPong :: "health_monitor \<Rightarrow> int \<Rightarrow> bool" where
  "isWaitingForPong m fd = (case omap_find (<) (hm_clients m) fd of
     None \<Rightarrow> False | Some st \<Rightarrow> waitingForPong st)"

definition getExpectedPongToken :: "health_monitor \<Rightarrow> int \<Rightarrow> string" where
  "getExpectedPongToken m fd = (case omap_find (<) (hm_clients m) fd of
     None \<Rightarrow> [] | Some st \<Rightarrow> expectedPongToken st)"

section \<open>What the operations do\<close>

definition hm_wf :: "health_monitor \<Rightarrow> bool" where
  "hm_wf m \<longleftrightarrow> omap_wf (<) (hm_clients m)"

definition state_or_new :: "health_monitor \<Rightarrow> int \<Rightarrow> time_t \<Rightarrow> health_state" where
  "state_or_new m fd now = (case health_of m fd of Some st \<Rightarrow> st | None \<Rightarrow> new_HealthState now)"

lemma hm_wf_ops [simp]:
  "hm_wf (new_HealthMonitor t)"
  "hm_wf m \<Longrightarrow> hm_wf (updateActivity fd now m)"
  "hm_wf m \<Longrightarrow> hm_wf (snd (generatePing fd now m))"
  "hm_wf m \<Longrightarrow> hm_wf (markPongReceived fd token now m)"
  "hm_wf m \<Longrightarrow> hm_wf (hm_removeClient fd m)"
  by (auto simp: hm_wf_def new_HealthMonitor_def updateActivity_def generatePing_def
      markPongReceived_def hm_removeClient_def put_state_def getOrCreateState_def Let_def
      split: option.split)

lemma hm_timeout_ops [simp]:
  "hm_timeoutSeconds (updateActivity fd now m) = hm_timeoutSeconds m"
  "hm_timeoutSeconds (snd (generatePing fd now m)) = hm_timeoutSeconds m"
  "hm_timeoutSeconds (markPongReceived fd token now m) = hm_timeoutSeconds m"
  "hm_timeoutSeconds (hm_removeClient fd m) = hm_timeoutSeconds m"
  by (auto simp: updateActivity_def generatePing_def
      markPongReceived_def hm_removeClient_def put_state_def getOrCreateState_def Let_def
      split: option.split)

lemma put_after_create:
  assumes "hm_wf m" "getOrCreateState fd now m = (st, m1)"
  shows "st = state_or_new m fd now" "health_of (put_state fd st' m1) = (health_of m)(fd := Some st')"
  using assms by (auto simp: hm_wf_def getOrCreateState_def put_state_def health_of_def
      state_or_new_def fun_eq_iff split: option.splits)

lemma health_of_ops:
  assumes "hm_wf m"
  shows "health_of (updateActivity fd now m) =
      (health_of m)(fd := Some ((state_or_new m fd now)\<lparr>lastActivity := now\<rparr>))"
    and "health_of (snd (generatePing fd now m)) =
      (health_of m)(fd := Some ((state_or_new m fd now)\<lparr>lastActivity := now, waitingForPong := True,
         lastPingSentAt := now, expectedPongToken := makePingToken fd now\<rparr>))"
    and "health_of (markPongReceived fd token now m) = (health_of m)(fd := Some (
      let st = state_or_new m fd now in
      if waitingForPong st \<and> token = expectedPongToken st
      then st\<lparr>lastActivity := now, waitingForPong := False, lastPongReceivedAt := now, expectedPongToken := []\<rparr>
      else st\<lparr>lastActivity := now\<rparr>))"
    and "health_of (hm_removeClient fd m) = (health_of m)(fd := None)"
  using put_after_create [OF assms, of fd now] assms
  by (auto simp: updateActivity_def generatePing_def markPongReceived_def Let_def hm_removeClient_def
      health_of_def hm_wf_def split: prod.split)

lemma monitor_views:
  "hasTimedOut m fd now = (case health_of m fd of None \<Rightarrow> False
     | Some st \<Rightarrow> waitingForPong st \<and> now - lastPingSentAt st > hm_timeoutSeconds m)"
  "isWaitingForPong m fd = (case health_of m fd of None \<Rightarrow> False | Some st \<Rightarrow> waitingForPong st)"
  "getExpectedPongToken m fd = (case health_of m fd of None \<Rightarrow> [] | Some st \<Rightarrow> expectedPongToken st)"
  by (simp_all add: hasTimedOut_def isWaitingForPong_def getExpectedPongToken_def health_of_def)

lemma set_collectTimedOutClients:
  assumes "hm_wf m"
  shows "fd \<in> set (collectTimedOutClients m now) \<longleftrightarrow> hasTimedOut m fd now"
proof
  assume "hasTimedOut m fd now"
  then obtain st where "omap_find (<) (hm_clients m) fd = Some st"
    by (auto simp: hasTimedOut_def split: option.splits)
  then have "fd \<in> fst ` set (hm_clients m)"
    using omap_find_in_set [of "(<)" "hm_clients m" fd st] by (force simp: image_iff)
  with \<open>hasTimedOut m fd now\<close> show "fd \<in> set (collectTimedOutClients m now)"
    by (simp add: collectTimedOutClients_def)
qed (simp add: collectTimedOutClients_def)

lemma distinct_collectTimedOutClients: "hm_wf m \<Longrightarrow> distinct (collectTimedOutClients m now)"
  by (simp add: collectTimedOutClients_def hm_wf_def omap_wf_def strict_sorted_iff)

text \<open>A monitor on which \<open>generatePing\<close> is never called waits for nobody.\<close>

definition hm_idle :: "health_monitor \<Rightarrow> bool" where
  "hm_idle m \<longleftrightarrow> (\<forall>fd st. health_of m fd = Some st \<longrightarrow> \<not> waitingForPong st)"

lemma hm_idle_ops:
  "hm_idle (new_HealthMonitor t)"
  "hm_wf m \<Longrightarrow> hm_idle m \<Longrightarrow> hm_idle (updateActivity fd now m)"
  "hm_wf m \<Longrightarrow> hm_idle m \<Longrightarrow> hm_idle (markPongReceived fd token now m)"
  "hm_wf m \<Longrightarrow> hm_idle m \<Longrightarrow> hm_idle (hm_removeClient fd m)"
  by (auto simp: hm_idle_def health_of_ops state_or_new_def Let_def new_HealthState_def
      split: option.splits if_splits) (simp add: health_of_def new_HealthMonitor_def)

lemma hm_idle_no_timeout: "hm_idle m \<Longrightarrow> collectTimedOutClients m now = []"
  by (auto simp: collectTimedOutClients_def filter_empty_conv monitor_views hm_idle_def split: option.splits)

end
