(* ===== verification/CommandDispatcher.thy ===== *)
theory CommandDispatcher
  imports ChannelCommands HealthMonitor
begin

text \<open>
  \<open>CommandDispatcher\<close> and \<open>DisconnectNotifier\<close>
  (\<open>src/src/b/CommandDispatcher.cpp\<close>, \<open>src/src/b/DisconnectNotifier.cpp\<close>): the
  remaining commands, the dispatch on the command word, and the QUIT message sent to everybody who
  shared a channel with a disconnected client.
\<close>

section \<open>Registration\<close>

definition maybeRegister :: "addr \<Rightarrow> command_result \<Rightarrow> 'z server_state_scheme \<Rightarrow> (command_result \<times> 'z server_state_scheme) option" where
  "maybeRegister client result s = do {
     c \<leftarrow> deref_client s client;
     if \<not> isRegistered c \<and> canRegister c then do {
       s1 \<leftarrow> update_client client markRegistered s;
       c1 \<leftarrow> deref_client s1 client;
       Some (addReply (cl_fd c1) (reply_welcome c1) result, s1)
     }
     else Some (result, s)
   }"

definition handlePass :: "int \<Rightarrow> message \<Rightarrow> addr \<Rightarrow> 'z server_state_scheme \<Rightarrow> (command_result \<times> 'z server_state_scheme) option" where
  "handlePass fd msg client s = do {
     c \<leftarrow> deref_client s client;
     if \<not> hasParam msg 0 then one_reply fd (needMoreParams c ''PASS'') s
     else if isRegistered c then one_reply fd (alreadyRegistered c) s
     else if getSingleParam msg 0 \<noteq> getPassword s then one_reply fd passwordMismatch s
     else do {
       s1 \<leftarrow> update_client client (setPassOk True) s;
       Some (new_CommandResult, s1)
     }
   }"

definition handleNick :: "int \<Rightarrow> message \<Rightarrow> addr \<Rightarrow> 'z server_state_scheme \<Rightarrow> (command_result \<times> 'z server_state_scheme) option" where
  "handleNick fd msg client s = do {
     c \<leftarrow> deref_client s client;
     if \<not> hasParam msg 0 then one_reply fd (needMoreParams c ''NICK'') s
     else let nick = getSingleParam msg 0 in
       if \<not> isValidNickname nick then one_reply fd (erroneousNickname c nick) s
       else do {
         (ok, s1) \<leftarrow> updateNick client nick s;
         if \<not> ok then one_reply fd (nickInUse nick) s1
         else maybeRegister client new_CommandResult s1
       }
   }"

definition handleUser :: "int \<Rightarrow> message \<Rightarrow> addr \<Rightarrow> 'z server_state_scheme \<Rightarrow> (command_result \<times> 'z server_state_scheme) option" where
  "handleUser fd msg client s = do {
     c \<leftarrow> deref_client s client;
     if getParamCount msg < 4 then one_reply fd (needMoreParams c ''USER'') s
     else if isRegistered c then one_reply fd (alreadyRegistered c) s
     else do {
       s1 \<leftarrow> update_client client (setUsername (getSingleParam msg 0)) s;
       s2 \<leftarrow> update_client client (setRealname (getSingleParam msg 3)) s1;
       maybeRegister client new_CommandResult s2
     }
   }"

section \<open>Channels and messages\<close>

text \<open>The checks of \<open>handleJoin\<close> on an existing channel the client is not in: the reply that
  refuses the client, if any.\<close>

definition join_refusal :: "client \<Rightarrow> addr \<Rightarrow> message \<Rightarrow> string \<Rightarrow> channel \<Rightarrow> string option" where
  "join_refusal c client msg channelName h =
     (if hasMember h client then None
      else if isInviteOnly (ch_modes h) \<and> \<not> isInvited h client then Some (inviteOnlyChan c channelName)
      else if hasKey (ch_modes h) \<and> (\<not> hasParam msg 1 \<or> getSingleParam msg 1 \<noteq> getKey (ch_modes h))
        then Some (badChannelKey c channelName)
      else if getLimit (ch_modes h) \<ge> 0 \<and> memberCount h \<ge> nat (getLimit (ch_modes h))
        then Some (channelIsFull c channelName)
      else None)"

definition handleJoin :: "int \<Rightarrow> message \<Rightarrow> addr \<Rightarrow> 'z server_state_scheme \<Rightarrow> (command_result \<times> 'z server_state_scheme) option" where
  "handleJoin fd msg client s = do {
     c \<leftarrow> deref_client s client;
     if \<not> isRegistered c then one_reply fd (noRegistered c) s
     else if \<not> hasParam msg 0 then one_reply fd (needMoreParams c ''JOIN'') s
     else let channelName = getSingleParam msg 0 in
       if \<not> isValidChannelName channelName then one_reply fd (noSuchChannel c channelName) s
       else do {
         refusal \<leftarrow> (case getChannel s channelName of
             None \<Rightarrow> Some None
           | Some x \<Rightarrow> do { h \<leftarrow> deref_channel s x; Some (join_refusal c client msg channelName h) });
         case refusal of
           Some text \<Rightarrow> one_reply fd text s
         | None \<Rightarrow> do {
             (channel, s1) \<leftarrow> addClientToChannel (Some client) channelName s;
             case channel of
               None \<Rightarrow> one_reply fd (noSuchChannel c channelName) s1
             | Some x \<Rightarrow> do {
                 c1 \<leftarrow> deref_client s1 client;
                 h \<leftarrow> deref_channel s1 x;
                 result \<leftarrow> addRepliesToMembers s1 (getMembers h)
                   (reply_join (getFullPrefix c1) ''JOIN'' channelName) (-1) new_CommandResult;
                 names \<leftarrow> nameReply s1 c1 h;
                 Some (addReply fd (endOfNames c1 channelName)
                   (addReply fd names
                     (addReply fd (if ch_topic h = [] then noTopic c1 channelName
                                   else topicReply c1 channelName (ch_topic h)) result)), s1)
               }
           }
       }
   }"

definition handlePart :: "int \<Rightarrow> message \<Rightarrow> addr \<Rightarrow> 'z server_state_scheme \<Rightarrow> (command_result \<times> 'z server_state_scheme) option" where
  "handlePart fd msg client s = do {
     c \<leftarrow> deref_client s client;
     if \<not> isRegistered c then one_reply fd (noRegistered c) s
     else if \<not> hasParam msg 0 then one_reply fd (needMoreParams c ''PART'') s
     else let channelName = getSingleParam msg 0 in
       if \<not> isValidChannelName channelName then one_reply fd (noSuchChannel c channelName) s
       else case getChannel s channelName of
         None \<Rightarrow> one_reply fd (noSuchChannel c channelName) s
       | Some x \<Rightarrow> do {
           h \<leftarrow> deref_channel s x;
           if \<not> hasMember h client then one_reply fd (notOnChannel c channelName) s
           else do {
             result \<leftarrow> addRepliesToMembers s (getMembers h)
               (reply_part (getFullPrefix c) ''PART'' channelName) (-1) new_CommandResult;
             s1 \<leftarrow> removeClientFromChannel (Some client) channelName s;
             Some (result, s1)
           }
         }
   }"

text \<open>An error reply of \<open>handleTextMessage\<close>, which NOTICE suppresses.\<close>

definition error_reply :: "bool \<Rightarrow> int \<Rightarrow> string \<Rightarrow> 's \<Rightarrow> (command_result \<times> 's) option" where
  "error_reply replyOnError fd text s =
     (if replyOnError then one_reply fd text s else Some (new_CommandResult, s))"

definition is_channel_target :: "string \<Rightarrow> bool" where
  "is_channel_target targetName \<longleftrightarrow> targetName \<noteq> [] \<and> targetName ! 0 = CHR ''#''"

definition handleTextMessage :: "int \<Rightarrow> message \<Rightarrow> addr \<Rightarrow> string \<Rightarrow> bool \<Rightarrow> 'z server_state_scheme \<Rightarrow> (command_result \<times> 'z server_state_scheme) option" where
  "handleTextMessage fd msg client command replyOnError s = do {
     c \<leftarrow> deref_client s client;
     if \<not> isRegistered c then error_reply replyOnError fd (noRegistered c) s
     else if getParamCount msg < 2 then error_reply replyOnError fd (needMoreParams c command) s
     else let targetName = getSingleParam msg 0; body = getSingleParam msg 1 in
       if is_channel_target targetName \<and> \<not> isValidChannelName targetName
         then error_reply replyOnError fd (noSuchChannel c targetName) s
       else if \<not> is_channel_target targetName \<and> \<not> isValidNickname targetName
         then error_reply replyOnError fd (noSuchNick c targetName) s
       else let line = (if command = ''NOTICE''
                then reply_notice (getFullPrefix c) command targetName body
                else reply_privmsg (getFullPrefix c) command targetName body) in
         if is_channel_target targetName then
           (case getChannel s targetName of
              None \<Rightarrow> error_reply replyOnError fd (noSuchChannel c targetName) s
            | Some x \<Rightarrow> do {
                h \<leftarrow> deref_channel s x;
                if \<not> hasMember h client then error_reply replyOnError fd (cannotSendToChan c targetName) s
                else do {
                  result \<leftarrow> addRepliesToMembers s (getMembers h) line fd new_CommandResult;
                  Some (result, s)
                }
              })
         else
           (case getClientByNick s targetName of
              None \<Rightarrow> error_reply replyOnError fd (noSuchNick c targetName) s
            | Some targetClient \<Rightarrow> do {
                t \<leftarrow> deref_client s targetClient;
                Some (addReply (cl_fd t) line new_CommandResult, s)
              })
   }"

definition handlePrivmsg :: "int \<Rightarrow> message \<Rightarrow> addr \<Rightarrow> 'z server_state_scheme \<Rightarrow> (command_result \<times> 'z server_state_scheme) option" where
  "handlePrivmsg fd msg client s = handleTextMessage fd msg client ''PRIVMSG'' True s"

definition handleNotice :: "int \<Rightarrow> message \<Rightarrow> addr \<Rightarrow> 'z server_state_scheme \<Rightarrow> (command_result \<times> 'z server_state_scheme) option" where
  "handleNotice fd msg client s = handleTextMessage fd msg client ''NOTICE'' False s"

definition handleQuit :: "'s \<Rightarrow> (command_result \<times> 's) option" where
  "handleQuit s = Some (new_CommandResult\<lparr>shouldDisconnect := True\<rparr>, s)"

definition handlePong :: "int \<Rightarrow> message \<Rightarrow> client \<Rightarrow> health_monitor option \<Rightarrow> time_t \<Rightarrow> command_result \<times> health_monitor option" where
  "handlePong fd msg client healthMonitor now =
     (if \<not> hasParam msg 0 then (addReply fd (needMoreParams client ''PONG'') new_CommandResult, healthMonitor)
      else (new_CommandResult,
        map_option (markPongReceived fd (getSingleParam msg (getParamCount msg - 1)) now) healthMonitor))"

section \<open>Dispatch\<close>

text \<open>\<open>healthMonitor\<close> is the pointer of the source, \<open>None\<close> for null.\<close>

definition dispatch ::
    "int \<Rightarrow> message \<Rightarrow> health_monitor option \<Rightarrow> time_t \<Rightarrow> 'z server_state_scheme \<Rightarrow>
     (command_result \<times> 'z server_state_scheme \<times> health_monitor option) option" where
  "dispatch fd msg healthMonitor now s = (case getClientByFd s fd of
     None \<Rightarrow> Some (new_CommandResult, s, healthMonitor)
   | Some client \<Rightarrow> do {
       c \<leftarrow> deref_client s client;
       let command = msg_command msg;
       let keep = (\<lambda>m. do { (r, s1) \<leftarrow> m; Some (r, s1, healthMonitor) });
       if command = ''PING'' then
         keep (if \<not> hasParam msg 0 then one_reply fd (needMoreParams c command) s
               else one_reply fd (reply_pong (getSingleParam msg 0)) s)
       else if command = ''QUIT'' then keep (handleQuit s)
       else if command = ''PASS'' then keep (handlePass fd msg client s)
       else if command = ''NICK'' then
         keep (if \<not> isPassOk c then one_reply fd passwordMismatch s else handleNick fd msg client s)
       else if command = ''USER'' then
         keep (if \<not> isPassOk c then one_reply fd passwordMismatch s else handleUser fd msg client s)
       else if command = ''JOIN'' then keep (handleJoin fd msg client s)
       else if command = ''PART'' then keep (handlePart fd msg client s)
       else if command = ''PRIVMSG'' then keep (handlePrivmsg fd msg client s)
       else if command = ''NOTICE'' then keep (handleNotice fd msg client s)
       else if command = ''KICK'' then keep (handleKick fd msg client s)
       else if command = ''INVITE'' then keep (handleInvite fd msg client s)
       else if command = ''TOPIC'' then keep (handleTopic fd msg client s)
       else if command = ''MODE'' then keep (handleMode fd msg client s)
       else if command = ''PONG'' then
         (case handlePong fd msg c healthMonitor now of (r, hm) \<Rightarrow> Some (r, s, hm))
       else if command \<noteq> [] then keep (one_reply fd (unknownCommand c command) s)
       else Some (new_CommandResult, s, healthMonitor)
     })"

section \<open>DisconnectNotifier\<close>

record disconnect_event =
  de_fd :: int
  de_reason :: string

definition new_DisconnectEvent :: "int \<Rightarrow> string \<Rightarrow> disconnect_event" where
  "new_DisconnectEvent clientFd disconnectReason = \<lparr>de_fd = clientFd, de_reason = disconnectReason\<rparr>"

text \<open>The inner loop over the members of one channel; \<open>notifiedFds\<close> is the set of descriptors
  already notified.\<close>

primrec notify_members :: "'z memory_scheme \<Rightarrow> int \<Rightarrow> string \<Rightarrow> addr list \<Rightarrow> int list \<times> command_result \<Rightarrow> (int list \<times> command_result) option" where
  "notify_members s fd text [] acc = Some acc"
| "notify_members s fd text (member # members) acc =
     (if member = 0 then notify_members s fd text members acc
      else do {
        m \<leftarrow> deref_client s member;
        if cl_fd m = fd then notify_members s fd text members acc
        else if cl_fd m \<in> set (fst acc) then notify_members s fd text members acc
        else notify_members s fd text members
          (insort (cl_fd m) (fst acc), addReply (cl_fd m) text (snd acc))
      })"

primrec notify_channels :: "'z memory_scheme \<Rightarrow> int \<Rightarrow> string \<Rightarrow> addr list \<Rightarrow> int list \<times> command_result \<Rightarrow> (int list \<times> command_result) option" where
  "notify_channels s fd text [] acc = Some acc"
| "notify_channels s fd text (channel # channels) acc =
     (if channel = 0 then notify_channels s fd text channels acc
      else do {
        h \<leftarrow> deref_channel s channel;
        acc1 \<leftarrow> notify_members s fd text (getMembers h) acc;
        notify_channels s fd text channels acc1
      })"

definition DisconnectNotifier_build :: "disconnect_event \<Rightarrow> 'z server_state_scheme \<Rightarrow> command_result option" where
  "DisconnectNotifier_build event s = (case getClientByFd s (de_fd event) of
     None \<Rightarrow> Some new_CommandResult
   | Some client \<Rightarrow> do {
       c \<leftarrow> deref_client s client;
       let quitMessage = reply_quit (getFullPrefix c) (de_reason event);
       acc \<leftarrow> notify_channels s (de_fd event) quitMessage (getChannels c) ([], new_CommandResult);
       Some (snd acc)
     })"

end
