(* ===== verification/HandlerSafety.thy ===== *)
theory HandlerSafety
  imports CommandDispatcher
begin

text \<open>
  The contract every command handler keeps. Called with the address of a live client, a handler
  returns (no dangling pointer is read), keeps the invariant of the state, leaves the table of
  connections and the password alone, answers connected clients only, and, if neither the state nor
  the message contains a line feed, produces replies that are exactly one protocol line each and
  stores no line feed. The contract is a locale; every handler is an interpretation of it.
\<close>

section \<open>Texts stored in the state\<close>

definition channel_clean :: "channel \<Rightarrow> bool" where
  "channel_clean h \<longleftrightarrow> clean (ch_name h) \<and> clean (ch_topic h) \<and> clean (cm_key (ch_modes h))"

definition text_inv :: "(addr \<rightharpoonup> client) \<Rightarrow> (addr \<rightharpoonup> channel) \<Rightarrow> bool" where
  "text_inv C H \<longleftrightarrow> (\<forall>a c. C a = Some c \<longrightarrow> client_clean c) \<and> (\<forall>x h. H x = Some h \<longrightarrow> channel_clean h)"

definition state_clean :: "'z server_state_scheme \<Rightarrow> bool" where
  "state_clean s \<longleftrightarrow> text_inv (deref_client s) (deref_channel s)"

definition msg_clean :: "message \<Rightarrow> bool" where
  "msg_clean m \<longleftrightarrow> clean (msg_command m) \<and> list_all clean (msg_params m)"

lemma getSingleParam_clean [simp]: "msg_clean m \<Longrightarrow> clean (getSingleParam m i)"
  by (auto simp: msg_clean_def getSingleParam_def list_all_length)

lemma msg_command_clean [simp]: "msg_clean m \<Longrightarrow> clean (msg_command m)"
  by (simp add: msg_clean_def)

lemma live_clean:
  "state_clean s \<Longrightarrow> deref_client s a = Some c \<Longrightarrow> client_clean c"
  "state_clean s \<Longrightarrow> deref_channel s x = Some h \<Longrightarrow> channel_clean h"
  by (auto simp: state_clean_def text_inv_def)

lemma text_inv_upd [intro]:
  "text_inv C H \<Longrightarrow> client_clean c \<Longrightarrow> text_inv (C(a := Some c)) H"
  "text_inv C H \<Longrightarrow> channel_clean h \<Longrightarrow> text_inv C (H(x := Some h))"
  "text_inv C H \<Longrightarrow> text_inv (C(a := None)) H"
  "text_inv C H \<Longrightarrow> text_inv C (H(x := None))"
  by (auto simp: text_inv_def)

lemma channel_clean_ops [simp]:
  "clean n \<Longrightarrow> channel_clean (new_Channel n)"
  "channel_clean h \<Longrightarrow> clean t \<Longrightarrow> channel_clean (setTopic t h)"
  "channel_clean (removeInvite a h) = channel_clean h"
  "channel_clean (addInvite a h) = channel_clean h"
  "channel_clean (unsafe_addMember a h) = channel_clean h"
  "channel_clean (unsafe_removeClientState a h) = channel_clean h"
  "channel_clean (setOperator a b h) = channel_clean h"
  "channel_clean (channel_after_join a h) = channel_clean h"
  "channel_clean h \<Longrightarrow> channel_clean (h\<lparr>ch_modes := setInviteOnly b (ch_modes h)\<rparr>)"
  "channel_clean h \<Longrightarrow> channel_clean (h\<lparr>ch_modes := setTopicRestricted b (ch_modes h)\<rparr>)"
  "channel_clean h \<Longrightarrow> clean k \<Longrightarrow> channel_clean (h\<lparr>ch_modes := setKey k (ch_modes h)\<rparr>)"
  "channel_clean h \<Longrightarrow> channel_clean (h\<lparr>ch_modes := setLimit l (ch_modes h)\<rparr>)"
  "channel_clean h \<Longrightarrow> channel_clean (h\<lparr>ch_modes := unSetKey (ch_modes h)\<rparr>)"
  "channel_clean h \<Longrightarrow> channel_clean (h\<lparr>ch_modes := unSetLimit (ch_modes h)\<rparr>)"
  by (auto simp: channel_clean_def channel_modes_defs) (auto simp: new_Channel_def new_ChannelModes_def)

lemma client_clean_ops [simp]:
  "client_clean (unsafe_joinChannel x c) = client_clean c"
  "client_clean (unsafe_leaveChannel x c) = client_clean c"
  "client_clean (client_after_join x c) = client_clean c"
  "client_clean (setPassOk b c) = client_clean c"
  "client_clean (markRegistered c) = client_clean c"
  "client_clean c \<Longrightarrow> clean n \<Longrightarrow> client_clean (c\<lparr>cl_nickname := n\<rparr>)"
  "client_clean c \<Longrightarrow> clean n \<Longrightarrow> client_clean (setUsername n c)"
  "client_clean c \<Longrightarrow> clean n \<Longrightarrow> client_clean (setRealname n c)"
  by (auto simp: client_clean_def client_defs client_after_join_def)

lemma channel_clean_facts [simp]:
  "channel_clean h \<Longrightarrow> clean (ch_name h)" "channel_clean h \<Longrightarrow> clean (ch_topic h)"
  "channel_clean h \<Longrightarrow> clean (getKey (ch_modes h))"
  by (simp_all add: channel_clean_def getKey_def)

lemma clean_digits: "list_all is_decimal_digit t \<Longrightarrow> clean t"
  by (induction t) (auto simp: is_decimal_digit_def uchar_def)

lemma clean_int_to_string [simp]: "clean (int_to_string i)"
  using nat_to_string_digits by (auto simp: int_to_string_def intro: clean_digits)

lemma buildChannelModeQuery_clean:
  "buildChannelModeQuery h = (modes, args) \<Longrightarrow> channel_clean h \<Longrightarrow> clean modes \<and> clean args"
  by (auto simp: buildChannelModeQuery_def Let_def appendModeArg_def intToString_def
      split: if_splits)

section \<open>Replies to the members of a channel\<close>

definition fd_at :: "'z memory_scheme \<Rightarrow> addr \<Rightarrow> int" where
  "fd_at s a = (case deref_client s a of Some c \<Rightarrow> cl_fd c | None \<Rightarrow> 0)"

lemma addRepliesToMembers_run:
  assumes "\<And>a. a \<in> set ms \<Longrightarrow> deref_client s a \<noteq> None" "deref_client s 0 = None"
  shows "addRepliesToMembers s ms t ex r = Some (r\<lparr>replies := replies r @
    map (\<lambda>fd. (fd, t)) (filter (\<lambda>fd. fd \<noteq> ex) (map (fd_at s) ms))\<rparr>)"
  using assms(1)
proof (induction ms arbitrary: r)
  case (Cons a ms)
  then obtain c where c: "deref_client s a = Some c" by fastforce
  with assms(2) have "a \<noteq> 0" by (metis option.distinct(1))
  with Cons c show ?case by (simp add: fd_at_def addReply_def)
qed simp

lemma fd_at_connected:
  "core_inv s \<Longrightarrow> deref_client s a \<noteq> None \<Longrightarrow> getClientByFd s (fd_at s a) = Some a"
  using fd_of_live by (fastforce simp: fd_at_def)

lemma members_live:
  "core_inv s \<Longrightarrow> deref_channel s x = Some h \<Longrightarrow> a \<in> set (getMembers h) \<Longrightarrow> deref_client s a \<noteq> None"
  using live_member by (fastforce simp: set_getMembers)

lemma addRepliesToMembers_members:
  assumes "core_inv s" "deref_channel s x = Some h"
  shows "addRepliesToMembers s (getMembers h) t ex r = Some (r\<lparr>replies := replies r @
    map (\<lambda>fd. (fd, t)) (filter (\<lambda>fd. fd \<noteq> ex) (map (fd_at s) (getMembers h)))\<rparr>)"
  using assms by (intro addRepliesToMembers_run) (auto dest: members_live)

section \<open>The contract\<close>

definition replies_ok :: "message \<Rightarrow> 'z server_state_scheme \<Rightarrow> (int \<times> string) list \<Rightarrow> bool" where
  "replies_ok msg s rs \<longleftrightarrow> (\<forall>q \<in> set rs. getClientByFd s (fst q) \<noteq> None)
     \<and> (state_clean s \<and> msg_clean msg \<longrightarrow> (\<forall>q \<in> set rs. is_line (snd q)))"

definition handled :: "message \<Rightarrow> 'z server_state_scheme \<Rightarrow> command_result \<times> 'z server_state_scheme \<Rightarrow> bool" where
  "handled msg s p \<longleftrightarrow> state_inv (snd p) \<and> getClientByFd (snd p) = getClientByFd s
     \<and> ss_password (snd p) = ss_password s
     \<and> replies_ok msg s (replies (fst p))
     \<and> (shouldDisconnect (fst p) \<longrightarrow> msg_command msg = ''QUIT'')
     \<and> (state_clean s \<and> msg_clean msg \<longrightarrow> state_clean (snd p))"

lemma replies_ok_simps [simp]:
  "replies_ok msg s []"
  "replies_ok msg s (rs @ qs) \<longleftrightarrow> replies_ok msg s rs \<and> replies_ok msg s qs"
  "replies_ok msg s ((fd, t) # rs) \<longleftrightarrow> getClientByFd s fd \<noteq> None
     \<and> (state_clean s \<and> msg_clean msg \<longrightarrow> is_line t) \<and> replies_ok msg s rs"
  by (auto simp: replies_ok_def)

lemma replies_ok_members:
  assumes "core_inv s" "\<And>a. a \<in> set ms \<Longrightarrow> deref_client s a \<noteq> None" "getClientByFd s = getClientByFd s0"
    "state_clean s0 \<Longrightarrow> msg_clean msg \<Longrightarrow> is_line t"
  shows "replies_ok msg s0 (map (\<lambda>fd. (fd, t)) (filter P (map (fd_at s) ms)))"
  using assms fd_at_connected [OF assms(1)] by (auto simp: replies_ok_def)

lemma handled_one_reply [simp]:
  "state_inv s \<Longrightarrow> getClientByFd s fd \<noteq> None \<Longrightarrow> (state_clean s \<Longrightarrow> msg_clean msg \<Longrightarrow> is_line t) \<Longrightarrow>
     succeeds (one_reply fd t s) (handled msg s)"
  by (simp add: one_reply_def handled_def)

lemma handled_error_reply [simp]:
  "state_inv s \<Longrightarrow> getClientByFd s fd \<noteq> None \<Longrightarrow> (state_clean s \<Longrightarrow> msg_clean msg \<Longrightarrow> is_line t) \<Longrightarrow>
     succeeds (error_reply b fd t s) (handled msg s)"
  by (simp add: error_reply_def) (simp add: handled_def)

lemma handled_nothing [simp]: "state_inv s \<Longrightarrow> handled msg s (new_CommandResult, s)"
  by (simp add: handled_def)

locale handler =
  fixes handle :: "int \<Rightarrow> message \<Rightarrow> addr \<Rightarrow> 'z server_state_scheme \<Rightarrow> (command_result \<times> 'z server_state_scheme) option"
  assumes keeps_contract: "state_inv s \<Longrightarrow> deref_client s a = Some c \<Longrightarrow> cl_fd c = fd \<Longrightarrow>
    succeeds (handle fd msg a s) (handled msg s)"
begin

lemma returns:
  assumes "state_inv s" "deref_client s a = Some c" "cl_fd c = fd"
  obtains r s' where "handle fd msg a s = Some (r, s')" "handled msg s (r, s')"
  using keeps_contract [OF assms] unfolding succeeds_iff by (metis prod.collapse)

lemma keeps_inv:
  "state_inv s \<Longrightarrow> deref_client s a = Some c \<Longrightarrow> cl_fd c = fd \<Longrightarrow> handle fd msg a s = Some (r, s') \<Longrightarrow>
     state_inv s' \<and> getClientByFd s' = getClientByFd s \<and> ss_password s' = ss_password s"
  using keeps_contract [of s a c fd msg] by (simp add: handled_def)

end


section \<open>The channel commands\<close>

text \<open>What a handler knows when it runs: the caller is live and connected under \<open>fd\<close>.\<close>

lemma caller_facts:
  assumes "state_inv s" "deref_client s a = Some c" "cl_fd c = fd"
  shows "core_inv s" "getClientByFd s fd = Some a" "state_clean s \<Longrightarrow> client_clean c"
  using assms fd_of_live [of s a c] live_clean(1) [of s a c] by auto

lemma handled_leave:
  assumes "state_inv s" "deref_client s b = Some d" "getChannel s n = Some x"
    "deref_channel s x = Some h" "hasMember h b" "state_clean s \<Longrightarrow> msg_clean msg \<Longrightarrow> is_line t"
  shows "succeeds (do { result \<leftarrow> addRepliesToMembers s (getMembers h) t ex new_CommandResult;
      s1 \<leftarrow> removeClientFromChannel (Some b) n s; Some (result, s1) }) (handled msg s)"
proof -
  from assms(1) have core: "core_inv s" by blast
  have "replies_ok msg s (map (\<lambda>fd. (fd, t)) (filter (\<lambda>fd. fd \<noteq> ex) (map (fd_at s) (getMembers h))))"
    using assms(4,6) core members_live [OF core assms(4)] by (intro replies_ok_members) auto
  then show ?thesis
    using removeClientFromChannel_succeeds [OF assms(1-5)]
      live_clean(1) [OF _ assms(2)] live_clean(2) [OF _ assms(4)]
    by (auto simp: addRepliesToMembers_members [OF core assms(4)] handled_def state_clean_def
        intro!: text_inv_upd elim!: succeeds_mono)
qed

lemma with_live: "deref_client s a = Some c \<Longrightarrow> succeeds (f c) P \<Longrightarrow> succeeds (deref_client s a \<bind> f) P"
  by simp

lemma with_channel:
  assumes "core_inv s" "getChannel s n = None \<Longrightarrow> succeeds m P"
    "\<And>x h. getChannel s n = Some x \<Longrightarrow> deref_channel s x = Some h \<Longrightarrow> succeeds (f x h) P"
  shows "succeeds (case getChannel s n of None \<Rightarrow> m | Some x \<Rightarrow> deref_channel s x \<bind> f x) P"
  using assms live_by_name [OF assms(1)] by (fastforce split: option.split)

lemma with_nick:
  assumes "core_inv s" "getClientByNick s n = None \<Longrightarrow> succeeds m P"
    "\<And>b d. getClientByNick s n = Some b \<Longrightarrow> deref_client s b = Some d \<Longrightarrow> succeeds (f b) P"
  shows "succeeds (case getClientByNick s n of None \<Rightarrow> m | Some b \<Rightarrow> f b) P"
  using assms live_by_nick [OF assms(1)] by (fastforce split: option.split)

lemmas branches = with_channel with_nick succeeds_ifI

lemma handleKick_contract: "handler handleKick"
proof
  fix s :: "'z server_state_scheme" and a c fd msg
  assume inv: "state_inv s" and c: "deref_client s a = Some c" "cl_fd c = fd"
  note facts = caller_facts [OF inv c]
  show "succeeds (handleKick fd msg a s) (handled msg s)"
    unfolding handleKick_def Let_def
    by (intro with_live [OF c(1)] branches handled_leave [OF inv]) (use inv c facts in simp_all)
qed


lemma handleInvite_contract: "handler handleInvite"
proof
  fix s :: "'z server_state_scheme" and a c fd msg
  assume inv: "state_inv s" and c: "deref_client s a = Some c" "cl_fd c = fd"
  note facts = caller_facts [OF inv c]
  have final: "succeeds (do { s1 \<leftarrow> inviteClientToChannel (Some b) (Some x) s; d \<leftarrow> deref_client s1 b;
      Some (addReply (cl_fd d) t2 (addReply fd t1 new_CommandResult), s1) }) (handled msg s)"
    if "deref_client s b = Some d" "deref_channel s x = Some h" "\<not> hasMember h b"
      "state_clean s \<Longrightarrow> msg_clean msg \<Longrightarrow> is_line t1 \<and> is_line t2" for b d x h t1 t2
    using inviteClientToChannel_succeeds [OF inv that(1-3)] that(1,4) facts
      live_clean(2) [OF _ that(2)] fd_of_live [OF facts(1) that(1)]
    by (auto simp: handled_def state_clean_def intro!: text_inv_upd elim!: succeeds_mono)
  show "succeeds (handleInvite fd msg a s) (handled msg s)"
    unfolding handleInvite_def Let_def
    by (intro with_live [OF c(1)] branches final) (use inv c facts in simp_all)
qed

text \<open>Writing a channel and telling its members.\<close>

lemma handled_announce:
  assumes "state_inv s" "deref_channel s x = Some h" "state_inv (store_channel x (f h) s)"
    "state_clean s \<Longrightarrow> msg_clean msg \<Longrightarrow> channel_clean (f h) \<and> is_line t"
  shows "succeeds (do { s1 \<leftarrow> update_channel x f s; h1 \<leftarrow> deref_channel s1 x;
      result \<leftarrow> addRepliesToMembers s1 (getMembers h1) t ex new_CommandResult;
      Some (result, s1) }) (handled msg s)"
proof -
  let ?s1 = "store_channel x (f h) s"
  have core: "core_inv ?s1" using assms(3) by blast
  have h1: "deref_channel ?s1 x = Some (f h)" using assms(1) by simp
  have "replies_ok msg s (map (\<lambda>fd. (fd, t)) (filter (\<lambda>fd. fd \<noteq> ex) (map (fd_at ?s1) (getMembers (f h)))))"
    using assms(4) members_live [OF core h1] by (intro replies_ok_members [OF core]) auto
  with assms show ?thesis
    by (auto simp: update_channel_succeeds addRepliesToMembers_members [OF core h1] handled_def
        state_clean_def intro!: text_inv_upd)
qed

lemma state_inv_update:
  assumes "state_inv s" "deref_channel s x = Some h"
  shows "state_inv (store_channel x (setTopic t h) s)"
    "hasMember h b \<Longrightarrow> state_inv (store_channel x (setOperator b v h) s)"
    "modes_wf m \<Longrightarrow> state_inv (store_channel x (h\<lparr>ch_modes := m\<rparr>) s)"
  using assms member_invD(2,3) [OF core_invD(5) [OF state_invD(1) [OF assms(1)]] assms(2)]
  by (auto intro!: state_inv_store_channel)

lemma handleTopic_contract: "handler handleTopic"
proof
  fix s :: "'z server_state_scheme" and a c fd msg
  assume inv: "state_inv s" and c: "deref_client s a = Some c" "cl_fd c = fd"
  note facts = caller_facts [OF inv c]
  show "succeeds (handleTopic fd msg a s) (handled msg s)"
    unfolding handleTopic_def Let_def
    by (intro with_live [OF c(1)] branches handled_one_reply [OF inv] handled_announce [OF inv]; assumption?)
      (use inv c facts in \<open>auto intro: state_inv_update dest: live_clean(2)\<close>)
qed

lemma applyOperatorMode_contract:
  assumes inv: "state_inv s" and c: "deref_client s a = Some c" "cl_fd c = fd"
    and x: "deref_channel s x = Some h" and clean: "msg_clean msg \<Longrightarrow> clean n \<and> clean token"
  shows "succeeds (applyOperatorMode fd msg a x n token s) (handled msg s)"
proof -
  note facts = caller_facts [OF inv c]
  have chan: "succeeds (f h) P \<Longrightarrow> succeeds (deref_channel s x \<bind> f) P" for f P
    by (simp add: x)
  show ?thesis
    unfolding applyOperatorMode_def Let_def
    by (intro with_live [OF c(1)] chan branches handled_announce [OF inv]; assumption?)
      (use inv c facts clean x in \<open>auto intro: state_inv_update dest: live_clean(2)\<close>)
qed

lemma announceMode_contract:
  assumes inv: "state_inv s" and c: "deref_client s a = Some c" "cl_fd c = fd"
    and x: "deref_channel s x = Some h" and wf: "\<And>m. modes_wf m \<Longrightarrow> modes_wf (change m)"
    and clean: "msg_clean msg \<Longrightarrow> clean n \<and> clean token \<and> clean arg"
      "msg_clean msg \<Longrightarrow> channel_clean h \<Longrightarrow> channel_clean (h\<lparr>ch_modes := change (ch_modes h)\<rparr>)"
  shows "succeeds (announceMode a x n token arg change s) (handled msg s)"
proof -
  note facts = caller_facts [OF inv c]
  have "channel_wf h" using inv x by auto
  then have "modes_wf (ch_modes h)" by (simp add: channel_wf_def)
  then have "succeeds (do { s1 \<leftarrow> update_channel x (\<lambda>h. h\<lparr>ch_modes := change (ch_modes h)\<rparr>) s;
      h1 \<leftarrow> deref_channel s1 x;
      result \<leftarrow> addRepliesToMembers s1 (getMembers h1) (reply_mode (getFullPrefix c) n token arg) (-1) new_CommandResult;
      Some (result, s1) }) (handled msg s)"
    by (intro handled_announce [OF inv x])
      (use inv x facts wf clean live_clean(2) [OF _ x] in \<open>auto intro: state_inv_update\<close>)
  then show ?thesis
    by (simp add: announceMode_def update_channel_succeeds x c(1))
qed

lemma handleMode_contract: "handler handleMode"
proof
  fix s :: "'z server_state_scheme" and a c fd msg
  assume inv: "state_inv s" and c: "deref_client s a = Some c" "cl_fd c = fd"
  note facts = caller_facts [OF inv c]
  have query: "succeeds (case buildChannelModeQuery h of (modes, args) \<Rightarrow>
      one_reply fd (channelModeIs c n modes args) s) (handled msg s)"
    if "deref_channel s x = Some h" "msg_clean msg \<Longrightarrow> clean n" for x h n
    using buildChannelModeQuery_clean [of h] inv facts that live_clean(2) [OF _ that(1)]
    by (auto split: prod.split)
  have limit: "succeeds (case parsePositiveLimit v of None \<Rightarrow> m | Some l \<Rightarrow> f l) P"
    if "parsePositiveLimit v = None \<Longrightarrow> succeeds m P" "\<And>l. parsePositiveLimit v = Some l \<Longrightarrow> succeeds (f l) P"
    for v m f and P :: "command_result \<times> 'z server_state_scheme \<Rightarrow> bool"
    using that by (cases "parsePositiveLimit v") auto
  show "succeeds (handleMode fd msg a s) (handled msg s)"
    unfolding handleMode_def Let_def
    by (intro with_live [OF c(1)] branches query limit announceMode_contract [OF inv c]
        applyOperatorMode_contract [OF inv c]; assumption?) (use inv c facts in simp_all)
qed

end
