(* ===== verification/DispatchSafety.thy ===== *)
theory DispatchSafety
  imports HandlerSafety
begin

text \<open>
  The handlers of \<open>CommandDispatcher\<close> keep the contract of \<open>HandlerSafety\<close>, and so does
  \<open>dispatch\<close> itself, for every message from every descriptor.
\<close>

section \<open>Registration\<close>

lemma client_rules_ops:
  "client_rules c \<Longrightarrow> client_rules (setPassOk True c)"
  "client_rules c \<Longrightarrow> canRegister c \<Longrightarrow> client_rules (markRegistered c)"
  "client_rules c \<Longrightarrow> \<not> cl_registered c \<Longrightarrow> client_rules (setRealname r (setUsername u c))"
  by (auto simp: client_rules_def canRegister_def client_defs)

lemma handled_maybeRegister:
  assumes "handled msg s (r, s1)" "deref_client s1 a = Some c"
  shows "succeeds (maybeRegister a r s1) (handled msg s)"
proof -
  have inv: "state_inv s1" using assms(1) by (simp add: handled_def)
  then have core: "core_inv s1" by blast
  have "state_inv (store_client a (markRegistered c) s1)" if "canRegister c"
    using that live_client_rules [OF core assms(2)] client_rules_ops(2)
    by (intro state_inv_store_client [OF inv assms(2)]) (auto simp: markRegistered_def)
  moreover have "getClientByFd s (cl_fd c) = Some a"
    using fd_of_live [OF core assms(2)] assms(1) by (simp add: handled_def)
  moreover have "cl_fd (markRegistered c) = cl_fd c" by (simp add: markRegistered_def)
  ultimately show ?thesis
    using assms inv live_clean(1) [OF _ assms(2)]
    by (auto simp: maybeRegister_def update_client_succeeds handled_def state_clean_def intro!: text_inv_upd)
qed

lemma handlePass_contract: "handler handlePass"
proof
  fix s :: "'z server_state_scheme" and a c fd msg
  assume inv: "state_inv s" and c: "deref_client s a = Some c" "cl_fd c = fd"
  note facts = caller_facts [OF inv c]
  have "state_inv (store_client a (setPassOk True c) s)"
    using client_rules_ops(1) [OF live_client_rules [OF facts(1) c(1)]]
    by (intro state_inv_store_client [OF inv c(1)]) (auto simp: setPassOk_def)
  then have final: "succeeds (do { s1 \<leftarrow> update_client a (setPassOk True) s; Some (new_CommandResult, s1) })
      (handled msg s)"
    using inv c facts by (auto simp: update_client_succeeds handled_def state_clean_def intro!: text_inv_upd)
  show "succeeds (handlePass fd msg a s) (handled msg s)"
    unfolding handlePass_def
    by (intro with_live [OF c(1)] branches final) (use inv c facts in simp_all)
qed

lemma handleNick_contract: "handler handleNick"
proof
  fix s :: "'z server_state_scheme" and a c fd msg
  assume inv: "state_inv s" and c: "deref_client s a = Some c" "cl_fd c = fd"
  note facts = caller_facts [OF inv c]
  have final: "succeeds (do { (ok, s1) \<leftarrow> updateNick a n s;
      if \<not> ok then one_reply fd (nickInUse n) s1 else maybeRegister a new_CommandResult s1 }) (handled msg s)"
    if n: "isValidNickname n" "msg_clean msg \<Longrightarrow> clean n" for n
  proof -
    obtain ok s1 where s1: "updateNick a n s = Some (ok, s1)" "state_inv s1"
      "ok \<Longrightarrow> deref_client s1 = (deref_client s)(a := Some (c\<lparr>cl_nickname := n\<rparr>))" "\<not> ok \<Longrightarrow> s1 = s"
      "deref_channel s1 = deref_channel s" "getClientByFd s1 = getClientByFd s" "ss_password s1 = ss_password s"
      using updateNick_succeeds [OF inv c(1) n(1)] unfolding succeeds_iff by auto
    have "handled msg s (new_CommandResult, s1)" if ok
      using that s1 facts(3) n(2) by (auto simp: handled_def state_clean_def intro!: text_inv_upd)
    then show ?thesis
      using s1 inv facts n(2) handled_maybeRegister [of msg s new_CommandResult s1 a]
      by (cases ok) auto
  qed
  show "succeeds (handleNick fd msg a s) (handled msg s)"
    unfolding handleNick_def Let_def
    by (intro with_live [OF c(1)] branches final) (use inv c facts in simp_all)
qed

lemma handleUser_contract: "handler handleUser"
proof
  fix s :: "'z server_state_scheme" and a c fd msg
  assume inv: "state_inv s" and c: "deref_client s a = Some c" "cl_fd c = fd"
  note facts = caller_facts [OF inv c]
  have final: "succeeds (do { s1 \<leftarrow> update_client a (setUsername u) s;
      s2 \<leftarrow> update_client a (setRealname v) s1; maybeRegister a new_CommandResult s2 }) (handled msg s)"
    if "\<not> isRegistered c" "msg_clean msg \<Longrightarrow> clean u \<and> clean v" for u v
  proof -
    have wf: "heap_wf s" using inv by simp
    let ?c = "setRealname v (setUsername u c)"
    let ?s2 = "store_client a ?c (store_client a (setUsername u c) s)"
    have rules: "client_rules ?c" "client_rules (setUsername u c)"
      using live_client_rules [OF facts(1) c(1)] that(1)
      by (auto simp: client_rules_def canRegister_def client_defs)
    have "state_inv (store_client a (setUsername u c) s)"
      by (rule state_inv_store_client [OF inv c(1)]) (use rules in \<open>auto simp: setUsername_def [of _ c]\<close>)
    then have "state_inv ?s2"
      by (rule state_inv_store_client [where c = "setUsername u c"])
        (use rules wf in \<open>auto simp: client_defs\<close>)
    then have "handled msg s (new_CommandResult, ?s2)"
      using wf that(2) facts(3)
      by (auto simp: handled_def state_clean_def intro!: text_inv_upd)
    then have "succeeds (maybeRegister a new_CommandResult ?s2) (handled msg s)"
      by (rule handled_maybeRegister [where c = ?c]) (simp add: wf)
    then show ?thesis using c(1) wf by (simp add: update_client_succeeds)
  qed
  show "succeeds (handleUser fd msg a s) (handled msg s)"
    unfolding handleUser_def
    by (intro with_live [OF c(1)] branches final) (use inv c facts in simp_all)
qed


section \<open>Channels and messages\<close>

lemma nameReply_loop_returns:
  assumes "\<And>a. a \<in> set ms \<Longrightarrow> deref_client s a \<noteq> None"
  shows "\<exists>names. nameReply_loop s h ms acc = Some names"
  using assms
proof (induction ms arbitrary: acc)
  case (Cons a ms)
  then obtain c where "deref_client s a = Some c" by fastforce
  with Cons show ?case by (simp add: Let_def)
qed simp

lemma nameReply_returns:
  assumes "core_inv s" "deref_channel s x = Some h"
  obtains r where "nameReply s c h = Some r"
  using nameReply_loop_returns [of "getMembers h" s h "[]"] members_live [OF assms]
  by (auto simp: nameReply_def)

lemma handled_join_tail:
  assumes s1: "state_inv s1" "getClientByFd s1 = getClientByFd s" "ss_password s1 = ss_password s"
      "state_clean s \<Longrightarrow> msg_clean msg \<Longrightarrow> state_clean s1"
    and live: "deref_client s1 a = Some c1" "cl_fd c1 = fd" "deref_channel s1 x = Some h"
    and n: "msg_clean msg \<Longrightarrow> clean n"
  shows "succeeds (do { c1 \<leftarrow> deref_client s1 a; h \<leftarrow> deref_channel s1 x;
      result \<leftarrow> addRepliesToMembers s1 (getMembers h) (reply_join (getFullPrefix c1) ''JOIN'' n) (-1) new_CommandResult;
      names \<leftarrow> nameReply s1 c1 h;
      Some (addReply fd (endOfNames c1 n) (addReply fd names
        (addReply fd (if ch_topic h = [] then noTopic c1 n else topicReply c1 n (ch_topic h)) result)), s1)
    }) (handled msg s)"
proof -
  from s1(1) have core: "core_inv s1" by blast
  obtain r where r: "nameReply s1 c1 h = Some r" by (rule nameReply_returns [OF core live(3)])
  have fd: "getClientByFd s fd = Some a" using fd_of_live [OF core live(1)] live(2) s1(2) by simp
  have clean: "client_clean c1 \<and> channel_clean h \<and> is_line r \<and> state_clean s1"
    if "state_clean s" "msg_clean msg"
  proof -
    have "state_clean s1" by (rule s1(4) [OF that])
    moreover from this have "client_clean c1" "channel_clean h"
      "\<And>a d. deref_client s1 a = Some d \<Longrightarrow> clean (cl_nickname d)"
      using live_clean [of s1] live by auto
    ultimately show ?thesis using nameReply_line [OF r] by simp
  qed
  have "replies_ok msg s (map (\<lambda>fd. (fd, reply_join (getFullPrefix c1) ''JOIN'' n))
      (filter (\<lambda>fd. fd \<noteq> -1) (map (fd_at s1) (getMembers h))))"
    using n clean s1(2) members_live [OF core live(3)] by (intro replies_ok_members [OF core]) auto
  then show ?thesis
    using r fd s1 clean n live by (simp add: addRepliesToMembers_members [OF core live(3)] handled_def)
qed

lemma addClientToChannel_succeeds:
  assumes "state_inv s" "deref_client s a = Some c" "cl_registered c" "isValidChannelName n"
  obtains x s1 c1 h1 where "addClientToChannel (Some a) n s = Some (Some x, s1)" "state_inv s1"
    "getClientByFd s1 = getClientByFd s" "ss_password s1 = ss_password s"
    "deref_client s1 = (deref_client s)(a := Some c1)" "c1 = client_after_join x c"
    "deref_channel s1 = (deref_channel s)(x := Some h1)"
    "h1 = channel_after_join a (case Option.bind (getChannel s n) (deref_channel s) of Some h \<Rightarrow> h | None \<Rightarrow> new_Channel n)"
proof (cases "getChannel s n")
  case None
  have core: "core_inv s" using assms(1) by blast
  have fresh: "unsafe_joinChannel x c = client_after_join x c" if "deref_channel s x = None" for x
    using joined_channel [OF core assms(2), of x] that by (auto simp: client_after_join_def)
  show thesis
    using addClientToChannel_new [OF assms(1-3) None assms(4)] None fresh
    unfolding succeeds_iff by (auto intro!: that)
next
  case (Some x)
  have core: "core_inv s" using assms(1) by blast
  from live_by_name [OF core Some] obtain h where h: "deref_channel s x = Some h" by blast
  show thesis
    using addClientToChannel_old [OF assms(1-3) Some h] Some h
    unfolding succeeds_iff by (auto intro!: that)
qed

lemma join_refusal_line:
  "join_refusal c a msg n h = Some t \<Longrightarrow> client_clean c \<Longrightarrow> clean n \<Longrightarrow> is_line t"
  by (auto simp: join_refusal_def split: if_splits)

lemma with_refusal:
  assumes "core_inv s" "succeeds m P"
    "\<And>t. (client_clean c \<Longrightarrow> clean n \<Longrightarrow> is_line t) \<Longrightarrow> succeeds (g t) P"
  shows "succeeds (do { refusal \<leftarrow> (case getChannel s n of None \<Rightarrow> Some None
      | Some x \<Rightarrow> do { h \<leftarrow> deref_channel s x; Some (join_refusal c a msg n h) });
    case refusal of None \<Rightarrow> m | Some t \<Rightarrow> g t }) P"
proof -
  have "succeeds (case join_refusal c a msg n h of None \<Rightarrow> m | Some t \<Rightarrow> g t) P" for h
    using assms(2,3) join_refusal_line [of c a msg n h] by (cases "join_refusal c a msg n h") auto
  with assms(1,2) show ?thesis
    unfolding succeeds_bind by (intro with_channel) simp_all
qed

lemma handleJoin_contract: "handler handleJoin"
proof
  fix s :: "'z server_state_scheme" and a c fd msg
  assume inv: "state_inv s" and c: "deref_client s a = Some c" "cl_fd c = fd"
  note facts = caller_facts [OF inv c]
  have join: "succeeds (do { (channel, s1) \<leftarrow> addClientToChannel (Some a) n s;
      case channel of None \<Rightarrow> one_reply fd (noSuchChannel c n) s1 | Some x \<Rightarrow> f x s1 }) (handled msg s)"
    if n: "isValidChannelName n" "isRegistered c" "msg_clean msg \<Longrightarrow> clean n"
      and f: "\<And>x s1 c1 h. state_inv s1 \<Longrightarrow> getClientByFd s1 = getClientByFd s \<Longrightarrow> ss_password s1 = ss_password s \<Longrightarrow>
        (state_clean s \<Longrightarrow> msg_clean msg \<Longrightarrow> state_clean s1) \<Longrightarrow> deref_client s1 a = Some c1 \<Longrightarrow> cl_fd c1 = fd \<Longrightarrow>
        deref_channel s1 x = Some h \<Longrightarrow> succeeds (f x s1) (handled msg s)" for n f
  proof -
    from n(2) have reg: "cl_registered c" by (simp add: isRegistered_def)
    obtain x s1 c1 h1 where s1: "addClientToChannel (Some a) n s = Some (Some x, s1)" "state_inv s1"
      "getClientByFd s1 = getClientByFd s" "ss_password s1 = ss_password s"
      "deref_client s1 = (deref_client s)(a := Some c1)" "c1 = client_after_join x c"
      "deref_channel s1 = (deref_channel s)(x := Some h1)"
      "h1 = channel_after_join a (case Option.bind (getChannel s n) (deref_channel s) of Some h \<Rightarrow> h | None \<Rightarrow> new_Channel n)"
      by (rule addClientToChannel_succeeds [OF inv c(1) reg n(1)])
    have "state_clean s1" if "state_clean s" "msg_clean msg"
      using that s1(5-8) facts(3) n(3) live_clean(2) [OF that(1)]
      by (auto simp: state_clean_def intro!: text_inv_upd split: option.splits bind_splits)
    moreover have "cl_fd c1 = fd" using c(2) s1(6) by (simp add: client_after_join_def unsafe_joinChannel_def)
    ultimately show ?thesis using s1 f [of s1 c1 x h1] by simp
  qed
  show "succeeds (handleJoin fd msg a s) (handled msg s)"
    unfolding handleJoin_def Let_def
    by (intro with_live [OF c(1)] branches with_refusal [OF facts(1)] join handled_one_reply [OF inv]
        handled_join_tail; assumption?) (use inv c facts in auto)
qed

lemma handlePart_contract: "handler handlePart"
proof
  fix s :: "'z server_state_scheme" and a c fd msg
  assume inv: "state_inv s" and c: "deref_client s a = Some c" "cl_fd c = fd"
  note facts = caller_facts [OF inv c]
  show "succeeds (handlePart fd msg a s) (handled msg s)"
    unfolding handlePart_def Let_def
    by (intro with_live [OF c(1)] branches handled_leave [OF inv c(1)]) (use inv c facts in simp_all)
qed

lemma handleTextMessage_contract:
  assumes "clean command"
  shows "handler (\<lambda>fd msg a. handleTextMessage fd msg a command replyOnError)"
proof
  fix s :: "'z server_state_scheme" and a c fd msg
  assume inv: "state_inv s" and c: "deref_client s a = Some c" "cl_fd c = fd"
  note facts = caller_facts [OF inv c]
  have channel: "succeeds (do { result \<leftarrow> addRepliesToMembers s (getMembers h) t fd new_CommandResult;
      Some (result, s) }) (handled msg s)"
    if "deref_channel s x = Some h" "state_clean s \<Longrightarrow> msg_clean msg \<Longrightarrow> is_line t" for x h t
    using that inv replies_ok_members [OF facts(1) members_live [OF facts(1) that(1)] refl that(2)]
    by (simp add: addRepliesToMembers_members [OF facts(1) that(1)] handled_def)
  have user: "succeeds (do { d \<leftarrow> deref_client s b; Some (addReply (cl_fd d) t new_CommandResult, s) })
      (handled msg s)"
    if "deref_client s b = Some d" "state_clean s \<Longrightarrow> msg_clean msg \<Longrightarrow> is_line t" for b d t
    using that inv fd_of_live [OF facts(1) that(1)] by (simp add: handled_def)
  show "succeeds (handleTextMessage fd msg a command replyOnError s) (handled msg s)"
    unfolding handleTextMessage_def Let_def
    by (intro with_live [OF c(1)] branches channel user; assumption?)
      (use inv c facts assms in simp_all)
qed


section \<open>Every handler is an instance of the contract\<close>

interpretation kick: handler handleKick by (rule handleKick_contract)
interpretation invite: handler handleInvite by (rule handleInvite_contract)
interpretation topic: handler handleTopic by (rule handleTopic_contract)
interpretation mode: handler handleMode by (rule handleMode_contract)
interpretation pass: handler handlePass by (rule handlePass_contract)
interpretation nick: handler handleNick by (rule handleNick_contract)
interpretation user: handler handleUser by (rule handleUser_contract)
interpretation join: handler handleJoin by (rule handleJoin_contract)
interpretation part: handler handlePart by (rule handlePart_contract)

interpretation privmsg: handler handlePrivmsg
  unfolding handlePrivmsg_def using handleTextMessage_contract [of "''PRIVMSG''" True] by simp

interpretation notice: handler handleNotice
  unfolding handleNotice_def using handleTextMessage_contract [of "''NOTICE''" False] by simp

section \<open>Dispatch\<close>

lemma succeeds_keep:
  "succeeds m P \<Longrightarrow> succeeds (do { (r, s1) \<leftarrow> m; Some (r, s1, hm) }) (\<lambda>(r, s1, hm'). P (r, s1) \<and> hm' = hm)"
  by (cases m) auto

text \<open>What dispatching does to the health monitor: nothing, or noting a PONG.\<close>

definition monitor_step :: "int \<Rightarrow> time_t \<Rightarrow> health_monitor option \<Rightarrow> health_monitor option \<Rightarrow> bool" where
  "monitor_step fd now hm hm' \<longleftrightarrow> hm' = hm \<or> (\<exists>token. hm' = map_option (markPongReceived fd token now) hm)"

lemma monitor_step_refl [simp]: "monitor_step fd now hm hm"
  by (simp add: monitor_step_def)

lemma keep_handled:
  "succeeds m (handled msg s) \<Longrightarrow> succeeds (do { (r, s1) \<leftarrow> m; Some (r, s1, hm) })
     (\<lambda>(r, s1, hm'). handled msg s (r, s1) \<and> monitor_step fd now hm hm')"
  by (drule succeeds_keep) (auto elim!: succeeds_mono)

lemma dispatch_succeeds:
  assumes inv: "state_inv s"
  shows "succeeds (dispatch fd msg hm now s)
    (\<lambda>(r, s', hm'). handled msg s (r, s') \<and> monitor_step fd now hm hm')"
proof (cases "getClientByFd s fd")
  case None
  with inv show ?thesis by (simp add: dispatch_def)
next
  case (Some a)
  have core: "core_inv s" using inv by blast
  from live_by_fd [OF core Some] obtain c where c: "deref_client s a = Some c" "cl_fd c = fd" by blast
  note facts = caller_facts [OF inv c]
  have quit: "succeeds (handleQuit s) (handled msg s)" if "msg_command msg = ''QUIT''"
    using that inv by (simp add: handleQuit_def handled_def)
  have pong: "succeeds (case handlePong fd msg c hm now of (r, hm') \<Rightarrow> Some (r, s, hm'))
      (\<lambda>(r, s', hm'). handled msg s (r, s') \<and> monitor_step fd now hm hm')"
    using inv facts by (auto simp: handlePong_def handled_def monitor_step_def)
  show ?thesis
    unfolding dispatch_def Some option.case Let_def
    by (intro with_live [OF c(1)] succeeds_ifI keep_handled quit pong
        pass.keeps_contract [OF inv c] nick.keeps_contract [OF inv c] user.keeps_contract [OF inv c]
        join.keeps_contract [OF inv c] part.keeps_contract [OF inv c] privmsg.keeps_contract [OF inv c]
        notice.keeps_contract [OF inv c] kick.keeps_contract [OF inv c] invite.keeps_contract [OF inv c]
        topic.keeps_contract [OF inv c] mode.keeps_contract [OF inv c])
      (use inv c facts in simp_all)
qed

section \<open>Who is told about a disconnection\<close>

definition quit_targets :: "'z server_state_scheme \<Rightarrow> int \<Rightarrow> int set" where
  "quit_targets s fd = {cl_fd d | a c x h b d. getClientByFd s fd = Some a \<and> deref_client s a = Some c
     \<and> x \<in> set (cl_channels c) \<and> deref_channel s x = Some h \<and> hasMember h b \<and> deref_client s b = Some d
     \<and> cl_fd d \<noteq> fd}"

definition notified :: "string \<Rightarrow> int list \<times> command_result \<Rightarrow> bool" where
  "notified t acc \<longleftrightarrow> distinct (map fst (replies (snd acc))) \<and> fst ` set (replies (snd acc)) = set (fst acc)
     \<and> distinct (fst acc) \<and> (\<forall>q \<in> set (replies (snd acc)). snd q = t) \<and> \<not> shouldDisconnect (snd acc)"

lemma notified_add:
  "notified t acc \<Longrightarrow> fd \<notin> set (fst acc) \<Longrightarrow> notified t (insort fd (fst acc), addReply fd t (snd acc))"
  by (auto simp: notified_def set_insort_key distinct_insort)

lemma notify_members_run:
  assumes "\<And>a. a \<in> set ms \<Longrightarrow> deref_client s a \<noteq> None" "deref_client s 0 = None" "notified t acc"
  shows "succeeds (notify_members s fd t ms acc)
    (\<lambda>acc'. notified t acc' \<and> set (fst acc') = set (fst acc) \<union> (fd_at s ` set ms - {fd}))"
  using assms(1,3)
proof (induction ms arbitrary: acc)
  case (Cons a ms)
  then obtain c where c: "deref_client s a = Some c" by fastforce
  with assms(2) have a: "a \<noteq> 0" by (metis option.distinct(1))
  have at: "fd_at s a = cl_fd c" by (simp add: fd_at_def c)
  have live: "\<And>b. b \<in> set ms \<Longrightarrow> deref_client s b \<noteq> None" using Cons.prems(1) by simp
  consider "cl_fd c = fd" | "cl_fd c \<noteq> fd" "cl_fd c \<in> set (fst acc)"
    | "cl_fd c \<noteq> fd" "cl_fd c \<notin> set (fst acc)" by blast
  then show ?case
  proof cases
    case 3
    from Cons.IH [OF live notified_add [OF Cons.prems(2) 3(2)]] 3 a c show ?thesis
      by (auto simp: set_insort_key at elim!: succeeds_mono)
  qed (use Cons.IH [OF live Cons.prems(2)] a c at in \<open>auto elim!: succeeds_mono\<close>)
qed simp

definition channel_fds :: "'z server_state_scheme \<Rightarrow> addr \<Rightarrow> int set" where
  "channel_fds s x = (case deref_channel s x of None \<Rightarrow> {} | Some h \<Rightarrow> fd_at s ` {b. hasMember h b})"

lemma notify_channels_run:
  assumes "core_inv s" "\<And>x. x \<in> set xs \<Longrightarrow> deref_channel s x \<noteq> None" "notified t acc"
  shows "succeeds (notify_channels s fd t xs acc)
    (\<lambda>acc'. notified t acc' \<and> set (fst acc') = set (fst acc) \<union> (\<Union> (channel_fds s ` set xs) - {fd}))"
  using assms(2,3)
proof (induction xs arbitrary: acc)
  case (Cons x xs)
  then obtain h where h: "deref_channel s x = Some h" by fastforce
  with assms(1) have x: "x \<noteq> 0" by (metis null_not_live(2) option.distinct(1))
  have live: "\<And>y. y \<in> set xs \<Longrightarrow> deref_channel s y \<noteq> None" using Cons.prems(1) by simp
  have fds: "channel_fds s x = fd_at s ` set (getMembers h)"
    using set_getMembers [OF live_channel_wf [OF assms(1) h]] by (auto simp: channel_fds_def h)
  from notify_members_run [of "getMembers h" s t acc fd, OF members_live [OF assms(1) h] _ Cons.prems(2)] assms(1)
  obtain acc1 where acc1: "notify_members s fd t (getMembers h) acc = Some acc1" "notified t acc1"
    "set (fst acc1) = set (fst acc) \<union> (channel_fds s x - {fd})"
    unfolding succeeds_iff fds by auto
  from Cons.IH [OF live acc1(2)] x h acc1 show ?case
    by (auto elim!: succeeds_mono)
qed simp

lemma quit_targets_eq:
  assumes "core_inv s" "getClientByFd s fd = Some a" "deref_client s a = Some c"
  shows "quit_targets s fd = \<Union> (channel_fds s ` set (cl_channels c)) - {fd}"
proof -
  have at: "y = fd_at s b \<longleftrightarrow> (\<exists>d. deref_client s b = Some d \<and> cl_fd d = y)"
    if "deref_channel s x = Some h" "hasMember h b" for x h b y
    using live_member [OF assms(1) that] by (auto simp: fd_at_def)
  have "y \<in> channel_fds s x \<longleftrightarrow> (\<exists>h b d. deref_channel s x = Some h \<and> hasMember h b
      \<and> deref_client s b = Some d \<and> cl_fd d = y)" for x y
    by (cases "deref_channel s x") (auto simp: channel_fds_def image_iff at)
  then show ?thesis using assms(2,3) unfolding quit_targets_def by (simp add: set_eq_iff) blast
qed

lemma build_succeeds:
  assumes inv: "state_inv s" and a: "getClientByFd s (de_fd ev) = Some a" "deref_client s a = Some c"
  shows "succeeds (DisconnectNotifier_build ev s) (\<lambda>r.
    distinct (map fst (replies r)) \<and> fst ` set (replies r) = quit_targets s (de_fd ev)
    \<and> (\<forall>q \<in> set (replies r). snd q = reply_quit (getFullPrefix c) (de_reason ev)) \<and> \<not> shouldDisconnect r)"
proof -
  have core: "core_inv s" using inv by blast
  have live: "\<And>x. x \<in> set (cl_channels c) \<Longrightarrow> deref_channel s x \<noteq> None"
    using joined_channel [OF core a(2)] by fastforce
  have start: "notified t ([], new_CommandResult)" for t by (simp add: notified_def)
  from notify_channels_run [of s "cl_channels c" "reply_quit (getFullPrefix c) (de_reason ev)"
      "([], new_CommandResult)" "de_fd ev", OF core live start]
  show ?thesis
    unfolding quit_targets_eq [OF core a] using a
    by (auto simp: DisconnectNotifier_build_def getChannels_def notified_def elim!: succeeds_mono)
qed

end
