(* ===== verification/Connection.thy ===== *)
theory Connection
  imports Prelude
begin

text \<open>
  \<open>Connection\<close> (\<open>src/src/a/Connection.cpp\<close>): the two buffers of a socket. What
  \<open>recv\<close> and \<open>send\<close> return is an argument of the operations that call them.

  The lemmas give the framing: which line comes out of the receive buffer, and how long the
  buffer can get.
\<close>

section \<open>State and operations\<close>

record connection =
  cn_fd :: int
  cn_nlPos :: "nat option"
  cn_recvBuffer :: string
  cn_sendBuffer :: string

definition buf_size :: nat where "buf_size = 4096"

definition new_Connection :: "int \<Rightarrow> connection" where
  "new_Connection fd = \<lparr>cn_fd = fd, cn_nlPos = None, cn_recvBuffer = [], cn_sendBuffer = []\<rparr>"

text \<open>\<open>std::string::find\<close> of one character; \<open>None\<close> is \<open>npos\<close>.\<close>

definition find_char :: "char \<Rightarrow> string \<Rightarrow> nat option" where
  "find_char c s = (if c \<in> set s then Some (length (takeWhile (\<lambda>d. d \<noteq> c) s)) else None)"

definition isLineTooLong :: "connection \<Rightarrow> bool" where
  "isLineTooLong conn =
     (let max_ok = 512 :: nat; buf = cn_recvBuffer conn in
      if length buf \<le> max_ok then False
      else let scan_end = min (length buf) max_ok
           in list_all (\<lambda>i. buf ! i \<noteq> LF) [0..<scan_end])"

text \<open>\<open>received\<close> is the data \<open>recv\<close> stored, or \<open>None\<close> if it returned \<open>n \<le> 0\<close>.\<close>

definition readFromSocket :: "string option \<Rightarrow> connection \<Rightarrow> bool \<times> connection" where
  "readFromSocket received conn = (case received of
     None \<Rightarrow> (False, conn)
   | Some data \<Rightarrow> (True, conn\<lparr>cn_recvBuffer := cn_recvBuffer conn @ data\<rparr>))"

definition hasCompleteLine :: "connection \<Rightarrow> bool \<times> connection" where
  "hasCompleteLine conn =
     (let conn1 = conn\<lparr>cn_nlPos := find_char LF (cn_recvBuffer conn)\<rparr>
      in (cn_nlPos conn1 \<noteq> None, conn1))"

text \<open>Without a stored position the source reads far outside the buffer.\<close>

definition popLine :: "connection \<Rightarrow> (string \<times> connection) option" where
  "popLine conn = (case cn_nlPos conn of
     None \<Rightarrow> None
   | Some n_pos \<Rightarrow>
       let len = (if n_pos > 0 \<and> cn_recvBuffer conn ! (n_pos - 1) = CR then n_pos - 1 else n_pos)
       in Some (take len (cn_recvBuffer conn),
            conn\<lparr>cn_recvBuffer := drop (n_pos + 1) (cn_recvBuffer conn), cn_nlPos := None\<rparr>))"

definition bufferSend :: "string \<Rightarrow> connection \<Rightarrow> connection" where
  "bufferSend msg conn = conn\<lparr>cn_sendBuffer := cn_sendBuffer conn @ msg\<rparr>"

definition hasPendingOutput :: "connection \<Rightarrow> bool" where
  "hasPendingOutput conn \<longleftrightarrow> cn_sendBuffer conn \<noteq> []"

text \<open>\<open>sent\<close> is the return value of \<open>send\<close>.\<close>

definition writeToSocket :: "int \<Rightarrow> connection \<Rightarrow> bool \<times> connection" where
  "writeToSocket sent conn =
     (if cn_sendBuffer conn = [] then (True, conn)
      else if sent \<le> 0 then (False, conn)
      else (True, conn\<lparr>cn_sendBuffer := drop (nat sent) (cn_sendBuffer conn)\<rparr>))"

section \<open>Framing\<close>

lemma takeWhile_until: "c \<notin> set l \<Longrightarrow> takeWhile (\<lambda>d. d \<noteq> c) (l @ c # rest) = l"
  by (induction l) auto

lemma find_char_append: "c \<notin> set l \<Longrightarrow> find_char c (l @ c # rest) = Some (length l)"
  by (simp add: find_char_def takeWhile_until)

lemma find_char_None: "find_char c s = None \<longleftrightarrow> c \<notin> set s"
  by (simp add: find_char_def)

text \<open>The line without its terminator.\<close>

definition strip_cr :: "string \<Rightarrow> string" where
  "strip_cr l = (if l \<noteq> [] \<and> last l = CR then butlast l else l)"

lemma set_strip_cr: "set (strip_cr l) \<subseteq> set l"
  by (auto simp: strip_cr_def dest: in_set_butlastD)

text \<open>Extracting a line from a buffer that starts with it.\<close>

lemma pop_first_line:
  assumes "cn_recvBuffer conn = l @ LF # rest" "LF \<notin> set l"
  shows "hasCompleteLine conn = (True, conn\<lparr>cn_nlPos := Some (length l)\<rparr>)"
    and "popLine (conn\<lparr>cn_nlPos := Some (length l)\<rparr>) =
      Some (strip_cr l, conn\<lparr>cn_recvBuffer := rest, cn_nlPos := None\<rparr>)"
proof -
  show "hasCompleteLine conn = (True, conn\<lparr>cn_nlPos := Some (length l)\<rparr>)"
    using assms by (simp add: hasCompleteLine_def Let_def find_char_append)
  show "popLine (conn\<lparr>cn_nlPos := Some (length l)\<rparr>) =
      Some (strip_cr l, conn\<lparr>cn_recvBuffer := rest, cn_nlPos := None\<rparr>)"
    using assms(1)
    by (cases l rule: rev_cases) (auto simp: popLine_def strip_cr_def nth_append)
qed

lemma no_line_left: "LF \<notin> set (cn_recvBuffer conn) \<Longrightarrow> hasCompleteLine conn = (False, conn\<lparr>cn_nlPos := None\<rparr>)"
  by (simp add: hasCompleteLine_def find_char_None)

lemma first_line_exists: "LF \<in> set buf \<Longrightarrow> \<exists>l rest. buf = l @ LF # rest \<and> LF \<notin> set l"
  by (metis split_list_first)

section \<open>The length check\<close>

lemma scan_first:
  "(if length buf \<le> n then False else list_all (\<lambda>i. buf ! i \<noteq> c) [0..<min (length buf) n]) \<longleftrightarrow>
     n < length buf \<and> c \<notin> set (take n buf)"
proof (cases "n < length buf")
  case True
  have "(\<forall>i < n. buf ! i \<noteq> c) \<longleftrightarrow> c \<notin> set (take n buf)"
    using True by (auto simp: in_set_conv_nth)
  with True show ?thesis by (auto simp: list_all_iff)
qed simp

lemma isLineTooLong_iff:
  "isLineTooLong conn \<longleftrightarrow> 512 < length (cn_recvBuffer conn) \<and> LF \<notin> set (take 512 (cn_recvBuffer conn))"
  unfolding isLineTooLong_def Let_def by (rule scan_first)

text \<open>What can be in the receive buffer between two reads: no line feed, and at most one read's
  worth of data.\<close>

definition recv_bounded :: "connection \<Rightarrow> bool" where
  "recv_bounded conn \<longleftrightarrow> LF \<notin> set (cn_recvBuffer conn) \<and> length (cn_recvBuffer conn) \<le> buf_size"

text \<open>The part of a buffer after its last line feed.\<close>

definition after_last_LF :: "string \<Rightarrow> string" where
  "after_last_LF buf = rev (takeWhile (\<lambda>c. c \<noteq> LF) (rev buf))"

lemma takeWhile_stop: "\<not> P c \<Longrightarrow> takeWhile P (xs @ c # ys) = takeWhile P xs"
  by (induction xs) auto

lemma after_last_LF_simps:
  "LF \<notin> set buf \<Longrightarrow> after_last_LF buf = buf"
  "after_last_LF (l @ LF # rest) = after_last_LF rest"
proof -
  assume "LF \<notin> set buf"
  then have "takeWhile (\<lambda>c. c \<noteq> LF) (rev buf) = rev buf"
    by (intro takeWhile_eq_all_conv [THEN iffD2]) auto
  then show "after_last_LF buf = buf" unfolding after_last_LF_def by (metis rev_rev_ident)
qed (simp add: after_last_LF_def takeWhile_stop)

lemma after_last_LF_clean: "LF \<notin> set (after_last_LF buf)"
  by (auto simp: after_last_LF_def dest: set_takeWhileD)

lemma recv_bounded_after:
  assumes "recv_bounded conn" "length data \<le> buf_size + 1"
    and "\<not> isLineTooLong (conn\<lparr>cn_recvBuffer := cn_recvBuffer conn @ data\<rparr>)"
  shows "length (after_last_LF (cn_recvBuffer conn @ data)) \<le> buf_size"
proof (cases "LF \<in> set data")
  case True
  then obtain l rest where d: "data = l @ LF # rest" by (metis split_list)
  have "length (after_last_LF rest) \<le> length rest"
    by (simp add: after_last_LF_def length_takeWhile_le le_trans [OF length_takeWhile_le])
  then have "length (after_last_LF (cn_recvBuffer conn @ data)) \<le> length rest"
    using after_last_LF_simps(2) [of "cn_recvBuffer conn @ l" rest] by (simp add: d)
  with assms(2) d show ?thesis by simp
next
  case False
  let ?b = "cn_recvBuffer conn @ data"
  have no: "LF \<notin> set ?b" using assms(1) False by (simp add: recv_bounded_def)
  then have "LF \<notin> set (take 512 ?b)" by (meson in_set_takeD)
  with assms(3) have "length ?b \<le> 512" by (simp add: isLineTooLong_iff)
  with no show ?thesis by (simp add: after_last_LF_simps(1) buf_size_def)
qed

end
