(* ===== verification/Server.thy ===== *)
theory Server
  imports DispatchSafety Connection "HOL-Library.Word"
begin

text \<open>
  \<open>Server\<close> (\<open>src/src/a/Server.cpp\<close>): the poll loop. Everything the operating system
  decides during one turn of the loop is an argument of the model, the record \<open>io_env\<close>: what
  \<open>poll\<close> returned and which events it reported, what \<open>accept\<close>, \<open>recv\<close> and
  \<open>send\<close> returned for each descriptor, the time, and whether SIGINT has arrived. Within one
  turn the code calls \<open>recv\<close> and \<open>send\<close> at most once per descriptor, and
  \<open>accept\<close> once.

  \<open>None\<close> is undefined behaviour (a null or dangling pointer), \<open>Some (Inl (e, v))\<close> an
  exception with text \<open>e\<close> that leaves the turn in state \<open>v\<close>, \<open>Some (Inr v)\<close> the state after a normal return.
  \<open>sv_open\<close> is the system's side: the descriptors that \<open>socket\<close> and \<open>accept\<close> have handed to the
  server and that it has not passed to \<open>close\<close>. The
  loops are recursive functions in the option monad; that they return is part of the theorems.
\<close>

unbundle bit_operations_syntax

section \<open>State\<close>

type_synonym short = "16 word"

definition POLLIN :: short where "POLLIN = 1"
definition POLLOUT :: short where "POLLOUT = 4"
definition POLLERR :: short where "POLLERR = 8"
definition POLLHUP :: short where "POLLHUP = 16"
definition POLLNVAL :: short where "POLLNVAL = 32"

record pollfd =
  pfd_fd :: int
  pfd_events :: short
  pfd_revents :: short

record server =
  sv_listenFd :: int
  sv_pollfds :: "pollfd list"
  sv_connections :: "(int \<times> connection) list"
  sv_state :: server_state
  sv_healthMonitor :: health_monitor
  sv_open :: "int list"

datatype accept_result = AcceptFailed | Accepted int string | AcceptedFcntlFailed int string

datatype poll_result = PollReady | PollInterrupted | PollFailed string

record io_env =
  env_shutdown_before :: bool
  env_poll :: poll_result
  env_shutdown_after :: bool
  env_revents :: "int \<Rightarrow> short"
  env_accept :: accept_result
  env_recv :: "int \<Rightarrow> string option"
  env_send :: "int \<Rightarrow> int"
  env_now :: time_t

section \<open>The watched descriptors\<close>

definition addFd :: "int \<Rightarrow> short \<Rightarrow> server \<Rightarrow> server" where
  "addFd fd events v =
     v\<lparr>sv_pollfds := sv_pollfds v @ [\<lparr>pfd_fd = fd, pfd_events = events, pfd_revents = 0\<rparr>]\<rparr>"

fun remove_first_fd :: "int \<Rightarrow> pollfd list \<Rightarrow> pollfd list" where
  "remove_first_fd fd [] = []"
| "remove_first_fd fd (p # ps) = (if pfd_fd p = fd then ps else p # remove_first_fd fd ps)"

definition removeFd :: "int \<Rightarrow> server \<Rightarrow> server" where
  "removeFd fd v = v\<lparr>sv_pollfds := remove_first_fd fd (sv_pollfds v)\<rparr>"

fun update_first_fd :: "int \<Rightarrow> (short \<Rightarrow> short) \<Rightarrow> pollfd list \<Rightarrow> pollfd list" where
  "update_first_fd fd f [] = []"
| "update_first_fd fd f (p # ps) =
     (if pfd_fd p = fd then p\<lparr>pfd_events := f (pfd_events p)\<rparr> # ps else p # update_first_fd fd f ps)"

definition enablePollout :: "int \<Rightarrow> server \<Rightarrow> server" where
  "enablePollout fd v = v\<lparr>sv_pollfds := update_first_fd fd (\<lambda>e. e OR POLLOUT) (sv_pollfds v)\<rparr>"

definition disablePollout :: "int \<Rightarrow> server \<Rightarrow> server" where
  "disablePollout fd v = v\<lparr>sv_pollfds := update_first_fd fd (\<lambda>e. e AND NOT POLLOUT) (sv_pollfds v)\<rparr>"

section \<open>Connections\<close>

definition find_connection :: "server \<Rightarrow> int \<Rightarrow> connection option" where
  "find_connection v fd = omap_find (<) (sv_connections v) fd"

definition put_connection :: "int \<Rightarrow> connection \<Rightarrow> server \<Rightarrow> server" where
  "put_connection fd conn v = v\<lparr>sv_connections := omap_put (<) fd conn (sv_connections v)\<rparr>"

text \<open>The descriptors of the process: \<open>accept\<close> adds one, \<open>close\<close> removes it.\<close>

definition open_sys :: "int \<Rightarrow> server \<Rightarrow> server" where
  "open_sys fd v = v\<lparr>sv_open := fd # sv_open v\<rparr>"

definition close_sys :: "int \<Rightarrow> server \<Rightarrow> server" where
  "close_sys fd v = v\<lparr>sv_open := removeAll fd (sv_open v)\<rparr>"

type_synonym outcome = "string \<times> server + server"

definition acceptClient :: "accept_result \<Rightarrow> server \<Rightarrow> outcome" where
  "acceptClient accepted v = (case accepted of
     AcceptFailed \<Rightarrow> Inr v
   | AcceptedFcntlFailed cs host \<Rightarrow> Inl (''fcntl(O_NONBLOCK) failed'', open_sys cs v)
   | Accepted cs host \<Rightarrow>
       let v1 = put_connection cs (new_Connection cs) (open_sys cs v);
           v2 = addFd cs POLLIN v1
       in Inr (v2\<lparr>sv_state := addClient cs host (sv_state v2)\<rparr>))"

primrec enqueue_loop :: "(int \<times> string) list \<Rightarrow> server \<Rightarrow> server" where
  "enqueue_loop [] v = v"
| "enqueue_loop (reply # rest) v = (case find_connection v (fst reply) of
     None \<Rightarrow> enqueue_loop rest v
   | Some conn \<Rightarrow> enqueue_loop rest
       (enablePollout (fst reply) (put_connection (fst reply) (bufferSend (snd reply) conn) v)))"

definition enqueueReplies :: "command_result \<Rightarrow> server \<Rightarrow> server" where
  "enqueueReplies result v = enqueue_loop (replies result) v"

definition disconnectClient :: "int \<Rightarrow> server \<Rightarrow> server option" where
  "disconnectClient fd v = do {
     let v1 = removeFd fd (close_sys fd v);
     v2 \<leftarrow> (case find_connection v1 fd of
         None \<Rightarrow> Some v1
       | Some conn \<Rightarrow> do {
           let v1' = v1\<lparr>sv_connections := omap_erase (<) fd (sv_connections v1)\<rparr>;
           s \<leftarrow> removeClient fd (sv_state v1');
           Some (v1'\<lparr>sv_state := s\<rparr>)
         });
     Some (v2\<lparr>sv_healthMonitor := hm_removeClient fd (sv_healthMonitor v2)\<rparr>)
   }"

definition notifyAndDisconnect :: "int \<Rightarrow> string \<Rightarrow> server \<Rightarrow> server option" where
  "notifyAndDisconnect fd reason v = do {
     notify \<leftarrow> DisconnectNotifier_build (new_DisconnectEvent fd reason) (sv_state v);
     disconnectClient fd (enqueueReplies notify v)
   }"

definition applyCommandResult :: "command_result \<Rightarrow> int \<Rightarrow> server \<Rightarrow> server option" where
  "applyCommandResult result sourceFd v =
     (let v1 = enqueueReplies result v in
      if shouldDisconnect result then notifyAndDisconnect sourceFd ''Client Quit'' v1 else Some v1)"

text \<open>One line: parse, dispatch, apply.\<close>

definition handle_line :: "int \<Rightarrow> time_t \<Rightarrow> string \<Rightarrow> server \<Rightarrow> (command_result \<times> server) option" where
  "handle_line fd now line v = do {
     let msg = parse line;
     (result, s, hm) \<leftarrow> dispatch fd msg (Some (sv_healthMonitor v)) now (sv_state v);
     v1 \<leftarrow> applyCommandResult result fd (v\<lparr>sv_state := s, sv_healthMonitor := the hm\<rparr>);
     Some (result, v1)
   }"

text \<open>The \<open>while\<close> loop of \<open>_handleRead\<close> and its return value.\<close>

partial_function (option) read_loop :: "int \<Rightarrow> time_t \<Rightarrow> server \<Rightarrow> (bool \<times> server) option" where
  "read_loop fd now v =
     Option.bind (find_connection v fd) (\<lambda>conn.
       case hasCompleteLine conn of (complete, conn1) \<Rightarrow>
         if \<not> complete then Some (True, put_connection fd conn1 v)
         else Option.bind (popLine conn1) (\<lambda>(line, conn2).
           Option.bind (handle_line fd now line (put_connection fd conn2 v)) (\<lambda>(result, v1).
             if shouldDisconnect result then Some (False, v1) else read_loop fd now v1)))"

definition handleRead :: "int \<Rightarrow> string option \<Rightarrow> time_t \<Rightarrow> server \<Rightarrow> (bool \<times> server) option" where
  "handleRead fd received now v = do {
     conn \<leftarrow> find_connection v fd;
     let (ok, conn1) = readFromSocket received conn;
     let v1 = put_connection fd conn1 v;
     if \<not> ok then Some (False, v1)
     else if isLineTooLong conn1 then Some (False, v1)
     else read_loop fd now (v1\<lparr>sv_healthMonitor := updateActivity fd now (sv_healthMonitor v1)\<rparr>)
   }"

definition handleWrite :: "int \<Rightarrow> int \<Rightarrow> server \<Rightarrow> (bool \<times> server) option" where
  "handleWrite fd sent v = do {
     conn \<leftarrow> find_connection v fd;
     let (ok, conn1) = writeToSocket sent conn;
     let v1 = put_connection fd conn1 v;
     if \<not> ok then Some (False, v1)
     else if \<not> hasPendingOutput conn1 then Some (True, disablePollout fd v1)
     else Some (True, v1)
   }"

section \<open>The loop\<close>

text \<open>One client entry of the scan: whether the descriptor was disconnected, and the state. The
  scan stays at the same index after a disconnection, because the entry has been erased.\<close>

definition handle_client :: "io_env \<Rightarrow> int \<Rightarrow> short \<Rightarrow> server \<Rightarrow> (bool \<times> server) option" where
  "handle_client env fd revents v = do {
     (ok, v1) \<leftarrow> (if revents AND POLLIN \<noteq> 0 then handleRead fd (env_recv env fd) (env_now env) v else Some (True, v));
     if \<not> ok then do {
       v2 \<leftarrow> (if find_connection v1 fd \<noteq> None then notifyAndDisconnect fd ''Connection reset'' v1 else Some v1);
       Some (True, v2)
     }
     else do {
       (ok2, v2) \<leftarrow> (if revents AND POLLOUT \<noteq> 0 then handleWrite fd (env_send env fd) v1 else Some (True, v1));
       if \<not> ok2 then do { v3 \<leftarrow> notifyAndDisconnect fd ''Connection reset'' v2; Some (True, v3) }
       else if revents AND (POLLERR OR POLLHUP OR POLLNVAL) \<noteq> 0
         then do { v3 \<leftarrow> notifyAndDisconnect fd ''Connection reset'' v2; Some (True, v3) }
       else Some (False, v2)
     }
   }"

partial_function (option) scan :: "io_env \<Rightarrow> nat \<Rightarrow> server \<Rightarrow> outcome option" where
  "scan env i v =
     (if i < length (sv_pollfds v) then
        (let revents = pfd_revents (sv_pollfds v ! i); fd = pfd_fd (sv_pollfds v ! i) in
         if revents = 0 then scan env (i + 1) v
         else if fd = sv_listenFd v then
           (if revents AND POLLIN \<noteq> 0
            then (case acceptClient (env_accept env) v of
                Inl e \<Rightarrow> Some (Inl e) | Inr v1 \<Rightarrow> scan env (i + 1) v1)
            else scan env (i + 1) v)
         else Option.bind (handle_client env fd revents v) (\<lambda>(gone, v1).
           if gone then scan env i v1 else scan env (i + 1) v1))
      else Some (Inr v))"

primrec disconnect_timed_out :: "int list \<Rightarrow> server \<Rightarrow> server option" where
  "disconnect_timed_out [] v = Some v"
| "disconnect_timed_out (fd # fds) v =
     do { v1 \<leftarrow> notifyAndDisconnect fd ''Ping timeout'' v; disconnect_timed_out fds v1 }"

text \<open>\<open>poll\<close> fills in the \<open>revents\<close> field of every entry.\<close>

definition poll_revents :: "io_env \<Rightarrow> server \<Rightarrow> server" where
  "poll_revents env v = v\<lparr>sv_pollfds := map (\<lambda>p. p\<lparr>pfd_revents := env_revents env (pfd_fd p)\<rparr>) (sv_pollfds v)\<rparr>"

definition serve_events :: "io_env \<Rightarrow> server \<Rightarrow> outcome option" where
  "serve_events env v = do {
     outcome \<leftarrow> scan env 0 (poll_revents env v);
     case outcome of
       Inl e \<Rightarrow> Some (Inl e)
     | Inr v1 \<Rightarrow> do {
         v2 \<leftarrow> disconnect_timed_out (collectTimedOutClients (sv_healthMonitor v1) (env_now env)) v1;
         Some (Inr v2)
       }
   }"

text \<open>\<open>run\<close> for the turns of the loop the environment offers: it has thrown, it has returned because of
  the shutdown flag, or it is still in the loop when the turns are used up.\<close>

datatype run_result = Thrown string server | Returned server | Running server

fun run :: "io_env list \<Rightarrow> server \<Rightarrow> run_result option" where
  "run [] v = Some (Running v)"
| "run (env # envs) v =
     (if env_shutdown_before env then Some (Returned v)
      else case env_poll env of
        PollInterrupted \<Rightarrow> if env_shutdown_after env then Some (Returned v) else run envs v
      | PollFailed e \<Rightarrow> Some (Thrown (''poll() failed: '' @ e) v)
      | PollReady \<Rightarrow>
          if env_shutdown_after env then Some (Returned v)
          else do {
            outcome \<leftarrow> serve_events env v;
            case outcome of Inl (e, v1) \<Rightarrow> Some (Thrown e v1) | Inr v1 \<Rightarrow> run envs v1
          })"

section \<open>Construction and destruction\<close>

text \<open>The constructor after \<open>socket\<close>, \<open>bind\<close> and \<open>listen\<close> succeeded on \<open>listenFd\<close>, which is open.\<close>

definition new_Server :: "(addr list \<Rightarrow> addr) \<Rightarrow> int \<Rightarrow> string \<Rightarrow> server" where
  "new_Server p listenFd pw = addFd listenFd POLLIN
     \<lparr>sv_listenFd = listenFd, sv_pollfds = [], sv_connections = [],
      sv_state = new_ServerState p pw, sv_healthMonitor = new_HealthMonitor 30, sv_open = [listenFd]\<rparr>"

partial_function (option) close_connections :: "server \<Rightarrow> server option" where
  "close_connections v =
     (case sv_connections v of
        [] \<Rightarrow> Some v
      | (fd, conn) # rest \<Rightarrow> Option.bind (disconnectClient fd v) close_connections)"

definition closeAllFds :: "server \<Rightarrow> server option" where
  "closeAllFds v = do {
     v1 \<leftarrow> close_connections v;
     let v2 = (if sv_listenFd v1 \<ge> 0
       then (removeFd (sv_listenFd v1) (close_sys (sv_listenFd v1) v1))\<lparr>sv_listenFd := -1\<rparr> else v1);
     Some (v2\<lparr>sv_pollfds := []\<rparr>)
   }"

end
