(* ===== verification/ChannelView.thy ===== *)
theory ChannelView
  imports DispatchSafety
begin

text \<open>
  The abstract view of the chat: each channel name (up to the case rules of IRC) stands for the set
  of the descriptors that take part in it. The pointers, the tables and the operator flags are gone.
  The operations of \<open>ServerState\<close> and the commands refine set insertion and set deletion on
  this view.
\<close>

section \<open>The view\<close>

definition channel_view :: "'z server_state_scheme \<Rightarrow> string \<Rightarrow> int set" where
  "channel_view s n = {cl_fd c | x h a c. deref_channel s x = Some h \<and> irc_key (ch_name h) = irc_key n
     \<and> hasMember h a \<and> deref_client s a = Some c}"

lemma channel_view_iff:
  "fd \<in> channel_view s n \<longleftrightarrow> (\<exists>x h a c. deref_channel s x = Some h \<and> irc_key (ch_name h) = irc_key n
     \<and> hasMember h a \<and> deref_client s a = Some c \<and> cl_fd c = fd)"
  by (auto simp: channel_view_def)

lemma channel_view_cong: "irc_key m = irc_key n \<Longrightarrow> channel_view s m = channel_view s n"
  by (simp add: channel_view_def)

lemma insert_view_cong:
  "(if irc_key m = irc_key n then insert fd (channel_view s n) else A) =
     (if irc_key m = irc_key n then insert fd (channel_view s m) else A)"
  "(if irc_key m = irc_key n then channel_view s n - {fd} else A) =
     (if irc_key m = irc_key n then channel_view s m - {fd} else A)"
  using channel_view_cong [of m n s] by simp_all

text \<open>What the view depends on.\<close>

definition view_of_channel :: "channel \<Rightarrow> int list \<times> (addr \<Rightarrow> bool)" where
  "view_of_channel h = (irc_key (ch_name h), hasMember h)"

lemma channel_view_alt:
  "channel_view s n = {fd. \<exists>x m a. map_option view_of_channel (deref_channel s x) = Some (irc_key n, m) \<and> m a
     \<and> map_option cl_fd (deref_client s a) = Some fd}"
  by (auto simp: channel_view_def view_of_channel_def)

lemma channel_view_frame:
  assumes "\<And>x. map_option view_of_channel (deref_channel s' x) = map_option view_of_channel (deref_channel s x)"
    and "\<And>a. map_option cl_fd (deref_client s' a) = map_option cl_fd (deref_client s a)"
  shows "channel_view s' n = channel_view s n"
  unfolding channel_view_alt assms ..

section \<open>Joining and leaving\<close>

text \<open>A channel is filed under its name, so the channel found under \<open>n\<close> is the only one whose
  members make up the view of \<open>n\<close>.\<close>

lemma channel_view_found:
  assumes "core_inv s" "getChannel s n = Some x" "deref_channel s x = Some h"
  shows "channel_view s n = {cl_fd c | a c. hasMember h a \<and> deref_client s a = Some c}"
    and "irc_key (ch_name h) = irc_key n"
    and "deref_channel s y = Some g \<Longrightarrow> irc_key (ch_name g) = irc_key n \<Longrightarrow> y = x"
proof -
  show key: "irc_key (ch_name h) = irc_key n" using live_by_name [OF assms(1,2)] assms(3) by auto
  show only: "y = x" if "deref_channel s y = Some g" "irc_key (ch_name g) = irc_key n" for y g
    using name_of_live [OF assms(1) that(1)] lookup_equivalent(2) [OF that(2), of s] assms(2) by simp
  show "channel_view s n = {cl_fd c | a c. hasMember h a \<and> deref_client s a = Some c}"
    unfolding channel_view_def using only key assms(3) by fastforce
qed

lemma channel_view_absent:
  assumes "core_inv s" "getChannel s n = None"
  shows "channel_view s n = {}"
proof -
  have "False" if "deref_channel s y = Some g" "irc_key (ch_name g) = irc_key n" for y g
    using name_of_live [OF assms(1) that(1)] lookup_equivalent(2) [OF that(2), of s] assms(2) by simp
  then show ?thesis by (auto simp: channel_view_def)
qed

text \<open>The view after one channel and one client were replaced, the client keeping its descriptor.\<close>

lemma channel_view_update:
  assumes "core_inv s" "deref_client s a = Some c" "cl_fd c1 = cl_fd c"
    and "deref_client s' = (deref_client s)(a := Some c1)" "deref_channel s' = (deref_channel s)(x := v)"
    and name: "\<And>h. v = Some h \<Longrightarrow> irc_key (ch_name h) = irc_key n"
    and old: "\<And>g. deref_channel s x = Some g \<Longrightarrow> irc_key (ch_name g) = irc_key n"
    and only: "\<And>y g. deref_channel s y = Some g \<Longrightarrow> irc_key (ch_name g) = irc_key n \<Longrightarrow> y = x"
  shows "channel_view s' m = (if irc_key m = irc_key n
    then {cl_fd d | h b d. v = Some h \<and> hasMember h b \<and> deref_client s b = Some d} else channel_view s m)"
proof -
  have fds: "map_option cl_fd (deref_client s' b) = map_option cl_fd (deref_client s b)" for b
    using assms(2-4) by simp
  have fds': "(\<exists>d. deref_client s' b = Some d \<and> cl_fd d = fd) \<longleftrightarrow> (\<exists>d. deref_client s b = Some d \<and> cl_fd d = fd)" for b fd
    using fds [of b] by (cases "deref_client s' b"; cases "deref_client s b") auto
  show ?thesis
  proof (cases "irc_key m = irc_key n")
    case True
    have "fd \<in> channel_view s' m \<longleftrightarrow> (\<exists>h b. v = Some h \<and> hasMember h b \<and> (\<exists>d. deref_client s' b = Some d \<and> cl_fd d = fd))" for fd
    proof
      assume "fd \<in> channel_view s' m"
      then obtain y h b d where y: "deref_channel s' y = Some h" "irc_key (ch_name h) = irc_key m" "hasMember h b"
        "deref_client s' b = Some d" "cl_fd d = fd" unfolding channel_view_iff by blast
      have "y = x" using y(1,2) True only assms(5) by (cases "y = x") auto
      with y assms(5) show "\<exists>h b. v = Some h \<and> hasMember h b \<and> (\<exists>d. deref_client s' b = Some d \<and> cl_fd d = fd)" by auto
    next
      assume "\<exists>h b. v = Some h \<and> hasMember h b \<and> (\<exists>d. deref_client s' b = Some d \<and> cl_fd d = fd)"
      then show "fd \<in> channel_view s' m" using name True assms(5) unfolding channel_view_iff by fastforce
    qed
    with True show ?thesis unfolding fds' by (simp add: set_eq_iff) blast
  next
    case False
    have "map_option view_of_channel (deref_channel s' y) = Some (irc_key m, p)
        \<longleftrightarrow> map_option view_of_channel (deref_channel s y) = Some (irc_key m, p)" for y p
      using False name old assms(5) by (cases "y = x") (auto simp: view_of_channel_def)
    with False show ?thesis unfolding channel_view_alt by (simp add: fds)
  qed
qed

lemma join_view:
  assumes "state_inv s" "deref_client s a = Some c" "cl_registered c" "isValidChannelName n"
  shows "succeeds (addClientToChannel (Some a) n s) (\<lambda>(r, s'). \<forall>m. channel_view s' m =
    (if irc_key m = irc_key n then insert (cl_fd c) (channel_view s m) else channel_view s m))"
proof -
  have core: "core_inv s" using assms(1) by blast
  let ?h0 = "case Option.bind (getChannel s n) (deref_channel s) of Some h \<Rightarrow> h | None \<Rightarrow> new_Channel n"
  obtain x s1 c1 h1 where s1: "addClientToChannel (Some a) n s = Some (Some x, s1)" "state_inv s1"
    "deref_client s1 = (deref_client s)(a := Some c1)" "c1 = client_after_join x c"
    "deref_channel s1 = (deref_channel s)(x := Some h1)" "h1 = channel_after_join a ?h0"
    by (rule addClientToChannel_succeeds [OF assms])
  have fd: "cl_fd c1 = cl_fd c" by (simp add: s1(4) client_after_join_def unsafe_joinChannel_def)
  show ?thesis
  proof (cases "getChannel s n")
    case None
    from addClientToChannel_new [OF assms(1-3) None assms(4)] s1(1)
    have fresh: "deref_channel s x = None" by auto
    have none: "irc_key (ch_name g) \<noteq> irc_key n" if "deref_channel s y = Some g" for y g
      using name_of_live [OF core that] lookup_equivalent(2) [of "ch_name g" n s] None by auto
    have h: "channel_wf (new_Channel n)" "ch_name h1 = n" "hasMember h1 b \<longleftrightarrow> b = a" for b
      using None by (simp_all add: s1(6) channel_after_join_def)
    have "channel_view s1 m = (if irc_key m = irc_key n
        then {cl_fd d | h b d. Some h1 = Some h \<and> hasMember h b \<and> deref_client s b = Some d} else channel_view s m)" for m
      using h fresh none by (intro channel_view_update [OF core assms(2) fd s1(3,5)]) auto
    with h assms(2) s1(1) channel_view_absent [OF core None] show ?thesis
      by (auto simp: channel_view_def)
  next
    case (Some y)
    from live_by_name [OF core Some] obtain h where h: "deref_channel s y = Some h" by blast
    from addClientToChannel_old [OF assms(1-3) Some h] s1(1) have x: "x = y" by auto
    note found = channel_view_found [OF core Some h]
    have wf: "channel_wf h" by (rule live_channel_wf [OF core h])
    have h1: "h1 = channel_after_join a h" using Some h by (simp add: s1(6))
    have v: "channel_view s1 m = (if irc_key m = irc_key n
        then {cl_fd d | h b d. Some h1 = Some h \<and> hasMember h b \<and> deref_client s b = Some d} else channel_view s m)" for m
      by (rule channel_view_update [OF core assms(2) fd s1(3,5)])
        (use found(2) h h1 x in \<open>simp_all add: found(3)\<close>)
    have w: "{cl_fd d | h b d. Some h1 = Some h \<and> hasMember h b \<and> deref_client s b = Some d} = insert (cl_fd c) (channel_view s n)"
      unfolding found(1) using wf assms(2) h1 by auto
    show ?thesis unfolding s1(1) succeeds_Some prod.case v w by (simp add: insert_view_cong)
  qed
qed

text \<open>A descriptor belongs to one client.\<close>

lemma cl_fd_inj:
  "core_inv s \<Longrightarrow> deref_client s a = Some c \<Longrightarrow> deref_client s b = Some d \<Longrightarrow> cl_fd c = cl_fd d \<Longrightarrow> a = b"
  using fd_of_live [of s a c] fd_of_live [of s b d] by simp

lemma leave_view:
  assumes "state_inv s" "deref_client s a = Some c" "getChannel s n = Some x"
    and "deref_channel s x = Some h" "hasMember h a"
  shows "succeeds (removeClientFromChannel (Some a) n s) (\<lambda>s'. \<forall>m. channel_view s' m =
    (if irc_key m = irc_key n then channel_view s m - {cl_fd c} else channel_view s m))"
proof -
  have core: "core_inv s" using assms(1) by blast
  let ?h = "unsafe_removeClientState a h"
  let ?v = "if channel_isEmpty ?h then None else Some ?h"
  from removeClientFromChannel_succeeds [OF assms] obtain s1 where
    s1: "removeClientFromChannel (Some a) n s = Some s1"
      "deref_client s1 = (deref_client s)(a := Some (unsafe_leaveChannel x c))"
      "deref_channel s1 = (deref_channel s)(x := ?v)"
    unfolding succeeds_iff by blast
  note found = channel_view_found [OF core assms(3,4)]
  have wf: "channel_wf h" by (rule live_channel_wf [OF core assms(4)])
  have fd: "cl_fd (unsafe_leaveChannel x c) = cl_fd c" by (simp add: unsafe_leaveChannel_def)
  have v: "channel_view s1 m = (if irc_key m = irc_key n
      then {cl_fd d | g b d. ?v = Some g \<and> hasMember g b \<and> deref_client s b = Some d} else channel_view s m)" for m
    using found(2) found(3) assms(4) by (intro channel_view_update [OF core assms(2) fd s1(2,3)]) (auto split: if_splits)
  have w: "{cl_fd d | g b d. ?v = Some g \<and> hasMember g b \<and> deref_client s b = Some d} = channel_view s n - {cl_fd c}"
  proof -
    have right: "\<exists>g. ?v = Some g \<and> hasMember g b" if "hasMember h b" "b \<noteq> a" for b
    proof -
      have "hasMember ?h b" using that wf by simp
      with wf channel_isEmpty_iff [of ?h] show ?thesis by auto
    qed
    have sub: "hasMember h b \<and> b \<noteq> a" if "?v = Some g" "hasMember g b" for g b
      using that wf by (auto split: if_splits)
    show ?thesis
    proof (intro equalityI subsetI)
      fix fd assume "fd \<in> {cl_fd d | g b d. ?v = Some g \<and> hasMember g b \<and> deref_client s b = Some d}"
      then obtain g b d where "fd = cl_fd d" "?v = Some g" "hasMember g b" "deref_client s b = Some d" by blast
      with sub [of g b] cl_fd_inj [OF core assms(2), of b d] show "fd \<in> channel_view s n - {cl_fd c}"
        unfolding found(1) by auto
    next
      fix fd assume "fd \<in> channel_view s n - {cl_fd c}"
      then obtain b d where b: "fd = cl_fd d" "hasMember h b" "deref_client s b = Some d" "fd \<noteq> cl_fd c"
        unfolding found(1) by blast
      then have "b \<noteq> a" using assms(2) by auto
      from right [OF b(2) this] b show "fd \<in> {cl_fd d | g b d. ?v = Some g \<and> hasMember g b \<and> deref_client s b = Some d}"
        by blast
    qed
  qed
  show ?thesis unfolding s1(1) succeeds_Some v w by (simp add: insert_view_cong)
qed

text \<open>The end of a connection.\<close>

lemma removeClient_view:
  assumes "state_inv s" "getClientByFd s fd = Some a" "deref_client s a = Some c"
  shows "succeeds (removeClient fd s) (\<lambda>s'. \<forall>m. channel_view s' m = channel_view s m - {fd})"
proof -
  have core: "core_inv s" using assms(1) by blast
  from removeClient_succeeds [OF assms] obtain s' where s': "removeClient fd s = Some s'"
    "deref_client s' = (deref_client s)(a := None)"
    "\<And>x. deref_channel s' x = (if x \<in> set (cl_channels c)
       then map_option (removeInvite a) (Option.bind (deref_channel s x) (channel_after_leave a))
       else map_option (removeInvite a) (deref_channel s x))"
    unfolding succeeds_iff by blast
  have fd: "cl_fd c = fd" using live_by_fd [OF core assms(2)] assms(3) by auto
  have members: "(\<exists>h. deref_channel s' x = Some h \<and> irc_key (ch_name h) = k \<and> hasMember h b)
      \<longleftrightarrow> (\<exists>h. deref_channel s x = Some h \<and> irc_key (ch_name h) = k \<and> hasMember h b \<and> b \<noteq> a)" for x k b
  proof (cases "deref_channel s x")
    case (Some h)
    have wf: "channel_wf h" by (rule live_channel_wf [OF core Some])
    have joined: "x \<in> set (cl_channels c) \<longleftrightarrow> hasMember h a"
      using joined_channel [OF core assms(3), of x] live_member [OF core Some, of a] Some assms(3) by auto
    have "hasMember (unsafe_removeClientState a h) b \<Longrightarrow> \<not> channel_isEmpty (unsafe_removeClientState a h)"
      using channel_isEmpty_iff [of "unsafe_removeClientState a h"] wf by auto
    with Some wf joined show ?thesis
      by (cases "b = a") (auto simp: s'(3) channel_after_leave_def Let_def)
  qed (simp add: s'(3))
  have view: "e \<in> channel_view t m \<longleftrightarrow> (\<exists>x b. (\<exists>h. deref_channel t x = Some h \<and> irc_key (ch_name h) = irc_key m \<and> hasMember h b)
      \<and> (\<exists>d. deref_client t b = Some d \<and> cl_fd d = e))" for e m and t :: "'a server_state_scheme"
    unfolding channel_view_iff by blast
  have "e \<in> channel_view s' m \<longleftrightarrow> e \<in> channel_view s m - {fd}" for e m
  proof
    assume "e \<in> channel_view s' m"
    then obtain x b d h where "deref_channel s x = Some h" "irc_key (ch_name h) = irc_key m" "hasMember h b" "b \<noteq> a"
      "deref_client s b = Some d" "cl_fd d = e"
      unfolding view members by (auto simp: s'(2) split: if_splits)
    with cl_fd_inj [OF core assms(3), of b d] fd show "e \<in> channel_view s m - {fd}"
      by (auto simp: channel_view_iff)
  next
    assume "e \<in> channel_view s m - {fd}"
    then obtain x b d h where b: "deref_channel s x = Some h" "irc_key (ch_name h) = irc_key m" "hasMember h b"
      "deref_client s b = Some d" "cl_fd d = e" "e \<noteq> fd"
      by (auto simp: channel_view_iff)
    then have "b \<noteq> a" using assms(3) fd by auto
    with b show "e \<in> channel_view s' m" unfolding view members by (auto simp: s'(2))
  qed
  with s'(1) show ?thesis by auto
qed

text \<open>Those told about the end of a connection are those who share a channel with it.\<close>

lemma quit_targets_view:
  assumes "core_inv s" "getClientByFd s fd = Some a" "deref_client s a = Some c"
  shows "quit_targets s fd = (\<Union>n \<in> {n. fd \<in> channel_view s n}. channel_view s n) - {fd}"
proof -
  have fd: "cl_fd c = fd" using live_by_fd [OF assms(1,2)] assms(3) by auto
  show ?thesis
  proof (intro equalityI subsetI)
    fix e assume "e \<in> quit_targets s fd"
    then obtain x h b d where e: "e = cl_fd d" "x \<in> set (cl_channels c)" "deref_channel s x = Some h" "hasMember h b"
      "deref_client s b = Some d" "e \<noteq> fd"
      unfolding quit_targets_def using assms(2,3) by auto
    with joined_channel [OF assms(1,3) e(2)] have "hasMember h a" by auto
    with e assms(3) fd have "fd \<in> channel_view s (ch_name h)" "e \<in> channel_view s (ch_name h)"
      unfolding channel_view_iff by blast+
    with e(6) show "e \<in> (\<Union>n \<in> {n. fd \<in> channel_view s n}. channel_view s n) - {fd}" by blast
  next
    fix e assume "e \<in> (\<Union>n \<in> {n. fd \<in> channel_view s n}. channel_view s n) - {fd}"
    then obtain n where n: "fd \<in> channel_view s n" "e \<in> channel_view s n" "e \<noteq> fd" by blast
    from n(1) obtain x h b d where x: "deref_channel s x = Some h" "irc_key (ch_name h) = irc_key n"
      "hasMember h b" "deref_client s b = Some d" "cl_fd d = fd" unfolding channel_view_iff by blast
    have "b = a" using fd_of_live [OF assms(1) x(4)] x(5) assms(2) by simp
    with live_member [OF assms(1) x(1,3)] assms(3) have mem: "x \<in> set (cl_channels c)" by auto
    from n(2) obtain y g b' d' where y: "deref_channel s y = Some g" "irc_key (ch_name g) = irc_key n"
      "hasMember g b'" "deref_client s b' = Some d'" "cl_fd d' = e" unfolding channel_view_iff by blast
    have "y = x" using name_of_live [OF assms(1) x(1)] name_of_live [OF assms(1) y(1)]
        lookup_equivalent(2) [of "ch_name g" "ch_name h" s] x(2) y(2) by simp
    with x(1) y mem n(3) assms(2,3) show "e \<in> quit_targets s fd" unfolding quit_targets_def by auto
  qed
qed

end
