(* ===== verification/CommandEffects.thy ===== *)
theory CommandEffects
  imports ChannelView
begin

text \<open>
  What a command can change, and for whom. Two questions are answered for \<open>dispatch\<close>, so for
  every message of every client: how the sets of \<open>ChannelView\<close> change, and who may change the
  modes, the operators and the topic of a channel.
\<close>

section \<open>Specifications\<close>

definition same_view :: "'z server_state_scheme \<Rightarrow> 'z server_state_scheme \<Rightarrow> bool" where
  "same_view s s' \<longleftrightarrow> channel_view s' = channel_view s"

definition channel_named :: "'z server_state_scheme \<Rightarrow> string \<Rightarrow> channel option" where
  "channel_named s n = Option.bind (getChannel s n) (deref_channel s)"

definition operator_of :: "'z server_state_scheme \<Rightarrow> addr \<Rightarrow> string \<Rightarrow> bool" where
  "operator_of s a n \<longleftrightarrow> (case channel_named s n of None \<Rightarrow> False | Some h \<Rightarrow> isOperator h a)"

text \<open>Who may enter: a member always; anybody else under the modes \<open>i\<close>, \<open>k\<close> and \<open>l\<close>.\<close>

definition may_join :: "'z server_state_scheme \<Rightarrow> addr \<Rightarrow> message \<Rightarrow> bool" where
  "may_join s a msg \<longleftrightarrow> (case channel_named s (getSingleParam msg 0) of
     None \<Rightarrow> True
   | Some h \<Rightarrow> hasMember h a \<or>
       (cm_inviteOnly (ch_modes h) \<longrightarrow> isInvited h a)
       \<and> (cm_hasKey (ch_modes h) \<longrightarrow> hasParam msg 1 \<and> getSingleParam msg 1 = cm_key (ch_modes h))
       \<and> (0 \<le> cm_limit (ch_modes h) \<longrightarrow> card {b. hasMember h b} < nat (cm_limit (ch_modes h))))"

section \<open>Changes that the view does not see\<close>

lemma same_view_refl [simp]: "same_view s s"
  by (simp add: same_view_def)

lemma same_view_trans: "same_view s t \<Longrightarrow> same_view t u \<Longrightarrow> same_view s u"
  by (simp add: same_view_def)

lemma update_client_view:
  assumes "update_client a f s = Some s'" "heap_wf s" "\<And>c. cl_fd (f c) = cl_fd c"
  shows "same_view s s'" "heap_wf s'" "deref_channel s' = deref_channel s"
proof -
  from assms(1) obtain c where c: "deref_client s a = Some c" "s' = store_client a (f c) s"
    by (auto simp: update_client_def bind_eq_Some_conv)
  with assms(2,3) show "same_view s s'" by (auto simp: same_view_def fun_eq_iff intro!: channel_view_frame)
  show "heap_wf s'" "deref_channel s' = deref_channel s" using c assms(2) by simp_all
qed

lemma update_channel_view:
  assumes "update_channel x f s = Some s'" "heap_wf s"
    and "\<And>h. deref_channel s x = Some h \<Longrightarrow> view_of_channel (f h) = view_of_channel h"
  shows "same_view s s'"
proof -
  from assms(1) obtain h where h: "deref_channel s x = Some h" "s' = store_channel x (f h) s"
    by (auto simp: update_channel_def bind_eq_Some_conv)
  with assms(2,3) show ?thesis by (auto simp: same_view_def fun_eq_iff intro!: channel_view_frame)
qed

lemma view_of_channel_ops [simp]:
  "view_of_channel (setTopic t h) = view_of_channel h"
  "view_of_channel (addInvite a h) = view_of_channel h"
  "view_of_channel (h\<lparr>ch_modes := m\<rparr>) = view_of_channel h"
  "channel_wf h \<Longrightarrow> view_of_channel (setOperator b v h) = view_of_channel h"
  by (auto simp: view_of_channel_def fun_eq_iff)

lemma maybeRegister_view:
  "heap_wf s \<Longrightarrow> yields (maybeRegister a r s) (\<lambda>p. same_view s (snd p) \<and> deref_channel (snd p) = deref_channel s)"
  unfolding maybeRegister_def
  by (intro yields_intros) (auto simp: markRegistered_def dest: update_client_view)

lemma one_reply_keeps [simp]: "yields (one_reply fd t s) P \<longleftrightarrow> P (addReply fd t new_CommandResult, s)"
  by (simp add: one_reply_def)

lemma error_reply_keeps:
  "yields (error_reply b fd t s) (\<lambda>p. snd p = s)"
  by (simp add: error_reply_def)

lemma handleTextMessage_state: "yields (handleTextMessage fd msg a cmd b s) (\<lambda>p. snd p = s)"
  unfolding handleTextMessage_def Let_def
  by (intro yields_intros error_reply_keeps) simp_all

lemma handlePass_view:
  "heap_wf s \<Longrightarrow> yields (handlePass fd msg a s) (\<lambda>p. same_view s (snd p) \<and> deref_channel (snd p) = deref_channel s)"
  unfolding handlePass_def
  by (intro yields_intros) (auto simp: setPassOk_def dest: update_client_view)

lemma handleUser_view:
  assumes "heap_wf s"
  shows "yields (handleUser fd msg a s) (\<lambda>p. same_view s (snd p) \<and> deref_channel (snd p) = deref_channel s)"
proof -
  have step: "yields (maybeRegister a r s2) (\<lambda>p. same_view s (snd p) \<and> deref_channel (snd p) = deref_channel s)"
    if "update_client a (setUsername u) s = Some s1" "update_client a (setRealname v) s1 = Some s2" for u v s1 s2 r
  proof -
    note u1 = update_client_view [OF that(1) assms, simplified setUsername_def, simplified]
    note u2 = update_client_view [OF that(2) u1(2), simplified setRealname_def, simplified]
    from maybeRegister_view [OF u2(2), of a r] u1 u2 show ?thesis by (auto simp: yields_def same_view_def)
  qed
  show ?thesis
    unfolding handleUser_def by (intro yields_intros) (auto intro: step)
qed

lemma handleNick_view:
  assumes "state_inv s" "deref_client s a = Some c"
  shows "yields (handleNick fd msg a s) (\<lambda>p. same_view s (snd p) \<and> deref_channel (snd p) = deref_channel s)"
proof -
  have step: "same_view s s1 \<and> heap_wf s1 \<and> deref_channel s1 = deref_channel s"
    if n: "isValidNickname n" and u: "updateNick a n s = Some (ok, s1)" for n ok s1
  proof -
    from updateNick_succeeds [OF assms n] u have inv: "state_inv s1" "deref_channel s1 = deref_channel s"
      and cl: "deref_client s1 = (deref_client s)(a := Some (c\<lparr>cl_nickname := n\<rparr>)) \<or> s1 = s" by auto
    have "map_option cl_fd (deref_client s1 b) = map_option cl_fd (deref_client s b)" for b
      using cl assms(2) by auto
    with inv show ?thesis by (auto simp: same_view_def fun_eq_iff intro!: channel_view_frame)
  qed
  have reg: "yields (maybeRegister a r s1) (\<lambda>p. same_view s (snd p) \<and> deref_channel (snd p) = deref_channel s)"
    if "isValidNickname n" "updateNick a n s = Some (ok, s1)" for n ok s1 r
    using step [OF that] maybeRegister_view [of s1 a r] by (auto simp: yields_def same_view_def)
  show ?thesis
    unfolding handleNick_def Let_def
    by (intro yields_intros) (auto intro: reg dest: step)
qed

section \<open>Rights on a channel\<close>

text \<open>\<open>rights_respected s a command s'\<close>: whatever changed on a channel that existed before, the
  client at \<open>a\<close> was entitled to change it with \<open>command\<close>.\<close>

definition may_leave :: "channel \<Rightarrow> addr \<Rightarrow> string \<Rightarrow> addr \<Rightarrow> bool" where
  "may_leave h a command b \<longleftrightarrow> command = ''PART'' \<and> b = a \<or> command = ''KICK'' \<and> isOperator h a"

definition entitled :: "channel \<Rightarrow> addr \<Rightarrow> string \<Rightarrow> channel \<Rightarrow> bool" where
  "entitled h a command h' \<longleftrightarrow>
     (ch_topic h' \<noteq> ch_topic h \<longrightarrow> command = ''TOPIC'' \<and> hasMember h a
        \<and> (cm_topicRestricted (ch_modes h) \<longrightarrow> isOperator h a))
     \<and> (ch_modes h' \<noteq> ch_modes h \<longrightarrow> command = ''MODE'' \<and> isOperator h a)
     \<and> (\<forall>b. isOperator h' b \<longrightarrow> isOperator h b \<or> command = ''MODE'' \<and> isOperator h a)
     \<and> (\<forall>b. isOperator h b \<longrightarrow> isOperator h' b \<or> command = ''MODE'' \<and> isOperator h a
        \<or> \<not> hasMember h' b \<and> may_leave h a command b)"

definition rights_respected :: "'z server_state_scheme \<Rightarrow> addr \<Rightarrow> string \<Rightarrow> 'z server_state_scheme \<Rightarrow> bool" where
  "rights_respected s a command s' \<longleftrightarrow>
     (\<forall>x h h'. deref_channel s x = Some h \<longrightarrow> deref_channel s' x = Some h' \<longrightarrow> entitled h a command h')"

lemma rights_same [simp]: "deref_channel s' = deref_channel s \<Longrightarrow> rights_respected s a command s'"
  by (auto simp: rights_respected_def entitled_def)

lemma rights_upd:
  "deref_channel s' = (deref_channel s)(x := v) \<Longrightarrow>
     (\<And>h h'. deref_channel s x = Some h \<Longrightarrow> v = Some h' \<Longrightarrow> entitled h a command h') \<Longrightarrow> rights_respected s a command s'"
  by (auto simp: rights_respected_def) (auto simp: entitled_def)

lemma rights_update_channel:
  "update_channel x f s = Some s' \<Longrightarrow> heap_wf s \<Longrightarrow>
     (\<And>h. deref_channel s x = Some h \<Longrightarrow> entitled h a command (f h)) \<Longrightarrow> rights_respected s a command s'"
  by (auto simp: update_channel_def bind_eq_Some_conv intro!: rights_upd)

lemma entitled_leave: "channel_wf h \<Longrightarrow> may_leave h a command b \<Longrightarrow> entitled h a command (unsafe_removeClientState b h)"
  by (auto simp: entitled_def)

section \<open>TOPIC, MODE and INVITE\<close>

definition harmless :: "'z server_state_scheme \<Rightarrow> addr \<Rightarrow> string \<Rightarrow> 'z server_state_scheme \<Rightarrow> bool" where
  "harmless s a command s' \<longleftrightarrow> same_view s s' \<and> rights_respected s a command s'"

lemma harmless_refl [simp]: "harmless s a command s"
  by (simp add: harmless_def)

lemma harmless_update_channel:
  assumes "state_inv s" "update_channel x f s = Some s'"
    and "\<And>h. deref_channel s x = Some h \<Longrightarrow> channel_wf h \<Longrightarrow> view_of_channel (f h) = view_of_channel h \<and> entitled h a command (f h)"
  shows "harmless s a command s'"
proof -
  have core: "core_inv s" and wf: "heap_wf s" using assms(1) by auto
  show ?thesis unfolding harmless_def
    using update_channel_view [OF assms(2) wf] rights_update_channel [OF assms(2) wf] assms(3) live_channel_wf [OF core]
    by simp
qed

lemma entitled_topic:
  "hasMember h a \<Longrightarrow> \<not> (isTopicRestricted (ch_modes h) \<and> \<not> isOperator h a) \<Longrightarrow> entitled h a ''TOPIC'' (setTopic t h)"
  by (auto simp: entitled_def isTopicRestricted_def)

lemma handleTopic_effect:
  assumes "state_inv s"
  shows "yields (handleTopic fd msg a s) (\<lambda>p. harmless s a ''TOPIC'' (snd p))"
proof -
  have final: "harmless s a ''TOPIC'' s1"
    if "update_channel x (setTopic t) s = Some s1" "deref_channel s x = Some h" "hasMember h a"
      "\<not> (isTopicRestricted (ch_modes h) \<and> \<not> isOperator h a)" for x t s1 h
    using that entitled_topic [of h a t] by (intro harmless_update_channel [OF assms that(1)]) auto
  show ?thesis
    unfolding handleTopic_def Let_def by (intro yields_intros) (auto intro: final)
qed

lemma entitled_mode:
  "isOperator h a \<Longrightarrow> entitled h a ''MODE'' (h\<lparr>ch_modes := m\<rparr>)"
  "isOperator h a \<Longrightarrow> channel_wf h \<Longrightarrow> entitled h a ''MODE'' (setOperator b v h)"
  by (auto simp: entitled_def setOperator_def split: option.splits)

lemma announceMode_effect:
  assumes "state_inv s" "deref_channel s x = Some h" "isOperator h a"
  shows "yields (announceMode client x n token arg change s) (\<lambda>p. harmless s a ''MODE'' (snd p))"
proof -
  have final: "harmless s a ''MODE'' s1"
    if "update_channel x (\<lambda>h. h\<lparr>ch_modes := change (ch_modes h)\<rparr>) s = Some s1" for s1
    using assms entitled_mode(1) [of h a] by (intro harmless_update_channel [OF assms(1) that]) auto
  show ?thesis
    unfolding announceMode_def by (intro yields_intros) (auto intro: final)
qed

lemma applyOperatorMode_effect:
  assumes "state_inv s" "deref_channel s x = Some h" "isOperator h a"
  shows "yields (applyOperatorMode fd msg client x n token s) (\<lambda>p. harmless s a ''MODE'' (snd p))"
proof -
  have final: "harmless s a ''MODE'' s1" if "update_channel x (setOperator b v) s = Some s1" for b v s1
    using assms entitled_mode(2) [of h a] by (intro harmless_update_channel [OF assms(1) that]) auto
  show ?thesis
    unfolding applyOperatorMode_def Let_def by (intro yields_intros) (auto intro: final)
qed

lemma handleMode_effect:
  assumes "state_inv s"
  shows "yields (handleMode fd msg a s) (\<lambda>p. harmless s a ''MODE'' (snd p))"
  unfolding handleMode_def Let_def
  by (intro yields_intros announceMode_effect [OF assms] applyOperatorMode_effect [OF assms]; assumption?) simp_all

lemma entitled_invite: "entitled h a command (addInvite b h)"
  by (simp add: entitled_def addInvite_def isOperator_def)

lemma handleInvite_effect:
  assumes "state_inv s"
  shows "yields (handleInvite fd msg a s) (\<lambda>p. harmless s a ''INVITE'' (snd p))"
proof -
  have final: "harmless s a ''INVITE'' s1" if "inviteClientToChannel (Some b) (Some x) s = Some s1" for b x s1
  proof -
    have "update_channel x (addInvite b) s = Some s1"
      using that by (auto simp: inviteClientToChannel_def bind_eq_Some_conv split: if_splits)
    from assms this show ?thesis by (rule harmless_update_channel) (auto simp: entitled_invite)
  qed
  show ?thesis
    unfolding handleInvite_def Let_def by (intro yields_intros) (auto intro: final)
qed

section \<open>JOIN, PART and KICK\<close>

text \<open>How the sets change: \<open>entered\<close> adds a descriptor to one name, \<open>left\<close> takes one away.\<close>

definition entered :: "'z server_state_scheme \<Rightarrow> string \<Rightarrow> int \<Rightarrow> 'z server_state_scheme \<Rightarrow> bool" where
  "entered s n fd s' \<longleftrightarrow> (\<forall>m. channel_view s' m =
     (if irc_key m = irc_key n then insert fd (channel_view s m) else channel_view s m))"

definition left :: "'z server_state_scheme \<Rightarrow> string \<Rightarrow> int \<Rightarrow> 'z server_state_scheme \<Rightarrow> bool" where
  "left s n fd s' \<longleftrightarrow> (\<forall>m. channel_view s' m =
     (if irc_key m = irc_key n then channel_view s m - {fd} else channel_view s m))"

lemma entitled_join:
  "channel_wf h \<Longrightarrow> \<not> channel_isEmpty h \<Longrightarrow> entitled h a command (channel_after_join b h)"
  by (simp add: entitled_def)

lemma join_effect:
  assumes "state_inv s" "deref_client s a = Some c" "cl_registered c" "isValidChannelName n"
    "addClientToChannel (Some a) n s = Some (r, s')"
  shows "entered s n (cl_fd c) s' \<and> rights_respected s b command s' \<and> r \<noteq> None"
proof -
  obtain x s1 c1 h1 where s1: "addClientToChannel (Some a) n s = Some (Some x, s1)"
    "deref_channel s1 = (deref_channel s)(x := Some h1)"
    "h1 = channel_after_join a (case Option.bind (getChannel s n) (deref_channel s) of Some h \<Rightarrow> h | None \<Rightarrow> new_Channel n)"
    by (rule addClientToChannel_succeeds [OF assms(1-4)])
  with assms(5) have r: "r = Some x" "s1 = s'" by simp_all
  have core: "core_inv s" using assms(1) by blast
  have "entitled h b command h1" if h: "deref_channel s x = Some h" for h
  proof (cases "getChannel s n")
    case None
    with addClientToChannel_new [OF assms(1-3) None assms(4)] s1(1) h show ?thesis by auto
  next
    case (Some y)
    from live_by_name [OF core Some] obtain g where g: "deref_channel s y = Some g" by blast
    from addClientToChannel_old [OF assms(1-3) Some g] s1(1) have "x = y" by auto
    with s1(3) Some g h have "h1 = channel_after_join a h" by simp
    moreover have "\<not> channel_isEmpty h" using state_invD(2) [OF assms(1)] h by (simp add: nonempty_inv_def)
    ultimately show ?thesis using entitled_join live_channel_wf [OF core h] by simp
  qed
  then have "rights_respected s b command s'" using s1(2) r by (intro rights_upd [of s' s x "Some h1"]) auto
  with join_view [OF assms(1-4)] assms(5) r show ?thesis by (simp add: entered_def)
qed

lemma leave_effect:
  assumes "state_inv s" "deref_client s b = Some d" "getChannel s n = Some x" "deref_channel s x = Some h" "hasMember h b"
    "removeClientFromChannel (Some b) n s = Some s'" "may_leave h a command b"
  shows "left s n (cl_fd d) s' \<and> rights_respected s a command s'"
proof -
  have core: "core_inv s" using assms(1) by blast
  have wf: "channel_wf h" by (rule live_channel_wf [OF core assms(4)])
  from removeClientFromChannel_succeeds [OF assms(1-5)] assms(6)
  have "deref_channel s' = (deref_channel s)(x := (if channel_isEmpty (unsafe_removeClientState b h) then None
      else Some (unsafe_removeClientState b h)))" by simp
  then have "rights_respected s a command s'"
    by (rule rights_upd) (use assms(4) entitled_leave [OF wf assms(7)] in \<open>auto split: if_splits\<close>)
  with leave_view [OF assms(1-5)] assms(6) show ?thesis by (simp add: left_def)
qed

lemma join_refusal_may_join:
  assumes "core_inv s" "getChannel s (getSingleParam msg 0) = Some x" "deref_channel s x = Some h"
  shows "join_refusal c a msg (getSingleParam msg 0) h = None \<longleftrightarrow> may_join s a msg"
  using assms memberCount_card [OF live_channel_wf [OF assms(1,3)]]
  by (auto simp: join_refusal_def may_join_def channel_named_def isInviteOnly_def hasKey_def getKey_def getLimit_def
      split: if_splits)

lemma handleJoin_effect:
  assumes "state_inv s" "deref_client s a = Some c"
  shows "yields (handleJoin fd msg a s) (\<lambda>p. if isRegistered c \<and> hasParam msg 0
      \<and> isValidChannelName (getSingleParam msg 0) \<and> may_join s a msg
    then entered s (getSingleParam msg 0) (cl_fd c) (snd p) \<and> rights_respected s a ''JOIN'' (snd p)
    else snd p = s)"
proof -
  let ?n = "getSingleParam msg 0"
  have core: "core_inv s" using assms(1) by blast
  have absent: "getChannel s ?n = None \<Longrightarrow> may_join s a msg" by (simp add: may_join_def channel_named_def)
  have refusal: "(case getChannel s ?n of None \<Rightarrow> Some None
      | Some x \<Rightarrow> do { h \<leftarrow> deref_channel s x; Some (join_refusal c a msg ?n h) }) = Some z \<Longrightarrow> z = None \<longleftrightarrow> may_join s a msg" for z
    using join_refusal_may_join [OF core] absent by (auto split: option.splits simp: bind_eq_Some_conv)
  show ?thesis
    unfolding handleJoin_def Let_def
    by (intro yields_intros)
      (use assms refusal join_effect [OF assms] in \<open>auto simp: isRegistered_def split: prod.splits\<close>)
qed

lemma handlePart_effect:
  assumes "state_inv s" "deref_client s a = Some c"
  shows "yields (handlePart fd msg a s) (\<lambda>p. snd p = s \<or>
    left s (getSingleParam msg 0) (cl_fd c) (snd p) \<and> rights_respected s a ''PART'' (snd p))"
  unfolding handlePart_def Let_def
  by (intro yields_intros) (auto simp: may_leave_def dest: leave_effect [OF assms, where a = a and command = "''PART''"])

lemma handleKick_effect:
  assumes "state_inv s" "deref_client s a = Some c"
  shows "yields (handleKick fd msg a s) (\<lambda>p. snd p = s \<or>
    operator_of s a (getSingleParam msg 0) \<and> (\<exists>b d. getClientByNick s (getSingleParam msg 1) = Some b \<and> deref_client s b = Some d
      \<and> left s (getSingleParam msg 0) (cl_fd d) (snd p)) \<and> rights_respected s a ''KICK'' (snd p))"
proof -
  have core: "core_inv s" using assms(1) by blast
  have final: "operator_of s a n \<and> (\<exists>b d. getClientByNick s t = Some b \<and> deref_client s b = Some d
      \<and> left s n (cl_fd d) s1) \<and> rights_respected s a ''KICK'' s1"
    if "getChannel s n = Some x" "deref_channel s x = Some h" "isOperator h a" "getClientByNick s t = Some b"
      "hasMember h b" "removeClientFromChannel (Some b) n s = Some s1" for n t x h b s1
  proof -
    from live_by_nick [OF core that(4)] obtain d where d: "deref_client s b = Some d" by blast
    have "may_leave h a ''KICK'' b" using that(3) by (simp add: may_leave_def)
    from leave_effect [OF assms(1) d that(1,2) _ that(6) this] that d show ?thesis
      by (auto simp: operator_of_def channel_named_def)
  qed
  show ?thesis
    unfolding handleKick_def Let_def
    by (intro yields_intros) (auto dest: final)
qed

section \<open>Every command\<close>

text \<open>The effect of one message of the client at \<open>a\<close>, connected under \<open>fd\<close>.\<close>

definition command_effect :: "'z server_state_scheme \<Rightarrow> int \<Rightarrow> addr \<Rightarrow> message \<Rightarrow> 'z server_state_scheme \<Rightarrow> bool" where
  "command_effect s fd a msg s' \<longleftrightarrow> rights_respected s a (msg_command msg) s' \<and>
     (same_view s s'
      \<or> msg_command msg = ''JOIN'' \<and> may_join s a msg \<and> entered s (getSingleParam msg 0) fd s'
      \<or> msg_command msg = ''PART'' \<and> left s (getSingleParam msg 0) fd s'
      \<or> msg_command msg = ''KICK'' \<and> operator_of s a (getSingleParam msg 0)
        \<and> (\<exists>b d. getClientByNick s (getSingleParam msg 1) = Some b \<and> deref_client s b = Some d
          \<and> left s (getSingleParam msg 0) (cl_fd d) s'))"

lemma yields_mono: "yields m P \<Longrightarrow> (\<And>x. P x \<Longrightarrow> Q x) \<Longrightarrow> yields m Q"
  by (simp add: yields_def)

lemma yields_keep:
  "yields m (\<lambda>p. Q (snd p)) \<Longrightarrow> yields (do { (r, s1) \<leftarrow> m; Some (r, s1, hm) }) (\<lambda>p. Q (fst (snd p)))"
  by (auto simp: yields_def bind_eq_Some_conv)

lemma command_effect_same:
  "command_effect s fd a msg s"
  "harmless s a (msg_command msg) s' \<Longrightarrow> command_effect s fd a msg s'"
  "same_view s s' \<and> deref_channel s' = deref_channel s \<Longrightarrow> command_effect s fd a msg s'"
  by (auto simp: command_effect_def harmless_def)

lemma dispatch_effect:
  assumes "state_inv s" "getClientByFd s fd = Some a"
  shows "yields (dispatch fd msg hm now s) (\<lambda>p. command_effect s fd a msg (fst (snd p)))"
proof -
  have core: "core_inv s" and wf: "heap_wf s" using assms(1) by auto
  from live_by_fd [OF core assms(2)] obtain c where c: "deref_client s a = Some c" "cl_fd c = fd" by blast
  let ?E = "\<lambda>p. command_effect s fd a msg (snd p)"
  note same = command_effect_same [where s = s and fd = fd and a = a and msg = msg]
  have said: "yields (handleTextMessage fd msg a cmd b s) ?E" for cmd b
    using handleTextMessage_state by (rule yields_mono) (simp add: same(1))
  have register: "yields (handlePass fd msg a s) ?E" "yields (handleNick fd msg a s) ?E" "yields (handleUser fd msg a s) ?E"
    by (rule yields_mono [OF handlePass_view [OF wf]] yields_mono [OF handleNick_view [OF assms(1) c(1)]]
        yields_mono [OF handleUser_view [OF wf]]; rule same(3); assumption)+
  have modes: "yields (handleMode fd msg a s) ?E" if "msg_command msg = ''MODE''"
    using handleMode_effect [OF assms(1)] by (rule yields_mono) (simp add: same(2) that)
  have topics: "yields (handleTopic fd msg a s) ?E" if "msg_command msg = ''TOPIC''"
    using handleTopic_effect [OF assms(1)] by (rule yields_mono) (simp add: same(2) that)
  have invites: "yields (handleInvite fd msg a s) ?E" if "msg_command msg = ''INVITE''"
    using handleInvite_effect [OF assms(1)] by (rule yields_mono) (simp add: same(2) that)
  have joins: "yields (handleJoin fd msg a s) ?E" if "msg_command msg = ''JOIN''"
    using handleJoin_effect [OF assms(1) c(1)]
    by (rule yields_mono) (auto simp: that c(2) command_effect_def split: if_splits)
  have parts: "yields (handlePart fd msg a s) ?E" if "msg_command msg = ''PART''"
    using handlePart_effect [OF assms(1) c(1)]
    by (rule yields_mono) (auto simp: that c(2) command_effect_def)
  have kicks: "yields (handleKick fd msg a s) ?E" if "msg_command msg = ''KICK''"
    using handleKick_effect [OF assms(1) c(1)]
    by (rule yields_mono) (auto simp: that command_effect_def)
  have live: "yields (f c) P \<Longrightarrow> yields (deref_client s a \<bind> f) P" for f P
    using c(1) by simp
  show ?thesis
    unfolding dispatch_def assms(2) option.case Let_def handleQuit_def handlePrivmsg_def handleNotice_def
    by (intro live yields_ifI yields_keep said register modes topics invites joins parts kicks; assumption?)
      (simp_all add: same(1) split: prod.splits)
qed

section \<open>Before the password\<close>

lemma not_registered_refused:
  assumes "deref_client s a = Some c" "\<not> isRegistered c"
  shows "yields (handleJoin fd msg a s) (\<lambda>p. snd p = s)" "yields (handlePart fd msg a s) (\<lambda>p. snd p = s)"
    "yields (handleKick fd msg a s) (\<lambda>p. snd p = s)" "yields (handleInvite fd msg a s) (\<lambda>p. snd p = s)"
    "yields (handleTopic fd msg a s) (\<lambda>p. snd p = s)" "yields (handleMode fd msg a s) (\<lambda>p. snd p = s)"
  using assms by (simp_all add: handleJoin_def handlePart_def handleKick_def handleInvite_def handleTopic_def handleMode_def)

lemma handlePass_state:
  assumes "deref_client s a = Some c"
  shows "yields (handlePass fd msg a s) (\<lambda>p. snd p = s \<or> hasParam msg 0 \<and> getSingleParam msg 0 = ss_password s
    \<and> snd p = store_client a (c\<lparr>cl_passOk := True\<rparr>) s)"
  unfolding handlePass_def
  by (intro yields_intros) (use assms in \<open>auto simp: getPassword_def update_client_def setPassOk_def\<close>)

lemma dispatch_locked:
  assumes "state_inv s" "getClientByFd s fd = Some a" "deref_client s a = Some c" "\<not> cl_passOk c"
  shows "yields (dispatch fd msg hm now s) (\<lambda>p. fst (snd p) = s \<or> msg_command msg = ''PASS''
    \<and> hasParam msg 0 \<and> getSingleParam msg 0 = ss_password s \<and> fst (snd p) = store_client a (c\<lparr>cl_passOk := True\<rparr>) s)"
proof -
  have core: "core_inv s" using assms(1) by blast
  have unreg: "\<not> isRegistered c"
    using live_client_rules [OF core assms(3)] assms(4) by (auto simp: client_rules_def canRegister_def isRegistered_def)
  let ?Q = "\<lambda>s'. s' = s \<or> msg_command msg = ''PASS''
    \<and> hasParam msg 0 \<and> getSingleParam msg 0 = ss_password s \<and> s' = store_client a (c\<lparr>cl_passOk := True\<rparr>) s"
  have weak: "yields m (\<lambda>p. snd p = s) \<Longrightarrow> yields m (\<lambda>p. ?Q (snd p))" for m
    by (auto simp: yields_def)
  have passes: "yields (handlePass fd msg a s) (\<lambda>p. ?Q (snd p))" if "msg_command msg = ''PASS''"
    using handlePass_state [OF assms(3)] by (rule yields_mono) (use that in blast)
  have live: "yields (f c) P \<Longrightarrow> yields (deref_client s a \<bind> f) P" for f P
    using assms(3) by simp
  have "yields (dispatch fd msg hm now s) (\<lambda>p. ?Q (fst (snd p)))"
    unfolding dispatch_def assms(2) option.case Let_def handleQuit_def handlePrivmsg_def handleNotice_def
    by (intro live yields_ifI yields_keep [where Q = ?Q] passes weak [OF not_registered_refused(1) [OF assms(3) unreg]]
        weak [OF not_registered_refused(2) [OF assms(3) unreg]] weak [OF not_registered_refused(3) [OF assms(3) unreg]]
        weak [OF not_registered_refused(4) [OF assms(3) unreg]] weak [OF not_registered_refused(5) [OF assms(3) unreg]]
        weak [OF not_registered_refused(6) [OF assms(3) unreg]] weak [OF handleTextMessage_state]; assumption?)
      (use assms(4) in \<open>auto simp: isPassOk_def split: prod.splits\<close>)
  then show ?thesis .
qed

end
