(* ===== verification/Identity.thy ===== *)
theory Identity
  imports CommandEffects
begin

text \<open>
  Who the clients are: everything \<open>Client\<close> stores but the channels it has joined. Of all
  commands only PASS, NICK and USER change it, and only for the client that sends them; and a client
  is registered exactly if it has given the password, a nickname, a user name and a real name.
\<close>

section \<open>Specifications\<close>

definition identity :: "client \<Rightarrow> client" where
  "identity c = c\<lparr>cl_channels := []\<rparr>"

definition identities :: "'z server_state_scheme \<Rightarrow> addr \<Rightarrow> client option" where
  "identities s a = map_option identity (deref_client s a)"

text \<open>A client after the check for a complete registration.\<close>

definition completed :: "client \<Rightarrow> client" where
  "completed c = c\<lparr>cl_registered := cl_registered c \<or> canRegister c\<rparr>"

text \<open>What the message of a client may make of its own identity.\<close>

definition identity_step :: "string \<Rightarrow> message \<Rightarrow> client \<Rightarrow> client \<Rightarrow> bool" where
  "identity_step pw msg c c' \<longleftrightarrow> c' = c
     \<or> msg_command msg = ''PASS'' \<and> \<not> cl_registered c \<and> getSingleParam msg 0 = pw \<and> c' = c\<lparr>cl_passOk := True\<rparr>
     \<or> msg_command msg = ''NICK'' \<and> cl_passOk c \<and> isValidNickname (getSingleParam msg 0)
       \<and> c' = completed (c\<lparr>cl_nickname := getSingleParam msg 0\<rparr>)
     \<or> msg_command msg = ''USER'' \<and> cl_passOk c \<and> \<not> cl_registered c
       \<and> c' = completed (c\<lparr>cl_username := getSingleParam msg 0, cl_realname := getSingleParam msg 3\<rparr>)"

definition identity_effect :: "'z server_state_scheme \<Rightarrow> addr \<Rightarrow> message \<Rightarrow> 'z server_state_scheme \<Rightarrow> bool" where
  "identity_effect s a msg s' \<longleftrightarrow> (\<exists>c c'. deref_client s a = Some c \<and> identity_step (ss_password s) msg c c'
     \<and> identities s' = (identities s)(a \<mapsto> identity c'))"

text \<open>The rule of registration.\<close>

definition reg_rule :: "client \<Rightarrow> bool" where
  "reg_rule c \<longleftrightarrow> (cl_registered c \<longleftrightarrow> canRegister c)
     \<and> (\<not> cl_passOk c \<longrightarrow> cl_nickname c = [] \<and> cl_username c = [] \<and> cl_realname c = [])"

definition reg_inv :: "'z server_state_scheme \<Rightarrow> bool" where
  "reg_inv s \<longleftrightarrow> (\<forall>a c. deref_client s a = Some c \<longrightarrow> reg_rule c)"

lemma reg_rule_identity [simp]: "reg_rule (identity c) \<longleftrightarrow> reg_rule c"
  by (simp add: reg_rule_def identity_def canRegister_def)

lemma reg_inv_identities: "reg_inv s \<longleftrightarrow> (\<forall>a c. identities s a = Some c \<longrightarrow> reg_rule c)"
  unfolding reg_inv_def identities_def map_option_eq_Some using reg_rule_identity by blast

lemma reg_rule_new [simp]: "reg_rule (new_Client fd host)"
  by (simp add: reg_rule_def new_Client_def canRegister_def)

lemma reg_inv_views:
  "deref_client s' = (deref_client s)(a := None) \<Longrightarrow> reg_inv s \<Longrightarrow> reg_inv s'"
  "deref_client s' = (deref_client s)(a \<mapsto> c) \<Longrightarrow> reg_rule c \<Longrightarrow> reg_inv s \<Longrightarrow> reg_inv s'"
  by (auto simp: reg_inv_def)

text \<open>Only a client with a password takes a name; a client whose names are missing is not completed by
  PASS.\<close>

lemma identity_step_rule:
  assumes "identity_step pw msg c c'" "reg_rule c"
  shows "reg_rule c'"
  using assms(1) unfolding identity_step_def
proof (elim disjE conjE)
  assume "c' = c" with assms(2) show ?thesis by simp
next
  assume "c' = c\<lparr>cl_passOk := True\<rparr>" "\<not> cl_registered c" with assms(2) show ?thesis
    by (cases "cl_passOk c") (simp_all add: reg_rule_def canRegister_def)
next
  assume "c' = completed (c\<lparr>cl_nickname := getSingleParam msg 0\<rparr>)" "cl_passOk c" "isValidNickname (getSingleParam msg 0)"
  moreover from this(3) have "getSingleParam msg 0 \<noteq> []" by auto
  ultimately show ?thesis using assms(2) by (auto simp: reg_rule_def completed_def canRegister_def)
next
  assume "c' = completed (c\<lparr>cl_username := getSingleParam msg 0, cl_realname := getSingleParam msg 3\<rparr>)"
    "cl_passOk c" "\<not> cl_registered c"
  then show ?thesis by (simp add: reg_rule_def completed_def canRegister_def)
qed

lemma identity_effect_reg:
  assumes "identity_effect s a msg s'" "reg_inv s"
  shows "reg_inv s'"
proof -
  from assms obtain c c' where c: "deref_client s a = Some c" "identity_step (ss_password s) msg c c'"
    "identities s' = (identities s)(a \<mapsto> identity c')" by (auto simp: identity_effect_def)
  then have "reg_rule c'" using identity_step_rule assms(2) by (auto simp: reg_inv_def)
  with assms(2) c(3) show ?thesis by (auto simp: reg_inv_identities split: if_splits)
qed

section \<open>The elementary changes\<close>

lemma identity_channels [simp]:
  "identity (c\<lparr>cl_channels := xs\<rparr>) = identity c"
  "identity (unsafe_joinChannel x c) = identity c"
  "identity (unsafe_leaveChannel x c) = identity c"
  "identity (client_after_join x c) = identity c"
  by (simp_all add: identity_def unsafe_joinChannel_def unsafe_leaveChannel_def client_after_join_def)

lemma identities_upd:
  "deref_client s' = (deref_client s)(b \<mapsto> d) \<Longrightarrow> identities s' = (identities s)(b \<mapsto> identity d)"
  "deref_client s' = deref_client s \<Longrightarrow> identities s' = identities s"
  by (auto simp: identities_def fun_eq_iff)

lemma identities_same:
  "deref_client s' = (deref_client s)(b \<mapsto> d') \<Longrightarrow> deref_client s b = Some d \<Longrightarrow> identity d' = identity d \<Longrightarrow>
     identities s' = identities s"
  by (auto simp: identities_def fun_eq_iff)

lemma identity_effect_same:
  "deref_client s a = Some c \<Longrightarrow> identities s' = identities s \<Longrightarrow> identity_effect s a msg s'"
  unfolding identity_effect_def identity_step_def by (auto simp: identities_def fun_eq_iff)

lemma identity_effect_step:
  "deref_client s a = Some c \<Longrightarrow> identity_step (ss_password s) msg c c' \<Longrightarrow>
     deref_client s' = (deref_client s)(a \<mapsto> c') \<Longrightarrow> identity_effect s a msg s'"
  unfolding identity_effect_def using identities_upd(1) by blast

lemma update_channel_identities: "update_channel x f s = Some s' \<Longrightarrow> heap_wf s \<Longrightarrow> identities s' = identities s"
  by (auto simp: update_channel_def bind_eq_Some_conv intro!: identities_upd(2))

section \<open>PASS, NICK and USER\<close>

lemma maybeRegister_run:
  assumes "heap_wf s" "deref_client s a = Some c"
  shows "maybeRegister a r s = Some (
    if \<not> cl_registered c \<and> canRegister c
    then (addReply (cl_fd c) (reply_welcome (markRegistered c)) r, store_client a (markRegistered c) s)
    else (r, s))"
  using assms by (simp add: maybeRegister_def update_client_def isRegistered_def markRegistered_def)

lemma maybeRegister_completes:
  assumes "heap_wf s" "deref_client s a = Some c"
  shows "yields (maybeRegister a r s) (\<lambda>p. deref_client (snd p) = (deref_client s)(a \<mapsto> completed c))"
  using assms by (auto simp: maybeRegister_run completed_def markRegistered_def fun_upd_idem)

lemma handlePass_identity:
  assumes "heap_wf s" "deref_client s a = Some c" "msg_command msg = ''PASS''"
  shows "yields (handlePass fd msg a s) (\<lambda>p. identity_effect s a msg (snd p))"
  unfolding handlePass_def
  by (intro yields_intros)
    (use assms in \<open>auto simp: getPassword_def update_client_def setPassOk_def isRegistered_def identity_step_def
        intro: identity_effect_same identity_effect_step\<close>)

lemma handleNick_identity:
  assumes "state_inv s" "deref_client s a = Some c" "cl_passOk c" "msg_command msg = ''NICK''"
  shows "yields (handleNick fd msg a s) (\<lambda>p. identity_effect s a msg (snd p))"
proof -
  let ?n = "getSingleParam msg 0"
  have final: "yields (if \<not> ok then one_reply fd t s1 else maybeRegister a r s1) (\<lambda>p. identity_effect s a msg (snd p))"
    if n: "isValidNickname ?n" and run: "updateNick a ?n s = Some (ok, s1)" for ok s1 t r
  proof -
    from updateNick_succeeds [OF assms(1,2) n] run have s1: "state_inv s1" "\<not> ok \<Longrightarrow> s1 = s"
      "ok \<Longrightarrow> deref_client s1 = (deref_client s)(a \<mapsto> c\<lparr>cl_nickname := ?n\<rparr>)" by auto
    have step: "identity_step (ss_password s) msg c (completed (c\<lparr>cl_nickname := ?n\<rparr>))"
      using assms(3,4) n by (simp add: identity_step_def)
    show ?thesis
    proof (cases ok)
      case True
      with s1(3) have "deref_client s1 a = Some (c\<lparr>cl_nickname := ?n\<rparr>)" by simp
      from maybeRegister_completes [OF state_heap_wf [OF s1(1)] this, of r] True s1(3) show ?thesis
        by (auto simp: yields_def intro!: identity_effect_step [OF assms(2) step])
    qed (use s1(2) identity_effect_same [OF assms(2)] in simp)
  qed
  show ?thesis
    unfolding handleNick_def Let_def
    by (intro yields_ifI yields_bindI yields_prodI) (use assms(2) final in \<open>auto intro: identity_effect_same\<close>)
qed

lemma handleUser_identity:
  assumes "heap_wf s" "deref_client s a = Some c" "cl_passOk c" "msg_command msg = ''USER''"
  shows "yields (handleUser fd msg a s) (\<lambda>p. identity_effect s a msg (snd p))"
proof -
  let ?c = "c\<lparr>cl_username := getSingleParam msg 0, cl_realname := getSingleParam msg 3\<rparr>"
  let ?s = "store_client a ?c (store_client a (setUsername (getSingleParam msg 0) c) s)"
  have at: "heap_wf ?s" "deref_client ?s = (deref_client s)(a \<mapsto> ?c)" using assms(1) by simp_all
  have "deref_client ?s a = Some ?c" by (simp add: at(2))
  note run = maybeRegister_completes [OF at(1) this, of new_CommandResult]
  have step: "identity_step (ss_password s) msg c (completed ?c)" if "\<not> isRegistered c"
    using assms(3,4) that by (simp add: identity_step_def isRegistered_def)
  have "yields (maybeRegister a new_CommandResult ?s) (\<lambda>p. identity_effect s a msg (snd p))" if "\<not> isRegistered c"
    using run by (rule yields_mono) (simp add: at(2) identity_effect_step [OF assms(2) step [OF that]])
  then show ?thesis
    using assms(1,2) identity_effect_same [OF assms(2)]
    by (simp add: handleUser_def update_client_succeeds setUsername_def setRealname_def)
qed

section \<open>The other commands\<close>

lemma channel_commands_identities:
  assumes "state_inv s"
  shows "yields (handleTopic fd msg a s) (\<lambda>p. identities (snd p) = identities s)"
    "yields (handleMode fd msg a s) (\<lambda>p. identities (snd p) = identities s)"
    "yields (handleInvite fd msg a s) (\<lambda>p. identities (snd p) = identities s)"
proof -
  have wf: "heap_wf s" using assms by simp
  note upd = update_channel_identities [OF _ wf]
  show "yields (handleTopic fd msg a s) (\<lambda>p. identities (snd p) = identities s)"
    unfolding handleTopic_def Let_def by (intro yields_intros) (auto dest: upd)
  show "yields (handleMode fd msg a s) (\<lambda>p. identities (snd p) = identities s)"
    unfolding handleMode_def announceMode_def applyOperatorMode_def Let_def by (intro yields_intros) (auto dest: upd)
  show "yields (handleInvite fd msg a s) (\<lambda>p. identities (snd p) = identities s)"
    unfolding handleInvite_def inviteClientToChannel_def Let_def by (intro yields_intros) (auto dest: upd)
qed

lemma join_identities:
  assumes "state_inv s" "deref_client s a = Some c" "cl_registered c" "isValidChannelName n"
    "addClientToChannel (Some a) n s = Some (r, s')"
  shows "identities s' = identities s"
proof (cases "getChannel s n")
  case None
  from addClientToChannel_new [OF assms(1-3) None assms(4)] assms(5)
  obtain x where "deref_client s' = (deref_client s)(a \<mapsto> unsafe_joinChannel x c)" by auto
  from identities_same [OF this assms(2)] show ?thesis by simp
next
  case (Some x)
  have "core_inv s" using assms(1) by blast
  from live_by_name [OF this Some] obtain h where h: "deref_channel s x = Some h" by blast
  from addClientToChannel_old [OF assms(1-3) Some h] assms(5)
  have "deref_client s' = (deref_client s)(a \<mapsto> client_after_join x c)" by simp
  from identities_same [OF this assms(2)] show ?thesis by simp
qed

lemma leave_identities:
  assumes "state_inv s" "deref_client s b = Some d" "getChannel s n = Some x" "deref_channel s x = Some h" "hasMember h b"
    "removeClientFromChannel (Some b) n s = Some s'"
  shows "identities s' = identities s"
proof -
  from removeClientFromChannel_succeeds [OF assms(1-5)] assms(6)
  have "deref_client s' = (deref_client s)(b \<mapsto> unsafe_leaveChannel x d)" by simp
  from identities_same [OF this assms(2)] show ?thesis by simp
qed

lemma membership_commands_identities:
  assumes "state_inv s" "deref_client s a = Some c"
  shows "yields (handleJoin fd msg a s) (\<lambda>p. identities (snd p) = identities s)"
    "yields (handlePart fd msg a s) (\<lambda>p. identities (snd p) = identities s)"
    "yields (handleKick fd msg a s) (\<lambda>p. identities (snd p) = identities s)"
proof -
  have core: "core_inv s" using assms(1) by blast
  have kick: "identities s1 = identities s"
    if "getChannel s n = Some x" "deref_channel s x = Some h" "getClientByNick s t = Some b"
      "hasMember h b" "removeClientFromChannel (Some b) n s = Some s1" for n t x h b s1
    using live_by_nick [OF core that(3)] leave_identities [OF assms(1) _ that(1,2,4,5)] by blast
  show "yields (handleJoin fd msg a s) (\<lambda>p. identities (snd p) = identities s)"
    unfolding handleJoin_def Let_def
    by (intro yields_intros) (use assms(2) join_identities [OF assms] in \<open>auto simp: isRegistered_def\<close>)
  show "yields (handlePart fd msg a s) (\<lambda>p. identities (snd p) = identities s)"
    unfolding handlePart_def Let_def
    by (intro yields_intros) (auto dest: leave_identities [OF assms])
  show "yields (handleKick fd msg a s) (\<lambda>p. identities (snd p) = identities s)"
    unfolding handleKick_def Let_def by (intro yields_intros) (auto dest: kick)
qed

section \<open>Every command\<close>

lemma dispatch_identity:
  assumes "state_inv s" "getClientByFd s fd = Some a"
  shows "yields (dispatch fd msg hm now s) (\<lambda>p. identity_effect s a msg (fst (snd p)))"
proof -
  have core: "core_inv s" and wf: "heap_wf s" using assms(1) by auto
  from live_by_fd [OF core assms(2)] obtain c where c: "deref_client s a = Some c" by blast
  note same = identity_effect_same [OF c]
  have weak: "yields m (\<lambda>p. identities (snd p) = identities s) \<Longrightarrow> yields m (\<lambda>p. identity_effect s a msg (snd p))" for m
    by (auto simp: yields_def intro: same)
  have said: "yields (handleTextMessage fd msg a cmd b s) (\<lambda>p. identities (snd p) = identities s)" for cmd b
    using handleTextMessage_state by (rule yields_mono) simp
  have named: "isPassOk c \<Longrightarrow> cl_passOk c" "\<not> \<not> isPassOk c \<Longrightarrow> cl_passOk c" by (simp_all add: isPassOk_def)
  have live: "yields (f c) P \<Longrightarrow> yields (deref_client s a \<bind> f) P" for f P
    using c by simp
  show ?thesis
    unfolding dispatch_def assms(2) option.case Let_def handleQuit_def handlePrivmsg_def handleNotice_def
    by (intro live yields_ifI yields_keep weak [OF said] weak [OF channel_commands_identities(1) [OF assms(1)]]
        weak [OF channel_commands_identities(2) [OF assms(1)]] weak [OF channel_commands_identities(3) [OF assms(1)]]
        weak [OF membership_commands_identities(1) [OF assms(1) c]] weak [OF membership_commands_identities(2) [OF assms(1) c]]
        weak [OF membership_commands_identities(3) [OF assms(1) c]] handlePass_identity [OF wf c]
        handleNick_identity [OF assms(1) c] handleUser_identity [OF wf c] named; assumption?)
      (simp_all add: same split: prod.splits)
qed

lemma dispatch_reg:
  assumes "state_inv s" "reg_inv s" "dispatch fd msg hm now s = Some (r, s', hm')"
  shows "reg_inv s'"
proof (cases "getClientByFd s fd")
  case None
  with assms(2,3) show ?thesis by (simp add: dispatch_def)
next
  case (Some a)
  from dispatch_identity [OF assms(1) Some, of msg hm now] assms(3) have "identity_effect s a msg s'"
    by (auto simp: yields_def)
  from this assms(2) show ?thesis by (rule identity_effect_reg)
qed

end
