(* ===== verification/ServerInvariant.thy ===== *)
theory ServerInvariant
  imports Server Identity
begin

text \<open>
  The invariant of the server between two system calls, and the operations of \<open>Server\<close> that
  keep it: the application state satisfies its own invariant and the rule of registration; a descriptor has a connection
  exactly if it has a client; the poll table lists the listening descriptor first and then each
  connection once; and a descriptor is watched for writing exactly if it has output waiting.
\<close>

section \<open>Poll flags\<close>

definition watches_out :: "pollfd \<Rightarrow> bool" where
  "watches_out p \<longleftrightarrow> pfd_events p AND POLLOUT \<noteq> 0"

lemma watches_out_flags [simp]:
  "watches_out (p\<lparr>pfd_events := pfd_events p OR POLLOUT\<rparr>)"
  "\<not> watches_out (p\<lparr>pfd_events := pfd_events p AND NOT POLLOUT\<rparr>)"
  "watches_out (p\<lparr>pfd_revents := r\<rparr>) = watches_out p"
  "\<not> watches_out \<lparr>pfd_fd = fd, pfd_events = POLLIN, pfd_revents = r\<rparr>"
  by (simp_all add: watches_out_def POLLOUT_def POLLIN_def bit.conj_disj_distrib2 and.assoc)


section \<open>The invariant\<close>

definition poll_inv :: "pollfd list \<Rightarrow> int \<Rightarrow> (int \<rightharpoonup> connection) \<Rightarrow> bool" where
  "poll_inv ps listen Cn \<longleftrightarrow> ps \<noteq> [] \<and> pfd_fd (hd ps) = listen \<and> distinct (map pfd_fd ps)
     \<and> set (map pfd_fd ps) = insert listen (dom Cn) \<and> Cn listen = None
     \<and> (\<forall>p \<in> set ps. \<forall>conn. Cn (pfd_fd p) = Some conn \<longrightarrow> (watches_out p \<longleftrightarrow> hasPendingOutput conn))"

text \<open>What the server owns is open; what is open and not owned has leaked.\<close>

definition owned_fds :: "server \<Rightarrow> int set" where
  "owned_fds v = insert (sv_listenFd v) (dom (find_connection v))"

definition owned :: "server \<Rightarrow> bool" where
  "owned v \<longleftrightarrow> owned_fds v \<subseteq> set (sv_open v)"

definition leaked :: "server \<Rightarrow> int set" where
  "leaked v = set (sv_open v) - owned_fds v"

definition server_inv :: "server \<Rightarrow> bool" where
  "server_inv v \<longleftrightarrow> state_inv (sv_state v) \<and> state_clean (sv_state v)
     \<and> hm_wf (sv_healthMonitor v) \<and> hm_idle (sv_healthMonitor v)
     \<and> omap_wf (<) (sv_connections v)
     \<and> poll_inv (sv_pollfds v) (sv_listenFd v) (find_connection v)
     \<and> (\<forall>fd. find_connection v fd = None \<longleftrightarrow> getClientByFd (sv_state v) fd = None)
     \<and> (\<forall>fd conn. find_connection v fd = Some conn \<longrightarrow> cn_fd conn = fd)
     \<and> reg_inv (sv_state v) \<and> owned v"

lemma server_invD:
  assumes "server_inv v"
  shows "state_inv (sv_state v)" "state_clean (sv_state v)" "hm_wf (sv_healthMonitor v)"
    "hm_idle (sv_healthMonitor v)" "omap_wf (<) (sv_connections v)"
    "poll_inv (sv_pollfds v) (sv_listenFd v) (find_connection v)"
    "find_connection v fd = None \<longleftrightarrow> getClientByFd (sv_state v) fd = None"
    "find_connection v fd = Some conn \<Longrightarrow> cn_fd conn = fd" "reg_inv (sv_state v)" "owned v"
  using assms by (auto simp: server_inv_def)

text \<open>Between two turns of the loop, every receive buffer is short and holds no complete line.
  During a read this holds of all connections but one.\<close>

definition recv_inv :: "int set \<Rightarrow> server \<Rightarrow> bool" where
  "recv_inv except v \<longleftrightarrow> (\<forall>fd conn. find_connection v fd = Some conn \<longrightarrow> fd \<notin> except \<longrightarrow> recv_bounded conn)"

text \<open>The part of the poll table the scan walks over, and the receive buffers.\<close>

definition shape :: "server \<Rightarrow> (int \<times> short) list" where
  "shape v = map (\<lambda>p. (pfd_fd p, pfd_revents p)) (sv_pollfds v)"

definition recv_buffer :: "server \<Rightarrow> int \<Rightarrow> string option" where
  "recv_buffer v fd = map_option cn_recvBuffer (find_connection v fd)"

section \<open>Views of the elementary operations\<close>

lemma server_fields [simp]:
  "find_connection (v\<lparr>sv_pollfds := ps\<rparr>) = find_connection v"
  "find_connection (v\<lparr>sv_state := s\<rparr>) = find_connection v"
  "find_connection (v\<lparr>sv_healthMonitor := m\<rparr>) = find_connection v"
  "find_connection (v\<lparr>sv_listenFd := l\<rparr>) = find_connection v"
  "find_connection (v\<lparr>sv_open := os\<rparr>) = find_connection v"
  "omap_wf (<) (sv_connections v) \<Longrightarrow> find_connection (put_connection fd conn v) = (find_connection v)(fd := Some conn)"
  "omap_wf (<) (sv_connections v) \<Longrightarrow>
     find_connection (v\<lparr>sv_connections := omap_erase (<) fd (sv_connections v)\<rparr>) = (find_connection v)(fd := None)"
  "omap_wf (<) (sv_connections v) \<Longrightarrow> omap_wf (<) (sv_connections (put_connection fd conn v))"
  "sv_state (put_connection fd conn v) = sv_state v"
  "sv_pollfds (put_connection fd conn v) = sv_pollfds v"
  "sv_listenFd (put_connection fd conn v) = sv_listenFd v"
  "sv_healthMonitor (put_connection fd conn v) = sv_healthMonitor v"
  "sv_open (put_connection fd conn v) = sv_open v"
  by (auto simp: find_connection_def put_connection_def)

lemma pollout_fields [simp]:
  "find_connection (enablePollout fd v) = find_connection v"
  "find_connection (disablePollout fd v) = find_connection v"
  "find_connection (removeFd fd v) = find_connection v"
  "find_connection (addFd fd e v) = find_connection v"
  "sv_state (enablePollout fd v) = sv_state v" "sv_state (disablePollout fd v) = sv_state v"
  "sv_state (removeFd fd v) = sv_state v" "sv_state (addFd fd e v) = sv_state v"
  "sv_listenFd (enablePollout fd v) = sv_listenFd v" "sv_listenFd (disablePollout fd v) = sv_listenFd v"
  "sv_listenFd (removeFd fd v) = sv_listenFd v" "sv_listenFd (addFd fd e v) = sv_listenFd v"
  "sv_healthMonitor (enablePollout fd v) = sv_healthMonitor v"
  "sv_healthMonitor (disablePollout fd v) = sv_healthMonitor v"
  "sv_healthMonitor (removeFd fd v) = sv_healthMonitor v"
  "sv_healthMonitor (addFd fd e v) = sv_healthMonitor v"
  "sv_connections (enablePollout fd v) = sv_connections v"
  "sv_connections (disablePollout fd v) = sv_connections v"
  "sv_connections (removeFd fd v) = sv_connections v"
  "sv_connections (addFd fd e v) = sv_connections v"
  "sv_open (enablePollout fd v) = sv_open v" "sv_open (disablePollout fd v) = sv_open v"
  "sv_open (removeFd fd v) = sv_open v" "sv_open (addFd fd e v) = sv_open v"
  by (auto simp: find_connection_def enablePollout_def disablePollout_def removeFd_def addFd_def)

lemma open_fields [simp]:
  "find_connection (open_sys fd v) = find_connection v" "find_connection (close_sys fd v) = find_connection v"
  "sv_state (open_sys fd v) = sv_state v" "sv_state (close_sys fd v) = sv_state v"
  "sv_listenFd (open_sys fd v) = sv_listenFd v" "sv_listenFd (close_sys fd v) = sv_listenFd v"
  "sv_healthMonitor (open_sys fd v) = sv_healthMonitor v" "sv_healthMonitor (close_sys fd v) = sv_healthMonitor v"
  "sv_connections (open_sys fd v) = sv_connections v" "sv_connections (close_sys fd v) = sv_connections v"
  "sv_pollfds (open_sys fd v) = sv_pollfds v" "sv_pollfds (close_sys fd v) = sv_pollfds v"
  "sv_open (open_sys fd v) = fd # sv_open v" "sv_open (close_sys fd v) = removeAll fd (sv_open v)"
  by (simp_all add: open_sys_def close_sys_def)

lemma owned_fields [simp]:
  "owned_fds (v\<lparr>sv_pollfds := ps\<rparr>) = owned_fds v" "owned_fds (v\<lparr>sv_state := s\<rparr>) = owned_fds v"
  "owned_fds (v\<lparr>sv_healthMonitor := m\<rparr>) = owned_fds v"
  "owned_fds (enablePollout fd v) = owned_fds v" "owned_fds (disablePollout fd v) = owned_fds v"
  "owned_fds (open_sys fd v) = owned_fds v"
  "omap_wf (<) (sv_connections v) \<Longrightarrow> owned_fds (put_connection fd conn v) = insert fd (owned_fds v)"
  by (auto simp: owned_fds_def)

lemma owned_by_views:
  "owned v \<Longrightarrow> sv_open v' = sv_open v \<Longrightarrow> owned_fds v' = owned_fds v \<Longrightarrow> owned v'"
  by (simp add: owned_def)

lemma owned_simps [simp]:
  "owned (v\<lparr>sv_pollfds := ps\<rparr>) = owned v" "owned (v\<lparr>sv_state := s\<rparr>) = owned v"
  "owned (v\<lparr>sv_healthMonitor := m\<rparr>) = owned v"
  "owned (enablePollout fd v) = owned v" "owned (disablePollout fd v) = owned v"
  "omap_wf (<) (sv_connections v) \<Longrightarrow> find_connection v fd = Some c \<Longrightarrow> owned (put_connection fd conn v) = owned v"
  by (auto simp: owned_def owned_fds_def)

lemma update_first_fd_map:
  "distinct (map pfd_fd ps) \<Longrightarrow>
     update_first_fd fd f ps = map (\<lambda>p. if pfd_fd p = fd then p\<lparr>pfd_events := f (pfd_events p)\<rparr> else p) ps"
  by (induction ps) (auto simp: image_iff intro!: map_idI [symmetric])

lemma update_first_fd_shape [simp]:
  "map pfd_fd (update_first_fd fd f ps) = map pfd_fd ps"
  "map (\<lambda>p. (pfd_fd p, pfd_revents p)) (update_first_fd fd f ps) = map (\<lambda>p. (pfd_fd p, pfd_revents p)) ps"
  by (induction ps) auto

lemma remove_first_fd_filter:
  "distinct (map pfd_fd ps) \<Longrightarrow> remove_first_fd fd ps = filter (\<lambda>p. pfd_fd p \<noteq> fd) ps"
  by (induction ps) (auto simp: image_iff intro!: filter_True [symmetric])

lemma hd_update_first_fd: "ps \<noteq> [] \<Longrightarrow> pfd_fd (hd (update_first_fd fd f ps)) = pfd_fd (hd ps)"
  by (cases ps) auto

section \<open>How the poll table follows the connections\<close>

lemma poll_inv_put:
  assumes "poll_inv ps l Cn" "Cn fd = Some conn" "hasPendingOutput conn' = hasPendingOutput conn"
  shows "poll_inv ps l (Cn(fd := Some conn'))"
  using assms unfolding poll_inv_def by (auto simp: insert_absorb domI)

lemma poll_inv_toggle:
  assumes "poll_inv ps l Cn" "Cn fd = Some conn"
    "\<And>p. watches_out (p\<lparr>pfd_events := f (pfd_events p)\<rparr>) \<longleftrightarrow> hasPendingOutput conn'"
  shows "poll_inv (update_first_fd fd f ps) l (Cn(fd := Some conn'))"
proof -
  note inv = assms(1) [unfolded poll_inv_def]
  have fds: "set (map pfd_fd (update_first_fd fd f ps)) = set (map pfd_fd ps)" by simp
  have "update_first_fd fd f ps \<noteq> []" using inv by (cases ps) auto
  moreover have "fd \<noteq> l" using inv assms(2) by auto
  moreover have "\<forall>p \<in> set (update_first_fd fd f ps). \<forall>c. (Cn(fd := Some conn')) (pfd_fd p) = Some c \<longrightarrow>
      (watches_out p \<longleftrightarrow> hasPendingOutput c)"
    using inv assms(3) by (auto simp: update_first_fd_map)
  ultimately show ?thesis
    unfolding poll_inv_def fds update_first_fd_shape(1)
    using inv assms(2) by (auto simp: hd_update_first_fd insert_absorb domI)
qed

lemma poll_inv_add:
  assumes "poll_inv ps l Cn" "Cn fd = None" "fd \<noteq> l" "\<not> hasPendingOutput conn"
  shows "poll_inv (ps @ [\<lparr>pfd_fd = fd, pfd_events = POLLIN, pfd_revents = 0\<rparr>]) l (Cn(fd := Some conn))"
proof -
  have fresh: "fd \<notin> set (map pfd_fd ps)" using assms by (auto simp: poll_inv_def)
  let ?new = "\<lparr>pfd_fd = fd, pfd_events = POLLIN, pfd_revents = 0\<rparr>"
  have old: "watches_out p \<longleftrightarrow> hasPendingOutput c"
    if "p \<in> set ps" "(Cn(fd := Some conn)) (pfd_fd p) = Some c" for p c
  proof -
    have "pfd_fd p \<noteq> fd" using that(1) fresh by force
    with that assms(1) show ?thesis unfolding poll_inv_def by simp
  qed
  have out: "\<forall>p \<in> set (ps @ [?new]). \<forall>c. (Cn(fd := Some conn)) (pfd_fd p) = Some c \<longrightarrow>
      (watches_out p \<longleftrightarrow> hasPendingOutput c)"
    using old assms(4) by (simp add: ball_Un)
  have fds: "set (map pfd_fd (ps @ [?new])) = insert l (dom (Cn(fd := Some conn)))"
    using assms(1) unfolding poll_inv_def by (simp add: insert_commute)
  have rest: "distinct (map pfd_fd (ps @ [?new]))" "pfd_fd (hd (ps @ [?new])) = l" "(Cn(fd := Some conn)) l = None"
    using assms(1,3) fresh by (simp_all add: poll_inv_def hd_append del: set_map)
  show ?thesis
    unfolding poll_inv_def by (intro conjI out fds rest) simp
qed

lemma poll_inv_remove:
  assumes "poll_inv ps l Cn" "fd \<noteq> l"
  shows "poll_inv (remove_first_fd fd ps) l (Cn(fd := None))"
proof -
  note inv = assms(1) [unfolded poll_inv_def]
  have eq: "remove_first_fd fd ps = filter (\<lambda>p. pfd_fd p \<noteq> fd) ps"
    using inv by (intro remove_first_fd_filter) auto
  have hd: "filter (\<lambda>p. pfd_fd p \<noteq> fd) ps \<noteq> [] \<and> pfd_fd (hd (filter (\<lambda>p. pfd_fd p \<noteq> fd) ps)) = l"
    using inv assms(2) by (cases ps) auto
  have fds: "set (map pfd_fd (filter (\<lambda>p. pfd_fd p \<noteq> fd) ps)) = insert l (dom (Cn(fd := None)))"
  proof -
    have "set (map pfd_fd (filter (\<lambda>p. pfd_fd p \<noteq> fd) ps)) = set (map pfd_fd ps) - {fd}" by auto
    also have "set (map pfd_fd ps) = insert l (dom Cn)" using inv by blast
    finally show ?thesis using assms(2) by auto
  qed
  have "distinct (map pfd_fd ps)" using inv by blast
  then have dist: "distinct (map pfd_fd (filter (\<lambda>p. pfd_fd p \<noteq> fd) ps))"
    by (rule distinct_map_filter)
  have out: "\<forall>p \<in> set (filter (\<lambda>p. pfd_fd p \<noteq> fd) ps). \<forall>c. (Cn(fd := None)) (pfd_fd p) = Some c \<longrightarrow>
      (watches_out p \<longleftrightarrow> hasPendingOutput c)"
    using inv by simp
  have "(Cn(fd := None)) l = None" using inv by simp
  then show ?thesis
    unfolding poll_inv_def eq by (intro conjI fds dist out hd [THEN conjunct1] hd [THEN conjunct2])
qed

end
