(* ===== verification/ServerSafety.thy ===== *)
theory ServerSafety
  imports ServerInvariant
begin

text \<open>
  Every operation of \<open>Server\<close> returns and keeps the server invariant, whatever the clients
  send and whatever the sockets report. The lemmas track what the scan of the poll table needs to
  know: which entries an operation removed, and what happened to the receive buffers.
\<close>

section \<open>What an operation may change\<close>

definition kept :: "server \<Rightarrow> server \<Rightarrow> bool" where
  "kept v v' \<longleftrightarrow> sv_listenFd v' = sv_listenFd v \<and> shape v' = shape v \<and> recv_buffer v' = recv_buffer v
     \<and> sv_open v' = sv_open v"

definition kept_but :: "int \<Rightarrow> server \<Rightarrow> server \<Rightarrow> bool" where
  "kept_but fd v v' \<longleftrightarrow> sv_listenFd v' = sv_listenFd v \<and> shape v' = shape v
     \<and> sv_open v' = sv_open v \<and> recv_buffer v' fd \<noteq> None \<and> (\<forall>g. g \<noteq> fd \<longrightarrow> recv_buffer v' g = recv_buffer v g)"

definition gone :: "int \<Rightarrow> server \<Rightarrow> server \<Rightarrow> bool" where
  "gone fd v v' \<longleftrightarrow> sv_listenFd v' = sv_listenFd v \<and> shape v' = filter (\<lambda>q. fst q \<noteq> fd) (shape v)
     \<and> recv_buffer v' = (recv_buffer v)(fd := None) \<and> sv_open v' = removeAll fd (sv_open v)"

lemma kept_refl [simp]: "kept v v" by (simp add: kept_def)

lemma kept_trans:
  "kept u v \<Longrightarrow> kept v w \<Longrightarrow> kept u w"
  "kept u v \<Longrightarrow> gone fd v w \<Longrightarrow> gone fd u w"
  "kept_but fd u v \<Longrightarrow> kept v w \<Longrightarrow> kept_but fd u w"
  "kept u v \<Longrightarrow> kept_but fd v w \<Longrightarrow> kept_but fd u w"
  "kept_but fd u v \<Longrightarrow> kept_but fd v w \<Longrightarrow> kept_but fd u w"
  "kept_but fd u v \<Longrightarrow> gone fd v w \<Longrightarrow> gone fd u w"
  by (auto simp: kept_def kept_but_def gone_def fun_eq_iff)

lemma find_connection_recv: "find_connection v fd = None \<longleftrightarrow> recv_buffer v fd = None"
  by (simp add: recv_buffer_def)

lemma recv_inv_alt:
  "recv_inv ex v \<longleftrightarrow> (\<forall>fd b. recv_buffer v fd = Some b \<longrightarrow> fd \<notin> ex \<longrightarrow> LF \<notin> set b \<and> length b \<le> buf_size)"
  by (auto simp: recv_inv_def recv_buffer_def recv_bounded_def)

lemma recv_inv_steps:
  "recv_inv ex v \<Longrightarrow> kept v v' \<Longrightarrow> recv_inv ex v'"
  "recv_inv {} v \<Longrightarrow> kept_but fd v v' \<Longrightarrow> recv_inv {fd} v'"
  "recv_inv {fd} v \<Longrightarrow> gone fd v v' \<Longrightarrow> recv_inv {} v'"
  "recv_inv {} v \<Longrightarrow> gone fd v v' \<Longrightarrow> recv_inv {} v'"
  unfolding recv_inv_alt kept_def kept_but_def gone_def by (auto split: if_splits)

lemma owned_fds_recv: "owned_fds v = insert (sv_listenFd v) (dom (recv_buffer v))"
  by (auto simp: owned_fds_def recv_buffer_def)

lemma leaked_steps:
  "kept v v' \<Longrightarrow> leaked v' = leaked v"
  "kept_but fd v v' \<Longrightarrow> find_connection v fd \<noteq> None \<Longrightarrow> leaked v' = leaked v"
  "gone fd v v' \<Longrightarrow> find_connection v fd \<noteq> None \<Longrightarrow> fd \<noteq> sv_listenFd v \<Longrightarrow> leaked v' = leaked v"
proof -
  show "kept v v' \<Longrightarrow> leaked v' = leaked v" by (simp add: kept_def leaked_def owned_fds_recv)
  assume conn: "find_connection v fd \<noteq> None"
  then have fd: "fd \<in> dom (recv_buffer v)" by (auto simp: find_connection_recv)
  show "leaked v' = leaked v" if "kept_but fd v v'"
  proof -
    have "dom (recv_buffer v') = dom (recv_buffer v)"
      using that fd by (auto simp: kept_but_def)
    with that show ?thesis by (simp add: kept_but_def leaked_def owned_fds_recv)
  qed
  show "leaked v' = leaked v" if "gone fd v v'" "fd \<noteq> sv_listenFd v"
    using that fd by (auto simp: gone_def leaked_def owned_fds_recv split: if_splits)
qed

section \<open>Sending\<close>

lemma shape_ops [simp]:
  "shape (put_connection fd conn v) = shape v"
  "shape (enablePollout fd v) = shape v"
  "shape (disablePollout fd v) = shape v"
  "shape (v\<lparr>sv_state := s\<rparr>) = shape v"
  "shape (v\<lparr>sv_healthMonitor := m\<rparr>) = shape v"
  "shape (v\<lparr>sv_connections := c\<rparr>) = shape v"
  by (simp_all add: shape_def put_connection_def enablePollout_def disablePollout_def)

lemma connected_client:
  assumes "server_inv v" "find_connection v fd = Some conn"
  obtains a c where "getClientByFd (sv_state v) fd = Some a" "deref_client (sv_state v) a = Some c" "cl_fd c = fd"
proof -
  from assms server_invD(7) [OF assms(1), of fd] obtain a where a: "getClientByFd (sv_state v) fd = Some a"
    by fastforce
  from live_by_fd [OF state_invD(1) [OF server_invD(1) [OF assms(1)]] a] a that show thesis by blast
qed

lemma server_inv_put:
  assumes "server_inv v" "find_connection v fd = Some conn" "cn_fd conn' = cn_fd conn"
    "hasPendingOutput conn' = hasPendingOutput conn"
  shows "server_inv (put_connection fd conn' v)"
proof -
  note d = server_invD [OF assms(1)]
  obtain a where "getClientByFd (sv_state v) fd = Some a" by (rule connected_client [OF assms(1,2)])
  with d assms(2-) poll_inv_put [OF d(6) assms(2,4)] show ?thesis
    by (auto simp: server_inv_def)
qed

lemma server_inv_enqueue:
  assumes "server_inv v" "find_connection v fd = Some conn" "msg \<noteq> []"
  shows "server_inv (enablePollout fd (put_connection fd (bufferSend msg conn) v))"
proof -
  note d = server_invD [OF assms(1)]
  have "poll_inv (update_first_fd fd (\<lambda>e. e OR POLLOUT) (sv_pollfds v)) (sv_listenFd v)
      ((find_connection v)(fd := Some (bufferSend msg conn)))"
    using assms(3) by (intro poll_inv_toggle [OF d(6) assms(2)]) (simp add: hasPendingOutput_def bufferSend_def)
  moreover obtain a where "getClientByFd (sv_state v) fd = Some a" by (rule connected_client [OF assms(1,2)])
  ultimately show ?thesis
    using d assms(2) by (auto simp: server_inv_def) (auto simp: enablePollout_def bufferSend_def)
qed

lemma enqueue_kept:
  assumes "server_inv v" "find_connection v fd = Some conn"
  shows "kept v (enablePollout fd (put_connection fd (bufferSend msg conn) v))"
  using assms server_invD(5) [OF assms(1)]
  by (auto simp: kept_def recv_buffer_def bufferSend_def fun_eq_iff)

lemma enqueue_loop_inv:
  assumes "server_inv v" "\<And>q. q \<in> set rs \<Longrightarrow> snd q \<noteq> []"
  shows "server_inv (enqueue_loop rs v) \<and> kept v (enqueue_loop rs v)
    \<and> sv_state (enqueue_loop rs v) = sv_state v \<and> sv_healthMonitor (enqueue_loop rs v) = sv_healthMonitor v"
  using assms
proof (induction rs arbitrary: v)
  case (Cons q rs)
  show ?case
  proof (cases "find_connection v (fst q)")
    case (Some conn)
    let ?v = "enablePollout (fst q) (put_connection (fst q) (bufferSend (snd q) conn) v)"
    have "server_inv ?v" using Cons.prems Some by (intro server_inv_enqueue) auto
    with Cons.IH [of ?v] Cons.prems(2) Some enqueue_kept [OF Cons.prems(1) Some, of "snd q"] show ?thesis
      by (auto intro: kept_trans)
  qed (use Cons in simp)
qed simp

lemma enqueueReplies_inv:
  assumes "server_inv v" "\<And>q. q \<in> set (replies r) \<Longrightarrow> is_line (snd q)"
  shows "server_inv (enqueueReplies r v)" "kept v (enqueueReplies r v)"
    "sv_state (enqueueReplies r v) = sv_state v" "sv_healthMonitor (enqueueReplies r v) = sv_healthMonitor v"
proof -
  have "\<And>q. q \<in> set (replies r) \<Longrightarrow> snd q \<noteq> []" using assms(2) by (fastforce simp: is_line_def)
  from enqueue_loop_inv [OF assms(1) this]
  show "server_inv (enqueueReplies r v)" "kept v (enqueueReplies r v)"
    "sv_state (enqueueReplies r v) = sv_state v" "sv_healthMonitor (enqueueReplies r v) = sv_healthMonitor v"
    by (auto simp: enqueueReplies_def)
qed

section \<open>Disconnecting\<close>

lemma channel_after_leave_clean: "channel_after_leave a h = Some h' \<Longrightarrow> channel_clean h \<Longrightarrow> channel_clean h'"
  by (auto simp: channel_after_leave_def Let_def split: if_splits)

lemma removeClient_clean:
  assumes "state_clean s" "deref_client s' = (deref_client s)(a := None)"
    "\<forall>x. deref_channel s' x = (if x \<in> X
         then map_option (removeInvite a) (Option.bind (deref_channel s x) (channel_after_leave a))
         else map_option (removeInvite a) (deref_channel s x))"
  shows "state_clean s'"
proof -
  have "channel_clean h'" if "deref_channel s' x = Some h'" for x h'
    using that assms(3) live_clean(2) [OF assms(1), of x]
    by (cases "deref_channel s x") (auto split: if_splits dest: channel_after_leave_clean)
  with assms(1,2) show ?thesis by (auto simp: state_clean_def text_inv_def)
qed

lemma disconnectClient_succeeds:
  assumes inv: "server_inv v" and conn: "find_connection v fd = Some conn"
  shows "succeeds (disconnectClient fd v) (\<lambda>v'. server_inv v' \<and> gone fd v v')"
proof -
  note d = server_invD [OF inv]
  have core: "core_inv (sv_state v)" using d(1) by blast
  obtain a c where a: "getClientByFd (sv_state v) fd = Some a" and c: "deref_client (sv_state v) a = Some c"
    by (rule connected_client [OF inv conn])
  from removeClient_succeeds [OF d(1) a c] obtain s' where s': "removeClient fd (sv_state v) = Some s'"
    "state_inv s'" "deref_client s' = (deref_client (sv_state v))(a := None)"
    "\<forall>x. deref_channel s' x = (if x \<in> set (cl_channels c)
       then map_option (removeInvite a) (Option.bind (deref_channel (sv_state v) x) (channel_after_leave a))
       else map_option (removeInvite a) (deref_channel (sv_state v) x))"
    "getClientByFd s' = (getClientByFd (sv_state v))(fd := None)"
    unfolding succeeds_iff by blast
  have clean: "state_clean s'" by (rule removeClient_clean [OF d(2) s'(3,4)])
  have reg: "reg_inv s'" by (rule reg_inv_views(1) [OF s'(3) d(9)])
  have listen: "fd \<noteq> sv_listenFd v" using d(6) conn by (auto simp: poll_inv_def)
  have dist: "distinct (map pfd_fd (sv_pollfds v))" using d(6) by (simp add: poll_inv_def)
  define v' where "v' = v\<lparr>sv_pollfds := remove_first_fd fd (sv_pollfds v),
    sv_connections := omap_erase (<) fd (sv_connections v), sv_state := s',
    sv_healthMonitor := hm_removeClient fd (sv_healthMonitor v), sv_open := removeAll fd (sv_open v)\<rparr>"
  have run: "disconnectClient fd v = Some v'"
    using conn s'(1) by (simp add: disconnectClient_def removeFd_def close_sys_def v'_def)
  have find: "find_connection v' = (find_connection v)(fd := None)"
    using d(5) by (simp add: v'_def find_connection_def fun_eq_iff)
  have "owned v'" using d(10) listen by (auto simp: owned_def owned_fds_def find) (auto simp: v'_def)
  then have "server_inv v'"
    unfolding server_inv_def find
    using d s'(2) clean reg hm_idle_ops(4) poll_inv_remove [OF d(6) listen]
    by (auto simp: v'_def s'(5))
  moreover have "gone fd v v'"
    using find dist
    by (auto simp: gone_def v'_def shape_def remove_first_fd_filter filter_map o_def recv_buffer_def fun_eq_iff)
  ultimately show ?thesis by (simp add: run)
qed

lemma notifyAndDisconnect_succeeds:
  assumes inv: "server_inv v" and conn: "find_connection v fd = Some conn" and reason: "clean reason"
  shows "succeeds (notifyAndDisconnect fd reason v) (\<lambda>v'. server_inv v' \<and> gone fd v v')"
proof -
  note d = server_invD [OF inv]
  have core: "core_inv (sv_state v)" using d(1) by blast
  obtain a c where a: "getClientByFd (sv_state v) fd = Some a" and c: "deref_client (sv_state v) a = Some c"
    by (rule connected_client [OF inv conn])
  let ?ev = "new_DisconnectEvent fd reason"
  have ev: "de_fd ?ev = fd" "de_reason ?ev = reason" by (simp_all add: new_DisconnectEvent_def)
  from build_succeeds [OF d(1), of ?ev a c, unfolded ev, OF a c] obtain r
    where r: "DisconnectNotifier_build ?ev (sv_state v) = Some r"
      "\<And>q. q \<in> set (replies r) \<Longrightarrow> snd q = reply_quit (getFullPrefix c) reason"
    unfolding succeeds_iff by auto
  have "\<And>q. q \<in> set (replies r) \<Longrightarrow> is_line (snd q)"
    using r(2) live_clean(1) [OF d(2) c] reason by simp
  note e = enqueueReplies_inv [OF inv this]
  have "find_connection (enqueueReplies r v) fd \<noteq> None"
    using e(2) conn by (simp add: find_connection_recv kept_def)
      (simp add: recv_buffer_def)
  then obtain conn' where "find_connection (enqueueReplies r v) fd = Some conn'" by blast
  from disconnectClient_succeeds [OF e(1) this] kept_trans(2) [OF e(2)] show ?thesis
    by (auto simp: notifyAndDisconnect_def r(1) elim!: succeeds_mono)
qed


section \<open>Reading\<close>

lemma toupper_char_clean: "c \<noteq> LF \<Longrightarrow> toupper_char c \<noteq> LF"
proof -
  have "uchar LF = 10" by (simp add: uchar_def)
  then show "c \<noteq> LF \<Longrightarrow> toupper_char c \<noteq> LF"
    using uchar_toupper [of c] by (auto simp: toupper_char_def simp flip: uchar_inject split: if_splits)
qed

lemma upperCommand_clean: "clean c \<Longrightarrow> clean (upperCommand c)"
  by (induction c) (auto simp: upperCommand_def toupper_char_clean)

lemma clean_takeWhile: "clean t \<Longrightarrow> clean (takeWhile P t)" "clean t \<Longrightarrow> clean (dropWhile P t)"
  by (auto simp: clean_def dest: set_takeWhileD set_dropWhileD)

lemma command_spec_clean: "clean cs \<Longrightarrow> clean (msg_command (command_spec p cs))"
  by (simp add: command_spec_def new_Message_def empty_Message_def upperCommand_clean clean_takeWhile)

lemma parse_clean:
  assumes "clean line"
  shows "msg_clean (parse line)"
proof -
  let ?in = "removeIrcLineTerminator line"
  have cl: "clean ?in" using assms set_removeIrcLineTerminator [of line] by (auto simp: clean_def)
  have "clean (msg_command (parse_spec ?in))"
  proof (cases "dropWhile sep ?in")
    case (Cons c rest)
    with clean_takeWhile(2) [OF cl, of sep] have "clean (c # rest)" by simp
    with Cons command_spec_clean show ?thesis
      by (auto simp: parse_spec_def empty_Message_def clean_takeWhile)
  qed (simp add: parse_spec_def empty_Message_def del: dropWhile_eq_Nil_conv)
  moreover have "clean q" if "q \<in> set (msg_params (parse_spec ?in))" for q
    using parse_spec_chars [OF that] cl by (auto simp: clean_def)
  ultimately show ?thesis by (simp add: msg_clean_def parse_eq_spec list_all_iff)
qed

lemma server_inv_dispatched:
  assumes "server_inv v" "handled msg (sv_state v) (r, s')" "msg_clean msg"
    "monitor_step fd now (Some (sv_healthMonitor v)) hm" "reg_inv s'"
  shows "server_inv (v\<lparr>sv_state := s', sv_healthMonitor := the hm\<rparr>)"
    "kept v (v\<lparr>sv_state := s', sv_healthMonitor := the hm\<rparr>)"
    "\<And>q. q \<in> set (replies r) \<Longrightarrow> is_line (snd q)"
proof -
  note d = server_invD [OF assms(1)]
  have "hm_wf (the hm) \<and> hm_idle (the hm)"
    using assms(4) d(3,4) hm_idle_ops(3) by (auto simp: monitor_step_def)
  then show "server_inv (v\<lparr>sv_state := s', sv_healthMonitor := the hm\<rparr>)"
    using assms(2,3,5) d by (auto simp: server_inv_def handled_def)
  show "kept v (v\<lparr>sv_state := s', sv_healthMonitor := the hm\<rparr>)"
    by (simp add: kept_def recv_buffer_def fun_eq_iff)
  show "\<And>q. q \<in> set (replies r) \<Longrightarrow> is_line (snd q)"
    using assms(2,3) d(2) by (auto simp: handled_def replies_ok_def)
qed

lemma handle_line_succeeds:
  assumes inv: "server_inv v" and conn: "find_connection v fd = Some conn" and line: "clean line"
  shows "succeeds (handle_line fd now line v) (\<lambda>(r, v'). server_inv v'
    \<and> (if shouldDisconnect r then gone fd v v' else kept v v'))"
proof -
  let ?msg = "parse line"
  have clean: "msg_clean ?msg" by (rule parse_clean [OF line])
  from dispatch_succeeds [OF server_invD(1) [OF inv], of fd ?msg "Some (sv_healthMonitor v)" now]
  obtain r s' hm where r: "dispatch fd ?msg (Some (sv_healthMonitor v)) now (sv_state v) = Some (r, s', hm)"
    "handled ?msg (sv_state v) (r, s')" "monitor_step fd now (Some (sv_healthMonitor v)) hm"
    unfolding succeeds_iff by auto
  let ?v1 = "v\<lparr>sv_state := s', sv_healthMonitor := the hm\<rparr>"
  have reg: "reg_inv s'" by (rule dispatch_reg [OF server_invD(1) [OF inv] server_invD(9) [OF inv] r(1)])
  note d = server_inv_dispatched [OF inv r(2) clean r(3) reg]
  note e = enqueueReplies_inv [OF d(1,3)]
  have keep: "kept v (enqueueReplies r ?v1)" using kept_trans(1) [OF d(2) e(2)] .
  have "find_connection (enqueueReplies r ?v1) fd \<noteq> None"
    using keep conn by (auto simp: find_connection_recv kept_def recv_buffer_def)
  then obtain conn' where conn': "find_connection (enqueueReplies r ?v1) fd = Some conn'" by blast
  have run: "handle_line fd now line v = do { v1 \<leftarrow> applyCommandResult r fd ?v1; Some (r, v1) }"
    by (simp add: handle_line_def r(1))
  show ?thesis
    unfolding run using e(1) keep notifyAndDisconnect_succeeds [OF e(1) conn', of "''Client Quit''"]
    by (auto simp: applyCommandResult_def Let_def elim!: succeeds_mono intro: kept_trans(2))
qed

lemma clean_strip_cr: "LF \<notin> set l \<Longrightarrow> clean (strip_cr l)"
  using set_strip_cr [of l] by (auto simp: clean_def)

text \<open>The loop returns: each turn takes a line out of the buffer.\<close>

lemma read_loop_succeeds:
  assumes "server_inv v" "recv_buffer v fd = Some buf"
  shows "succeeds (read_loop fd now v) (\<lambda>(ok, v'). server_inv v'
    \<and> (if ok then kept_but fd v v' \<and> recv_buffer v' fd = Some (after_last_LF buf) else gone fd v v'))"
  using assms
proof (induction "length buf" arbitrary: v buf rule: less_induct)
  case less
  from less.prems(2) obtain conn where conn: "find_connection v fd = Some conn" "cn_recvBuffer conn = buf"
    by (auto simp: recv_buffer_def)
  note wf = server_invD(5) [OF less.prems(1)]
  show ?case
  proof (cases "LF \<in> set buf")
    case False
    let ?v = "put_connection fd (conn\<lparr>cn_nlPos := None\<rparr>) v"
    have "read_loop fd now v = Some (True, ?v)"
      using False conn by (subst read_loop.simps) (simp add: no_line_left)
    moreover have "server_inv ?v"
      by (rule server_inv_put [OF less.prems(1) conn(1)]) (simp_all add: hasPendingOutput_def)
    ultimately show ?thesis
      using wf conn False by (auto simp: kept_but_def recv_buffer_def after_last_LF_simps(1))
  next
    case True
    then obtain l rest where l: "buf = l @ LF # rest" "LF \<notin> set l" using first_line_exists by blast
    let ?conn = "conn\<lparr>cn_recvBuffer := rest, cn_nlPos := None\<rparr>"
    let ?v = "put_connection fd ?conn v"
    have inv: "server_inv ?v"
      by (rule server_inv_put [OF less.prems(1) conn(1)]) (simp_all add: hasPendingOutput_def)
    have keep: "kept_but fd v ?v" "recv_buffer ?v fd = Some rest"
      using wf by (auto simp: kept_but_def recv_buffer_def)
    note pop = pop_first_line [of conn l rest, unfolded conn(2), OF l]
    have run: "read_loop fd now v = handle_line fd now (strip_cr l) ?v \<bind> (\<lambda>(r, v1).
        if shouldDisconnect r then Some (False, v1) else read_loop fd now v1)"
      by (subst read_loop.simps) (simp add: conn(1) pop)
    from handle_line_succeeds [OF inv _ clean_strip_cr [OF l(2)], of fd ?conn now] wf
    obtain r v1 where v1: "handle_line fd now (strip_cr l) ?v = Some (r, v1)" "server_inv v1"
      "if shouldDisconnect r then gone fd ?v v1 else kept ?v v1"
      unfolding succeeds_iff by auto
    show ?thesis
    proof (cases "shouldDisconnect r")
      case True
      with v1 keep show ?thesis by (auto simp: run intro: kept_trans)
    next
      case False
      with v1(3) keep have k: "kept_but fd v v1" "recv_buffer v1 fd = Some rest"
        by (auto intro: kept_trans simp: kept_def)
      have "length rest < length buf" by (simp add: l)
      from less.hyps [OF this v1(2) k(2)] False k(1) v1(1) show ?thesis
        by (auto simp: run l(1) after_last_LF_simps(2) elim!: succeeds_mono intro: kept_trans)
    qed
  qed
qed

end
