(* ===== verification/ServerLoop.thy ===== *)
theory ServerLoop
  imports ServerSafety
begin

text \<open>
  The poll loop: one client entry, the scan over the poll table, one turn of \<open>run\<close>, any number
  of turns, and the shutdown. The environment is arbitrary up to \<open>env_ok\<close>, which states what
  POSIX promises of \<open>recv\<close> and \<open>accept\<close>: no more bytes than asked for, and a new
  descriptor that is not in use.
\<close>

section \<open>One client\<close>

lemma handleRead_succeeds:
  assumes inv: "server_inv v" "recv_inv {} v" and conn: "find_connection v fd \<noteq> None"
    and data: "\<And>d. received = Some d \<Longrightarrow> length d \<le> buf_size + 1"
  shows "succeeds (handleRead fd received now v) (\<lambda>(ok, v'). server_inv v'
    \<and> (if ok then kept_but fd v v' \<and> recv_inv {} v' else kept_but fd v v' \<or> gone fd v v'))"
proof -
  from conn obtain conn where conn: "find_connection v fd = Some conn" by blast
  note wf = server_invD(5) [OF inv(1)]
  show ?thesis
  proof (cases received)
    case None
    with conn inv wf show ?thesis
      by (auto simp: handleRead_def readFromSocket_def kept_but_def recv_buffer_def intro: server_inv_put)
  next
    case (Some d)
    let ?conn = "conn\<lparr>cn_recvBuffer := cn_recvBuffer conn @ d\<rparr>"
    let ?v1 = "put_connection fd ?conn v"
    let ?v2 = "?v1\<lparr>sv_healthMonitor := updateActivity fd now (sv_healthMonitor ?v1)\<rparr>"
    have inv1: "server_inv ?v1"
      by (rule server_inv_put [OF inv(1) conn]) (simp_all add: hasPendingOutput_def)
    have keep: "kept_but fd v ?v1" using wf by (auto simp: kept_but_def recv_buffer_def)
    have inv2: "server_inv ?v2"
      using server_invD [OF inv1] hm_idle_ops(2) by (auto simp: server_inv_def)
    have keep2: "kept ?v1 ?v2" by (simp add: kept_def recv_buffer_def fun_eq_iff)
    have buf: "recv_buffer ?v2 fd = Some (cn_recvBuffer conn @ d)" using wf by (simp add: recv_buffer_def)
    have bounded: "recv_bounded conn" using inv(2) conn by (simp add: recv_inv_def)
    have run: "handleRead fd received now v =
        (if isLineTooLong ?conn then Some (False, ?v1) else read_loop fd now ?v2)"
      by (simp add: handleRead_def conn readFromSocket_def Some)
    have "recv_inv {} v'" if "kept_but fd ?v2 v'" "\<not> isLineTooLong ?conn"
      "recv_buffer v' fd = Some (after_last_LF (cn_recvBuffer conn @ d))" for v'
    proof -
      have "kept_but fd v v'" using kept_trans keep keep2 that(1) by blast
      from recv_inv_steps(2) [OF inv(2) this] that(3) recv_bounded_after [OF bounded data [OF Some] that(2)]
      show ?thesis unfolding recv_inv_alt by (metis after_last_LF_clean option.inject singletonD)
    qed
    then show ?thesis
      unfolding run
      using inv1 keep read_loop_succeeds [OF inv2 buf, of now] kept_trans(3) [OF keep keep2]
      by (auto elim!: succeeds_mono intro: kept_trans split: if_splits)
  qed
qed

lemma handleWrite_succeeds:
  assumes inv: "server_inv v" and conn: "find_connection v fd \<noteq> None"
  shows "succeeds (handleWrite fd sent v) (\<lambda>(ok, v'). server_inv v' \<and> kept v v')"
proof -
  from conn obtain conn where conn: "find_connection v fd = Some conn" by blast
  note d = server_invD [OF inv]
  obtain ok conn1 where w: "writeToSocket sent conn = (ok, conn1)" by (cases "writeToSocket sent conn")
  have w1: "cn_fd conn1 = cn_fd conn" "cn_recvBuffer conn1 = cn_recvBuffer conn"
    "\<not> ok \<Longrightarrow> conn1 = conn" "hasPendingOutput conn1 \<Longrightarrow> hasPendingOutput conn"
    using w by (auto simp: writeToSocket_def hasPendingOutput_def split: if_splits)
  let ?v1 = "put_connection fd conn1 v"
  have keep: "kept v ?v1" "kept v (disablePollout fd ?v1)"
    using d(5) conn w1(2) by (auto simp: kept_def recv_buffer_def fun_eq_iff)
  have same: "server_inv ?v1" if "hasPendingOutput conn1 = hasPendingOutput conn"
    using that w1(1) by (intro server_inv_put [OF inv conn])
  obtain a where a: "getClientByFd (sv_state v) fd = Some a" by (rule connected_client [OF inv conn])
  have "server_inv (disablePollout fd ?v1)" if "\<not> hasPendingOutput conn1"
  proof -
    have "poll_inv (update_first_fd fd (\<lambda>e. e AND NOT POLLOUT) (sv_pollfds v)) (sv_listenFd v)
        ((find_connection v)(fd := Some conn1))"
      using that by (intro poll_inv_toggle [OF d(6) conn]) simp
    with d a conn w1(1) show ?thesis
      by (auto simp: server_inv_def) (auto simp: disablePollout_def)
  qed
  then show ?thesis
    using keep same w1(3,4) by (auto simp: handleWrite_def conn w Let_def)
qed

lemma handle_client_succeeds:
  assumes inv: "server_inv v" "recv_inv {} v" and conn: "find_connection v fd \<noteq> None"
    and data: "\<And>d. env_recv env fd = Some d \<Longrightarrow> length d \<le> buf_size + 1"
  shows "succeeds (handle_client env fd revents v) (\<lambda>(g, v'). server_inv v' \<and> recv_inv {} v'
    \<and> (if g then gone fd v v' else kept_but fd v v'))"
proof -
  have reset: "succeeds (notifyAndDisconnect fd ''Connection reset'' w) (\<lambda>v'. server_inv v' \<and> recv_inv {} v' \<and> gone fd v v')"
    if "server_inv w" "kept_but fd v w" for w
  proof -
    from that(2) obtain c where "find_connection w fd = Some c"
      by (auto simp: kept_but_def simp flip: find_connection_recv)
    from notifyAndDisconnect_succeeds [OF that(1) this, of "''Connection reset''"] that(2) inv(2)
    show ?thesis by (auto elim!: succeeds_mono intro: kept_trans recv_inv_steps)
  qed
  have self: "kept_but fd v v" using conn by (simp add: kept_but_def find_connection_recv)
  define m where "m = (if revents AND POLLIN \<noteq> 0 then handleRead fd (env_recv env fd) (env_now env) v else Some (True, v))"
  have "succeeds m (\<lambda>(ok, w). server_inv w \<and> (if ok then kept_but fd v w \<and> recv_inv {} w else kept_but fd v w \<or> gone fd v w))"
    unfolding m_def using handleRead_succeeds [OF inv conn data] inv self by auto
  then obtain ok w where w: "m = Some (ok, w)" "server_inv w"
    "if ok then kept_but fd v w \<and> recv_inv {} w else kept_but fd v w \<or> gone fd v w"
    unfolding succeeds_iff by auto
  show ?thesis
  proof (cases ok)
    case False
    have "recv_inv {} w \<and> gone fd v w" if "find_connection w fd = None"
    proof -
      have "gone fd v w" using that w(3) False by (auto simp: kept_but_def find_connection_recv)
      with inv(2) show ?thesis by (auto intro: recv_inv_steps)
    qed
    moreover have "kept_but fd v w" if "find_connection w fd \<noteq> None"
      using that w(3) False by (auto simp: gone_def find_connection_recv)
    ultimately show ?thesis
      using False w(1,2) reset [of w] by (auto simp: handle_client_def m_def [symmetric] elim!: succeeds_mono)
  next
    case True
    with w(3) have k: "kept_but fd v w" "recv_inv {} w" "find_connection w fd \<noteq> None"
      by (auto simp: kept_but_def find_connection_recv)
    define m2 where "m2 = (if revents AND POLLOUT \<noteq> 0 then handleWrite fd (env_send env fd) w else Some (True, w))"
    have "succeeds m2 (\<lambda>(ok, u). server_inv u \<and> kept w u)"
      unfolding m2_def using handleWrite_succeeds [OF w(2) k(3)] w(2) by auto
    then obtain ok2 u where u: "m2 = Some (ok2, u)" "server_inv u" "kept w u"
      unfolding succeeds_iff by auto
    have "kept_but fd v u" "recv_inv {} u" using k u(3) by (auto intro: kept_trans recv_inv_steps)
    with True w(1) u reset [of u] show ?thesis
      by (auto simp: handle_client_def m_def [symmetric] m2_def [symmetric] elim!: succeeds_mono)
  qed
qed


section \<open>Accepting\<close>

definition accept_ok :: "accept_result \<Rightarrow> server \<Rightarrow> bool" where
  "accept_ok r v = (case r of
     Accepted cs host \<Rightarrow> find_connection v cs = None \<and> cs \<noteq> sv_listenFd v \<and> clean host
   | _ \<Rightarrow> True)"

definition env_ok :: "io_env \<Rightarrow> server \<Rightarrow> bool" where
  "env_ok env v \<longleftrightarrow> (\<forall>fd d. env_recv env fd = Some d \<longrightarrow> length d \<le> buf_size + 1)
     \<and> accept_ok (env_accept env) v"

lemma addClient_clean:
  assumes "heap_wf s" "state_clean s" "clean host"
  shows "state_clean (addClient fd host s)"
proof (cases "getClientByFd s fd")
  case None
  have "client_clean (new_Client fd host)" using assms(3) by (simp add: client_clean_def new_Client_def)
  with None assms(1,2) show ?thesis
    by (auto simp: state_clean_def addClient_views intro!: text_inv_upd)
qed (use assms in \<open>simp add: addClient_views(1)\<close>)

lemma addClient_reg:
  assumes "heap_wf s" "reg_inv s"
  shows "reg_inv (addClient fd host s)"
proof (cases "getClientByFd s fd")
  case None
  show ?thesis by (rule reg_inv_views(2) [OF addClient_views(2) [OF assms(1) None] reg_rule_new assms(2)])
qed (use assms in \<open>simp add: addClient_views(1)\<close>)

text \<open>The exception of \<open>_setNonBlocking\<close> leaves the accepted descriptor open, and nobody owns it.\<close>

definition fcntl_leak :: "accept_result \<Rightarrow> server \<Rightarrow> string \<times> server \<Rightarrow> bool" where
  "fcntl_leak r v x \<longleftrightarrow> fst x = ''fcntl(O_NONBLOCK) failed'' \<and> sv_listenFd (snd x) = sv_listenFd v \<and>
     (\<exists>cs host. r = AcceptedFcntlFailed cs host \<and> leaked (snd x) = leaked v \<union> ({cs} - owned_fds v))"

lemma open_sys_inv:
  assumes "server_inv v" "recv_inv ex v"
  shows "server_inv (open_sys cs v)" "recv_inv ex (open_sys cs v)" "leaked (open_sys cs v) = leaked v \<union> ({cs} - owned_fds v)"
  using assms by (auto simp: server_inv_def owned_def recv_inv_def leaked_def)

lemma acceptClient_inv:
  assumes inv: "server_inv v" "recv_inv {} v" and ok: "accept_ok r v"
  shows "case acceptClient r v of
      Inl (e, v') \<Rightarrow> server_inv v' \<and> recv_inv {} v' \<and> fcntl_leak r v (e, v')
    | Inr v' \<Rightarrow> server_inv v' \<and> recv_inv {} v' \<and> sv_listenFd v' = sv_listenFd v \<and> leaked v' \<subseteq> leaked v"
proof (cases r)
  case (Accepted cs host)
  note d = server_invD [OF inv(1)]
  have wf: "heap_wf (sv_state v)" using d(1) by simp
  from ok Accepted have fresh: "find_connection v cs = None" "cs \<noteq> sv_listenFd v" "clean host"
    by (auto simp: accept_ok_def)
  then have new: "getClientByFd (sv_state v) cs = None" using d(7) by simp
  define v' where "v' = v\<lparr>sv_connections := omap_put (<) cs (new_Connection cs) (sv_connections v),
    sv_pollfds := sv_pollfds v @ [\<lparr>pfd_fd = cs, pfd_events = POLLIN, pfd_revents = 0\<rparr>],
    sv_state := addClient cs host (sv_state v), sv_open := cs # sv_open v\<rparr>"
  have run: "acceptClient r v = Inr v'"
    by (simp add: acceptClient_def Accepted Let_def put_connection_def addFd_def open_sys_def v'_def)
  have find: "find_connection v' = (find_connection v)(cs := Some (new_Connection cs))"
    using d(5) by (simp add: v'_def find_connection_def fun_eq_iff)
  have "poll_inv (sv_pollfds v') (sv_listenFd v') (find_connection v')"
    unfolding find using poll_inv_add [OF d(6) fresh(1,2), of "new_Connection cs"]
    by (simp add: v'_def hasPendingOutput_def new_Connection_def)
  moreover have fds: "owned_fds v' = insert cs (owned_fds v)" by (auto simp: owned_fds_def find) (simp_all add: v'_def)
  then have "owned v'" using d(10) by (auto simp: owned_def) (auto simp: v'_def)
  ultimately have "server_inv v'"
    unfolding server_inv_def
    using d addClient_inv [OF d(1)] addClient_clean [OF wf d(2) fresh(3)] addClient_reg [OF wf d(9)] addClient_views(3) [OF wf new]
    by (auto simp: find) (auto simp: v'_def new_Connection_def)
  moreover have "recv_inv {} v'"
    using inv(2) by (auto simp: recv_inv_def find recv_bounded_def new_Connection_def split: if_splits)
  moreover have "leaked v' \<subseteq> leaked v" by (auto simp: leaked_def fds) (simp add: v'_def)
  ultimately show ?thesis by (simp add: run) (simp add: v'_def)
next
  case (AcceptedFcntlFailed cs host)
  with open_sys_inv [OF inv, of cs] show ?thesis by (simp add: acceptClient_def fcntl_leak_def)
qed (use inv in \<open>simp add: acceptClient_def\<close>)

section \<open>The scan\<close>

text \<open>How a turn ends: always in a good state, by a normal return or, if \<open>fcntl\<close> fails on an
  accepted descriptor, by the exception of \<open>_setNonBlocking\<close>.\<close>

definition turn_ok :: "io_env \<Rightarrow> outcome \<Rightarrow> bool" where
  "turn_ok env r = (case r of
     Inl (e, v') \<Rightarrow> server_inv v' \<and> recv_inv {} v'
       \<and> (case env_accept env of AcceptedFcntlFailed cs host \<Rightarrow> True | _ \<Rightarrow> False)
   | Inr v' \<Rightarrow> server_inv v' \<and> recv_inv {} v')"

lemma turn_ok_Inr [simp]: "turn_ok env (Inr v') \<longleftrightarrow> server_inv v' \<and> recv_inv {} v'"
  by (simp add: turn_ok_def)

text \<open>Which descriptors leak.\<close>

definition turn_fds :: "io_env \<Rightarrow> server \<Rightarrow> outcome \<Rightarrow> bool" where
  "turn_fds env v r = (case r of Inl x \<Rightarrow> fcntl_leak (env_accept env) v x | Inr v' \<Rightarrow> sv_listenFd v' = sv_listenFd v \<and> leaked v' \<subseteq> leaked v)"

lemma scan_clients:
  assumes "server_inv v" "recv_inv {} v" "1 \<le> i"
    and data: "\<And>fd d. env_recv env fd = Some d \<Longrightarrow> length d \<le> buf_size + 1"
  shows "succeeds (scan env i v) (\<lambda>r. \<exists>v'. r = Inr v' \<and> server_inv v' \<and> recv_inv {} v' \<and> sv_listenFd v' = sv_listenFd v \<and> leaked v' = leaked v)"
  using assms(1-3)
proof (induction "length (shape v) - i" arbitrary: v i rule: less_induct)
  case less
  have len: "length (shape v) = length (sv_pollfds v)" by (simp add: shape_def)
  show ?case
  proof (cases "i < length (sv_pollfds v)")
    case False
    then show ?thesis using less.prems by (subst scan.simps) simp
  next
    case True
    let ?p = "sv_pollfds v ! i"
    have next_i: "succeeds (scan env (i + 1) w) (\<lambda>r. \<exists>v'. r = Inr v' \<and> server_inv v' \<and> recv_inv {} v' \<and> sv_listenFd v' = sv_listenFd v \<and> leaked v' = leaked v)"
      if "server_inv w" "recv_inv {} w" "shape w = shape v" "sv_listenFd w = sv_listenFd v" "leaked w = leaked v" for w
      using less.hyps [of w "i + 1"] that True by (simp add: len)
    show ?thesis
    proof (cases "pfd_revents ?p = 0")
      case True
      then show ?thesis
        using \<open>i < length (sv_pollfds v)\<close> next_i less.prems by (subst scan.simps) simp
    next
      case False
      note poll = server_invD(6) [OF less.prems(1), unfolded poll_inv_def]
      have "distinct (map pfd_fd (sv_pollfds v))" using poll by blast
      from this have "pfd_fd ?p \<noteq> pfd_fd (sv_pollfds v ! 0)"
        using nth_eq_iff_index_eq [of "map pfd_fd (sv_pollfds v)" i 0] True less.prems(3)
        by (cases "sv_pollfds v") auto
      moreover have "pfd_fd (sv_pollfds v ! 0) = sv_listenFd v" using poll by (metis hd_conv_nth)
      ultimately have notlisten: "pfd_fd ?p \<noteq> sv_listenFd v" by simp
      have "pfd_fd ?p \<in> set (map pfd_fd (sv_pollfds v))" using True by simp
      with notlisten poll have conn: "find_connection v (pfd_fd ?p) \<noteq> None" by auto
      have run: "scan env i v = handle_client env (pfd_fd ?p) (pfd_revents ?p) v \<bind>
          (\<lambda>(g, v1). if g then scan env i v1 else scan env (i + 1) v1)"
        using True False notlisten by (subst scan.simps) (simp add: Let_def)
      from handle_client_succeeds [of v "pfd_fd ?p" env "pfd_revents ?p",
        OF less.prems(1,2) conn data [where fd = "pfd_fd ?p"]]
      obtain g w where w: "handle_client env (pfd_fd ?p) (pfd_revents ?p) v = Some (g, w)" "server_inv w"
        "recv_inv {} w" "if g then gone (pfd_fd ?p) v w else kept_but (pfd_fd ?p) v w"
        unfolding succeeds_iff by auto
      have leak: "sv_listenFd w = sv_listenFd v" using w(4) by (simp add: kept_but_def gone_def split: if_splits)
      have leak2: "leaked w = leaked v" using w(4) leaked_steps(2,3) conn notlisten by (auto split: if_splits)
      have "length (shape w) < length (shape v)" if g
      proof -
        have "(pfd_fd ?p, pfd_revents ?p) \<in> set (shape v)" using True by (force simp: shape_def)
        then show ?thesis using that w(4) by (auto simp: gone_def intro: length_filter_less)
      qed
      then show ?thesis
        using w leak leak2 less.hyps [of w i] less.prems(3) True next_i [of w]
        by (auto simp: run len kept_but_def diff_less_mono)
    qed
  qed
qed

lemma scan_succeeds:
  assumes inv: "server_inv v" "recv_inv {} v" and env: "env_ok env v"
  shows "succeeds (scan env 0 v) (\<lambda>r. turn_ok env r \<and> turn_fds env v r)"
proof -
  have data: "\<And>fd d. env_recv env fd = Some d \<Longrightarrow> length d \<le> buf_size + 1"
    using env by (simp add: env_ok_def)
  have from1: "succeeds (scan env 1 w) (\<lambda>r. turn_ok env r \<and> turn_fds env v r)"
    if "server_inv w" "recv_inv {} w" "sv_listenFd w = sv_listenFd v" "leaked w \<subseteq> leaked v" for w
    by (rule succeeds_mono [OF scan_clients [OF that(1,2) _ data]]) (use that(3,4) in \<open>auto simp: turn_fds_def\<close>)
  from server_invD(6) [OF inv(1)] have first: "0 < length (sv_pollfds v)" "pfd_fd (sv_pollfds v ! 0) = sv_listenFd v"
    by (auto simp: poll_inv_def hd_conv_nth)
  have acc: "succeeds (case acceptClient (env_accept env) v of Inl e \<Rightarrow> Some (Inl e) | Inr v1 \<Rightarrow> scan env (0 + 1) v1)
      (\<lambda>r. turn_ok env r \<and> turn_fds env v r)"
    using acceptClient_inv [OF inv, of "env_accept env"] inv env from1
    by (cases "acceptClient (env_accept env) v") (auto simp: env_ok_def turn_ok_def turn_fds_def fcntl_leak_def)
  show ?thesis
    using first from1 [OF inv refl subset_refl] acc by (subst scan.simps) (simp add: Let_def)
qed

section \<open>One turn of the loop\<close>

lemma poll_revents_inv:
  assumes "server_inv v" "recv_inv {} v"
  shows "server_inv (poll_revents env v)" "recv_inv {} (poll_revents env v)"
    "env_ok env v \<Longrightarrow> env_ok env (poll_revents env v)"
proof -
  note d = server_invD [OF assms(1)]
  let ?ps = "map (\<lambda>p. p\<lparr>pfd_revents := env_revents env (pfd_fd p)\<rparr>) (sv_pollfds v)"
  have fds: "map pfd_fd ?ps = map pfd_fd (sv_pollfds v)" by simp
  have "poll_inv ?ps (sv_listenFd v) (find_connection v)"
    using d(6) unfolding poll_inv_def fds by (auto simp: hd_map)
  then show "server_inv (poll_revents env v)"
    using d by (auto simp: server_inv_def poll_revents_def)
  show "recv_inv {} (poll_revents env v)" using assms(2) by (simp add: recv_inv_def poll_revents_def)
  show "env_ok env v \<Longrightarrow> env_ok env (poll_revents env v)"
    by (auto simp: env_ok_def accept_ok_def poll_revents_def split: accept_result.splits)
qed

lemma serve_events_eq_scan:
  assumes "server_inv v" "recv_inv {} v" "env_ok env v"
  shows "serve_events env v = scan env 0 (poll_revents env v)"
proof -
  note p = poll_revents_inv [OF assms(1,2), of env]
  from scan_succeeds [OF p(1,2) p(3) [OF assms(3)]] obtain r where r: "scan env 0 (poll_revents env v) = Some r"
    "turn_ok env r"
    unfolding succeeds_iff by blast
  then show ?thesis
    by (cases r) (auto simp: serve_events_def hm_idle_no_timeout dest: server_invD(4))
qed

lemma poll_revents_fds [simp]: "owned_fds (poll_revents env v) = owned_fds v" "leaked (poll_revents env v) = leaked v"
    "sv_listenFd (poll_revents env v) = sv_listenFd v"
  by (simp_all add: leaked_def poll_revents_def)

lemma turn_fds_poll [simp]: "turn_fds env (poll_revents env v) r = turn_fds env v r"
  by (simp add: turn_fds_def fcntl_leak_def split: sum.splits)

lemma serve_events_fds:
  assumes "server_inv v" "recv_inv {} v" "env_ok env v"
  shows "succeeds (serve_events env v) (\<lambda>r. turn_ok env r \<and> turn_fds env v r)"
  unfolding serve_events_eq_scan [OF assms]
  using scan_succeeds [OF poll_revents_inv(1,2) [OF assms(1,2)], of env env] poll_revents_inv(3) [OF assms(1,2)] assms(3) by simp

lemma serve_events_succeeds:
  assumes "server_inv v" "recv_inv {} v" "env_ok env v"
  shows "succeeds (serve_events env v) (turn_ok env)"
  by (rule succeeds_mono [OF serve_events_fds [OF assms]]) simp


section \<open>Any number of turns\<close>

lemma new_Server_inv:
  "server_inv (new_Server p l pw)" "recv_inv {} (new_Server p l pw)" "leaked (new_Server p l pw) = {}"
  "sv_listenFd (new_Server p l pw) = l"
proof -
  have none: "find_connection (new_Server p l pw) = Map.empty"
    by (simp add: new_Server_def) (simp add: find_connection_def fun_eq_iff)
  have "state_clean (new_ServerState p pw)" "reg_inv (new_ServerState p pw)"
    by (simp_all add: state_clean_def text_inv_def reg_inv_def)
  moreover have fds: "owned_fds (new_Server p l pw) = {l}" "sv_open (new_Server p l pw) = [l]"
    by (simp_all add: owned_fds_def none) (simp_all add: new_Server_def)
  ultimately show "server_inv (new_Server p l pw)"
    unfolding server_inv_def none owned_def fds
    using new_ServerState_inv [of p pw] hm_idle_ops(1)
    by (simp add: new_Server_def) (simp add: addFd_def poll_inv_def)
  show "recv_inv {} (new_Server p l pw)" by (simp add: recv_inv_def none)
  show "leaked (new_Server p l pw) = {}" "sv_listenFd (new_Server p l pw) = l"
    by (simp_all add: leaked_def fds) (simp add: new_Server_def)
qed

inductive reachable :: "(addr list \<Rightarrow> addr) \<Rightarrow> int \<Rightarrow> string \<Rightarrow> server \<Rightarrow> bool" for p l pw where
  start: "reachable p l pw (new_Server p l pw)"
| turn: "reachable p l pw v \<Longrightarrow> env_ok env v \<Longrightarrow> serve_events env v = Some (Inr v') \<Longrightarrow> reachable p l pw v'"

lemma reachable_inv: "reachable p l pw v \<Longrightarrow> server_inv v \<and> recv_inv {} v"
proof (induction rule: reachable.induct)
  case start
  then show ?case using new_Server_inv by simp
next
  case (turn v env v')
  with serve_events_succeeds [of v env] show ?case by simp
qed

text \<open>The environments of a run: each satisfies \<open>env_ok\<close> in the state it meets, and \<open>accept\<close> returns a
  descriptor that is not open.\<close>

definition accept_new :: "io_env \<Rightarrow> server \<Rightarrow> bool" where
  "accept_new env v \<longleftrightarrow> (case env_accept env of
     AcceptFailed \<Rightarrow> True | Accepted cs host \<Rightarrow> cs \<notin> set (sv_open v) | AcceptedFcntlFailed cs host \<Rightarrow> cs \<notin> set (sv_open v))"

primrec envs_ok :: "io_env list \<Rightarrow> server \<Rightarrow> bool" where
  "envs_ok [] v = True"
| "envs_ok (env # envs) v = (if env_poll env = PollReady
     then env_ok env v \<and> accept_new env v \<and> (\<forall>v'. serve_events env v = Some (Inr v') \<longrightarrow> envs_ok envs v')
     else envs_ok envs v)"

text \<open>The state in which a run ends, or in which the turns are used up.\<close>

primrec final_server :: "run_result \<Rightarrow> server" where
  "final_server (Thrown e v) = v"
| "final_server (Returned v) = v"
| "final_server (Running v) = v"

text \<open>What may stay open: nothing, unless the run ended because \<open>fcntl\<close> failed on the descriptor that
  \<open>accept\<close> had just returned; then that one.\<close>

definition may_stay_open :: "io_env list \<Rightarrow> run_result \<Rightarrow> int set \<Rightarrow> bool" where
  "may_stay_open envs r L \<longleftrightarrow> (if r = Thrown ''fcntl(O_NONBLOCK) failed'' (final_server r)
     then \<exists>env \<in> set envs. \<exists>cs host. env_accept env = AcceptedFcntlFailed cs host \<and> L = {cs}
     else L = {})"

lemma may_stay_open_simps [simp]:
  "may_stay_open envs (Returned v) L \<longleftrightarrow> L = {}" "may_stay_open envs (Running v) L \<longleftrightarrow> L = {}"
  "may_stay_open envs (Thrown (''poll() failed: '' @ e) v) L \<longleftrightarrow> L = {}"
  by (simp_all add: may_stay_open_def)

lemma may_stay_open_later: "may_stay_open envs r L \<Longrightarrow> may_stay_open (env # envs) r L"
  by (auto simp: may_stay_open_def split: if_splits)

lemma run_succeeds:
  "server_inv v \<Longrightarrow> recv_inv {} v \<Longrightarrow> leaked v = {} \<Longrightarrow> envs_ok envs v \<Longrightarrow>
     succeeds (run envs v) (\<lambda>r. server_inv (final_server r) \<and> sv_listenFd (final_server r) = sv_listenFd v
       \<and> may_stay_open envs r (leaked (final_server r)))"
proof (induction envs arbitrary: v)
  case (Cons env envs)
  show ?case
  proof (cases "env_poll env")
    case PollReady
    with Cons.prems have env: "env_ok env v" "accept_new env v" by simp_all
    from serve_events_fds [OF Cons.prems(1,2) env(1)] obtain r where r: "serve_events env v = Some r"
      "turn_ok env r" "turn_fds env v r"
      unfolding succeeds_iff by blast
    show ?thesis
    proof (cases r)
      case (Inl x)
      with r(3) obtain cs host where leak: "fst x = ''fcntl(O_NONBLOCK) failed''"
        "env_accept env = AcceptedFcntlFailed cs host" "leaked (snd x) = {cs} - owned_fds v" "sv_listenFd (snd x) = sv_listenFd v"
        using Cons.prems(3) by (auto simp: turn_fds_def fcntl_leak_def)
      have "cs \<notin> owned_fds v"
        using env(2) leak(2) server_invD(10) [OF Cons.prems(1)] by (auto simp: accept_new_def owned_def)
      with leak Inl r PollReady Cons.prems show ?thesis
        by (cases x) (auto simp: turn_ok_def may_stay_open_def)
    next
      case (Inr b)
      with r(2,3) Cons.prems(3) have b: "server_inv b" "recv_inv {} b" "leaked b = {}" "sv_listenFd b = sv_listenFd v" by (auto simp: turn_fds_def)
      from Cons.IH [OF b(1-3)] b(4) Inr r(1) PollReady Cons.prems show ?thesis
        by (auto elim!: succeeds_mono intro: may_stay_open_later)
    qed
  next
    case PollInterrupted
    with Cons.IH [OF Cons.prems(1-3)] Cons.prems show ?thesis
      by (auto elim!: succeeds_mono intro: may_stay_open_later)
  qed (use Cons.prems in \<open>simp add: may_stay_open_def\<close>)
qed simp

section \<open>Shutdown\<close>

lemma disconnectClient_connections:
  "disconnectClient fd v = Some v' \<Longrightarrow> find_connection v fd \<noteq> None \<Longrightarrow>
     sv_connections v' = omap_erase (<) fd (sv_connections v)"
  by (auto simp: disconnectClient_def removeFd_def split: bind_splits)

lemma close_connections_succeeds:
  "server_inv v \<Longrightarrow> succeeds (close_connections v) (\<lambda>v'. server_inv v' \<and> sv_connections v' = []
     \<and> sv_listenFd v' = sv_listenFd v \<and> leaked v' = leaked v)"
proof (induction "length (sv_connections v)" arbitrary: v)
  case 0
  then show ?case by (subst close_connections.simps) simp
next
  case (Suc n)
  then obtain fd conn rest where c: "sv_connections v = (fd, conn) # rest"
    by (cases "sv_connections v") auto
  then have find: "find_connection v fd = Some conn" by (simp add: find_connection_def)
  from disconnectClient_succeeds [OF Suc.prems find] obtain v' where v':
    "disconnectClient fd v = Some v'" "server_inv v'" "gone fd v v'"
    unfolding succeeds_iff by blast
  from disconnectClient_connections [OF v'(1)] find c have rest: "sv_connections v' = rest" by simp
  have "fd \<noteq> sv_listenFd v" using server_invD(6) [OF Suc.prems] find by (auto simp: poll_inv_def)
  then have "leaked v' = leaked v" "sv_listenFd v' = sv_listenFd v"
    using leaked_steps(3) [OF v'(3)] find v'(3) by (simp_all add: gone_def)
  with rest Suc.hyps(1) [of v'] Suc.hyps(2) c v'(2)
  have "succeeds (close_connections v') (\<lambda>w. server_inv w \<and> sv_connections w = []
      \<and> sv_listenFd w = sv_listenFd v \<and> leaked w = leaked v)" by simp
  then show ?case using c v'(1) by (subst close_connections.simps) simp
qed

lemma no_clients_no_channels:
  assumes "state_inv s" "getClientByFd s = Map.empty"
  shows "deref_client s = Map.empty" "deref_channel s = Map.empty"
proof -
  from assms(1) have core: "core_inv s" by blast
  show clients: "deref_client s = Map.empty"
    using fd_of_live [OF core] assms(2) by (auto simp: fun_eq_iff) (metis not_None_eq option.distinct(1))
  show "deref_channel s = Map.empty"
  proof (rule ccontr)
    assume "deref_channel s \<noteq> Map.empty"
    then obtain x h where h: "deref_channel s x = Some h" by (auto simp: fun_eq_iff)
    then have "\<not> channel_isEmpty h" using state_invD(2) [OF assms(1)] by (simp add: nonempty_inv_def)
    then obtain a where "hasMember h a"
      using channel_isEmpty_iff [OF live_channel_wf [OF core h]] by blast
    from live_member [OF core h this] clients show False by simp
  qed
qed

lemma closeAllFds_succeeds:
  assumes "server_inv v" "0 \<le> sv_listenFd v"
  shows "succeeds (closeAllFds v) (\<lambda>v'. sv_pollfds v' = [] \<and> sv_connections v' = [] \<and> set (sv_open v') = leaked v
    \<and> deref_client (sv_state v') = Map.empty \<and> deref_channel (sv_state v') = Map.empty)"
proof -
  from close_connections_succeeds [OF assms(1)] obtain w where w: "close_connections v = Some w"
    "server_inv w" "sv_connections w = []" "sv_listenFd w = sv_listenFd v" "leaked w = leaked v"
    unfolding succeeds_iff by blast
  have none: "find_connection w = Map.empty" using w(3) by (simp add: find_connection_def fun_eq_iff)
  have "getClientByFd (sv_state w) = Map.empty"
    using server_invD(7) [OF w(2)] none by (auto simp: fun_eq_iff)
  moreover have "set (sv_open w) - {sv_listenFd v} = leaked v"
    using w(5) by (simp add: leaked_def owned_fds_def none w(4))
  ultimately show ?thesis using no_clients_no_channels [OF server_invD(1) [OF w(2)]] w assms(2)
    by (simp add: closeAllFds_def)
qed

end
