(* ===== verification/Delivery.thy ===== *)
theory Delivery
  imports ServerLoop CommandEffects
begin

text \<open>
  Who receives what: the replies of PRIVMSG and NOTICE, and the way of a reply into the send buffer
  of the connection it is addressed to.
\<close>

section \<open>Each member once\<close>

lemma members_fds:
  assumes "core_inv s" "deref_channel s x = Some h"
  shows "distinct (map (fd_at s) (getMembers h))"
    and "set (map (fd_at s) (getMembers h)) = {cl_fd c | a c. hasMember h a \<and> deref_client s a = Some c}"
proof -
  have wf: "channel_wf h" by (rule live_channel_wf [OF assms])
  have "inj_on (fd_at s) (set (getMembers h))"
    using fd_at_connected [OF assms(1)] members_live [OF assms] by (metis inj_onI option.inject)
  then show "distinct (map (fd_at s) (getMembers h))"
    by (simp add: distinct_map distinct_getMembers [OF wf])
  show "set (map (fd_at s) (getMembers h)) = {cl_fd c | a c. hasMember h a \<and> deref_client s a = Some c}"
  proof (intro equalityI subsetI)
    fix fd assume "fd \<in> set (map (fd_at s) (getMembers h))"
    then obtain a where a: "fd = fd_at s a" "hasMember h a" using set_getMembers [OF wf] by auto
    from live_member [OF assms a(2)] obtain c where "deref_client s a = Some c" by blast
    with a show "fd \<in> {cl_fd c | a c. hasMember h a \<and> deref_client s a = Some c}" by (auto simp: fd_at_def)
  next
    fix fd assume "fd \<in> {cl_fd c | a c. hasMember h a \<and> deref_client s a = Some c}"
    then obtain a c where "fd = cl_fd c" "hasMember h a" "deref_client s a = Some c" by blast
    then show "fd \<in> set (map (fd_at s) (getMembers h))"
      using set_getMembers [OF wf, of a] by (auto simp: fd_at_def intro!: image_eqI [of _ _ a])
  qed
qed

text \<open>\<open>each_once rs A t\<close>: exactly the descriptors in \<open>A\<close> are addressed, each once, with \<open>t\<close>.\<close>

definition each_once :: "(int \<times> string) list \<Rightarrow> int set \<Rightarrow> string \<Rightarrow> bool" where
  "each_once rs A t \<longleftrightarrow> distinct (map fst rs) \<and> fst ` set rs = A \<and> snd ` set rs \<subseteq> {t}"

lemma each_once_members:
  assumes "core_inv s" "getChannel s n = Some x" "deref_channel s x = Some h"
  shows "each_once (map (\<lambda>fd. (fd, t)) (filter (\<lambda>fd. fd \<noteq> ex) (map (fd_at s) (getMembers h)))) (channel_view s n - {ex}) t"
proof -
  note m = members_fds [OF assms(1,3)]
  have "map fst (map (\<lambda>fd. (fd, t)) xs) = xs" for xs :: "int list" by (induction xs) auto
  then show ?thesis
    using m unfolding channel_view_found(1) [OF assms] each_once_def
    by (auto simp: image_image distinct_filter simp del: map_map)
qed

section \<open>PRIVMSG and NOTICE\<close>

definition text_line :: "string \<Rightarrow> client \<Rightarrow> message \<Rightarrow> string" where
  "text_line command c msg = CHR '':'' # getFullPrefix c @ '' '' @ command @ '' '' @ getSingleParam msg 0
     @ '' :'' @ getSingleParam msg 1 @ CRLF"

lemma text_line_replies:
  "reply_privmsg (getFullPrefix c) command (getSingleParam msg 0) (getSingleParam msg 1) = text_line command c msg"
  "reply_notice (getFullPrefix c) command (getSingleParam msg 0) (getSingleParam msg 1) = text_line command c msg"
  "reply_privmsg (getFullPrefix c) command (getSingleParam msg 0) (getSingleParam msg (Suc 0)) = text_line command c msg"
  "reply_notice (getFullPrefix c) command (getSingleParam msg 0) (getSingleParam msg (Suc 0)) = text_line command c msg"
  by (simp_all add: reply_privmsg_def reply_notice_def text_line_def)

lemma handleTextMessage_channel:
  assumes "core_inv s" "deref_client s a = Some c" "isRegistered c" "2 \<le> getParamCount msg"
    and n: "is_channel_target (getSingleParam msg 0)" "isValidChannelName (getSingleParam msg 0)"
    and h: "getChannel s (getSingleParam msg 0) = Some x" "deref_channel s x = Some h" "hasMember h a"
  shows "\<exists>r. handleTextMessage fd msg a command b s = Some (r, s) \<and> \<not> shouldDisconnect r
    \<and> each_once (replies r) (channel_view s (getSingleParam msg 0) - {fd}) (text_line command c msg)"
  using assms each_once_members [OF assms(1) h(1,2), of "text_line command c msg" fd]
  by (cases "command = ''NOTICE''")
    (simp_all add: handleTextMessage_def addRepliesToMembers_members [OF assms(1) h(2)] text_line_replies Let_def)

text \<open>Whatever its parameters, a NOTICE is answered by nothing but copies of itself.\<close>

lemma handleNotice_replies:
  assumes "core_inv s" "deref_client s a = Some c"
  shows "yields (handleNotice fd msg a s) (\<lambda>p. snd p = s \<and> snd ` set (replies (fst p)) \<subseteq> {text_line ''NOTICE'' c msg})"
proof -
  have channel: "yields (addRepliesToMembers s (getMembers h) t fd new_CommandResult) (\<lambda>r. snd ` set (replies r) \<subseteq> {t})"
    if "deref_channel s x = Some h" for x h t
    using that by (auto simp: addRepliesToMembers_members [OF assms(1)])
  show ?thesis
    unfolding handleNotice_def handleTextMessage_def error_reply_def Let_def
    by (intro yields_intros)
      (use assms channel in \<open>auto simp: text_line_replies yields_def dest!: channel\<close>)
qed

section \<open>Into the send buffers\<close>

text \<open>The bytes queued for one descriptor, in the order of the replies.\<close>

definition addressed :: "(int \<times> string) list \<Rightarrow> int \<Rightarrow> string" where
  "addressed rs fd = concat (map snd (filter (\<lambda>q. fst q = fd) rs))"

lemma enqueue_loop_buffers:
  "omap_wf (<) (sv_connections v) \<Longrightarrow>
     find_connection (enqueue_loop rs v) fd = map_option (bufferSend (addressed rs fd)) (find_connection v fd)"
proof (induction rs arbitrary: v)
  case Nil
  then show ?case by (cases "find_connection v fd") (simp_all add: addressed_def bufferSend_def)
next
  case (Cons q rs)
  show ?case
  proof (cases "find_connection v (fst q)")
    case None
    with Cons show ?thesis by (cases "fst q = fd") (auto simp: addressed_def)
  next
    case (Some conn)
    let ?v = "enablePollout (fst q) (put_connection (fst q) (bufferSend (snd q) conn) v)"
    have wf: "omap_wf (<) (sv_connections ?v)" using Cons.prems by (simp add: put_connection_def)
    from Cons.IH [OF wf] Some Cons.prems show ?thesis
      by (cases "fst q = fd") (auto simp: addressed_def bufferSend_def)
  qed
qed

lemma enqueue_loop_state [simp]: "sv_state (enqueue_loop rs v) = sv_state v"
  by (induction rs arbitrary: v) (auto simp: enablePollout_def put_connection_def split: option.splits)

lemma addressed_each_once:
  assumes "each_once rs A t"
  shows "addressed rs fd = (if fd \<in> A then t else [])"
proof -
  have "distinct (map fst rs) \<Longrightarrow> snd ` set rs \<subseteq> {t} \<Longrightarrow> addressed rs fd = (if fd \<in> fst ` set rs then t else [])"
  proof (induction rs)
    case (Cons q rs)
    then show ?case by (auto simp: addressed_def)
  qed (simp add: addressed_def)
  with assms show ?thesis by (auto simp: each_once_def)
qed

text \<open>From the received line to the send buffers.\<close>

lemma dispatch_privmsg:
  assumes "core_inv s" "getClientByFd s fd = Some a" "deref_client s a = Some c" "isRegistered c"
    and msg: "msg_command msg = ''PRIVMSG''" "2 \<le> getParamCount msg"
    and n: "is_channel_target (getSingleParam msg 0)" "isValidChannelName (getSingleParam msg 0)"
    and fd: "fd \<in> channel_view s (getSingleParam msg 0)"
  shows "\<exists>r. dispatch fd msg hm now s = Some (r, s, hm) \<and> \<not> shouldDisconnect r
    \<and> each_once (replies r) (channel_view s (getSingleParam msg 0) - {fd}) (text_line ''PRIVMSG'' c msg)"
proof -
  from fd obtain x h b d where x: "deref_channel s x = Some h" "irc_key (ch_name h) = irc_key (getSingleParam msg 0)"
    "hasMember h b" "deref_client s b = Some d" "cl_fd d = fd" unfolding channel_view_iff by blast
  have "b = a" using fd_of_live [OF assms(1) x(4)] x(5) assms(2) by simp
  moreover have "getChannel s (getSingleParam msg 0) = Some x"
    using name_of_live [OF assms(1) x(1)] lookup_equivalent(2) [OF x(2), of s] by simp
  ultimately obtain r where "handleTextMessage fd msg a ''PRIVMSG'' True s = Some (r, s)" "\<not> shouldDisconnect r"
    "each_once (replies r) (channel_view s (getSingleParam msg 0) - {fd}) (text_line ''PRIVMSG'' c msg)"
    using handleTextMessage_channel [OF assms(1,3,4) msg(2) n, of x h fd "''PRIVMSG''" True] x by auto
  then show ?thesis using assms(2,3) msg(1) by (simp add: dispatch_def handlePrivmsg_def)
qed

lemma handle_line_privmsg:
  assumes "server_inv v" "getClientByFd (sv_state v) fd = Some a" "deref_client (sv_state v) a = Some c" "isRegistered c"
    and msg: "msg_command (parse line) = ''PRIVMSG''" "2 \<le> getParamCount (parse line)"
    and n: "is_channel_target (getSingleParam (parse line) 0)" "isValidChannelName (getSingleParam (parse line) 0)"
    and fd: "fd \<in> channel_view (sv_state v) (getSingleParam (parse line) 0)"
  shows "\<exists>r v'. handle_line fd now line v = Some (r, v') \<and> sv_state v' = sv_state v \<and>
    (\<forall>e. find_connection v' e = map_option (\<lambda>conn.
       if e \<in> channel_view (sv_state v) (getSingleParam (parse line) 0) - {fd}
       then bufferSend (text_line ''PRIVMSG'' c (parse line)) conn else conn) (find_connection v e))"
proof -
  have core: "core_inv (sv_state v)" using server_invD(1) [OF assms(1)] by blast
  let ?A = "channel_view (sv_state v) (getSingleParam (parse line) 0) - {fd}"
  let ?t = "text_line ''PRIVMSG'' c (parse line)"
  from dispatch_privmsg [OF core assms(2-4) msg n fd] obtain r where
    r: "dispatch fd (parse line) (Some (sv_healthMonitor v)) now (sv_state v) = Some (r, sv_state v, Some (sv_healthMonitor v))"
      "\<not> shouldDisconnect r" "each_once (replies r) ?A ?t" by blast
  have wf: "omap_wf (<) (sv_connections v)" using assms(1) by (simp add: server_inv_def)
  have same: "bufferSend [] conn = conn" for conn by (simp add: bufferSend_def)
  have run: "handle_line fd now line v = Some (r, enqueueReplies r v)"
    using r(1,2) by (simp add: handle_line_def applyCommandResult_def)
  have "find_connection (enqueueReplies r v) e = map_option (\<lambda>conn. if e \<in> ?A then bufferSend ?t conn else conn) (find_connection v e)" for e
    unfolding enqueueReplies_def enqueue_loop_buffers [OF wf] addressed_each_once [OF r(3)]
    by (cases "find_connection v e"; cases "e \<in> ?A") (simp_all only: option.map same if_True if_False)
  with run show ?thesis by (simp add: enqueueReplies_def enqueue_loop_state)
qed

end
