(* ===== verification/Scenario.thy ===== *)
theory Scenario
  imports Delivery
begin

text \<open>
  A concrete conversation with the server, turn by turn, on which the properties are applied: three
  clients connect; \<open>ann\<close>, \<open>bob\<close> and \<open>eve\<close> register; \<open>ann\<close> creates
  \<open>#c\<close>, \<open>bob\<close> joins it.
\<close>

declare scan.simps [code] read_loop.simps [code]

definition quiet_env :: io_env where
  "quiet_env = \<lparr>env_shutdown_before = False, env_poll = PollReady, env_shutdown_after = False,
     env_revents = (\<lambda>_. 0), env_accept = AcceptFailed, env_recv = (\<lambda>_. None), env_send = (\<lambda>_. 0),
     env_now = 0\<rparr>"

definition accepting :: "int \<Rightarrow> io_env" where
  "accepting fd = quiet_env\<lparr>env_revents := (\<lambda>e. if e = 3 then POLLIN else 0), env_accept := Accepted fd ''h''\<rparr>"

definition receiving :: "int \<Rightarrow> string \<Rightarrow> io_env" where
  "receiving fd d = quiet_env\<lparr>env_revents := (\<lambda>e. if e = fd then POLLIN else 0), env_recv := (\<lambda>_. Some d)\<rparr>"

definition turn :: "io_env \<Rightarrow> server \<Rightarrow> server" where
  "turn env v = (case serve_events env v of Some (Inr v') \<Rightarrow> v' | _ \<Rightarrow> v)"

lemma reachable_turn: "reachable p l pw v \<Longrightarrow> env_ok env v \<Longrightarrow> reachable p l pw (turn env v)"
  by (auto simp: turn_def intro: reachable.turn split: option.splits sum.splits)

lemma env_ok_receiving [simp]: "env_ok (receiving fd d) v \<longleftrightarrow> length d \<le> buf_size + 1"
  by (simp add: env_ok_def accept_ok_def receiving_def quiet_env_def)

lemma env_ok_accepting: "find_connection v fd = None \<Longrightarrow> fd \<noteq> sv_listenFd v \<Longrightarrow> env_ok (accepting fd) v"
  by (simp add: env_ok_def accept_ok_def accepting_def quiet_env_def)

definition lobby :: server where
  "lobby = turn (accepting 6) (turn (accepting 5) (turn (accepting 4) (new_Server (\<lambda>_. 1) 3 ''pw'')))"

definition hello :: "string \<Rightarrow> string" where
  "hello nick = ''PASS pw'' @ CRLF @ ''NICK '' @ nick @ CRLF @ ''USER u 0 * :r'' @ CRLF"

definition demo :: server where
  "demo = turn (receiving 5 (''JOIN #c'' @ CRLF)) (turn (receiving 4 (''JOIN #c'' @ CRLF))
     (turn (receiving 6 (hello ''eve'')) (turn (receiving 5 (hello ''bob'')) (turn (receiving 4 (hello ''ann'')) lobby))))"

lemma lobby_reachable: "reachable (\<lambda>_. 1) 3 ''pw'' lobby"
  unfolding lobby_def
  by (intro reachable_turn env_ok_accepting reachable.start) code_simp+

lemma demo_reachable: "reachable (\<lambda>_. 1) 3 ''pw'' demo"
  unfolding demo_def
  by (intro reachable_turn lobby_reachable) (simp_all add: buf_size_def hello_def)

lemma demo_inv: "server_inv demo" "recv_inv {} demo" "state_inv (sv_state demo)"
  using reachable_inv [OF demo_reachable] server_invD(1) by auto

definition user :: "string \<Rightarrow> int \<Rightarrow> addr list \<Rightarrow> client" where
  "user nick fd channels = \<lparr>cl_nickname = nick, cl_username = ''u'', cl_realname = ''r'', cl_host = ''h'', cl_fd = fd,
     cl_passOk = True, cl_registered = True, cl_channels = channels\<rparr>"

definition room :: channel where
  "room = \<lparr>ch_name = ''#c'', ch_topic = [], ch_members = [(1, \<lparr>mi_isOperator = True\<rparr>), (2, \<lparr>mi_isOperator = False\<rparr>)],
     ch_invitedClients = [], ch_modes = new_ChannelModes\<rparr>"

definition tables where
  "tables s = (heapClients s, heapChannels s, nicknameToClient s, fdToClient s, ss_channels s)"

lemma tables_demo: "tables (sv_state demo) =
    ([(1, user ''ann'' 4 [4]), (2, user ''bob'' 5 [4]), (3, user ''eve'' 6 [])], [(4, room)],
     [(''ann'', 1), (''bob'', 2), (''eve'', 3)], [(4, 1), (5, 2), (6, 3)], [(''#c'', 4)])"
  by code_simp

lemma demo_tables:
  "heapClients (sv_state demo) = [(1, user ''ann'' 4 [4]), (2, user ''bob'' 5 [4]), (3, user ''eve'' 6 [])]"
  "heapChannels (sv_state demo) = [(4, room)]"
  "nicknameToClient (sv_state demo) = [(''ann'', 1), (''bob'', 2), (''eve'', 3)]"
  "fdToClient (sv_state demo) = [(4, 1), (5, 2), (6, 3)]"
  "ss_channels (sv_state demo) = [(''#c'', 4)]"
  using tables_demo unfolding tables_def by simp_all

lemma demo_lookup:
  "getClientByFd (sv_state demo) 4 = Some 1" "getClientByFd (sv_state demo) 5 = Some 2"
  "getClientByFd (sv_state demo) 6 = Some 3"
  "deref_client (sv_state demo) 1 = Some (user ''ann'' 4 [4])" "deref_client (sv_state demo) 2 = Some (user ''bob'' 5 [4])"
  "deref_client (sv_state demo) 3 = Some (user ''eve'' 6 [])" "deref_channel (sv_state demo) 4 = Some room"
  by (simp_all add: getClientByFd_def deref_client_def deref_channel_def demo_tables equivalent_def)

lemma demo_names:
  "getChannel (sv_state demo) ''#c'' = Some 4" "getClientByNick (sv_state demo) ''bob'' = Some 2"
  unfolding getChannel_def getClientByNick_def demo_tables by code_simp+

lemma room_members: "hasMember room a \<longleftrightarrow> a = 1 \<or> a = 2"
  by (auto simp: hasMember_def room_def equivalent_def)

lemma demo_view: "channel_view (sv_state demo) ''#c'' = {4, 5}"
proof -
  have core: "core_inv (sv_state demo)" using demo_inv(3) by blast
  have fds: "cl_fd (user nick fd xs) = fd" for nick fd xs by (simp add: user_def)
  have "{cl_fd c | a c. (a = 1 \<or> a = 2) \<and> deref_client (sv_state demo) a = Some c}
      = {cl_fd (user ''ann'' 4 [4]), cl_fd (user ''bob'' 5 [4])}"
    using demo_lookup(4,5) by (auto simp del: One_nat_def; blast)
  then show ?thesis
    unfolding channel_view_found(1) [OF core demo_names(1) demo_lookup(7)] room_members fds .
qed

end
