(* ===== verification/EndToEnd.thy ===== *)
theory EndToEnd
  imports Scenario
begin

text \<open>
  A whole turn of the poll loop in which one client completes one line: from the event \<open>poll\<close>
  reports, through the scan, the receive buffer, the parser and the dispatcher, to the send buffers
  of the others.
\<close>

section \<open>A scan with one event\<close>

lemma scan_skip:
  "i \<le> k \<Longrightarrow> k \<le> length (sv_pollfds v) \<Longrightarrow> (\<And>j. i \<le> j \<Longrightarrow> j < k \<Longrightarrow> pfd_revents (sv_pollfds v ! j) = 0) \<Longrightarrow>
     scan env i v = scan env k v"
proof (induction "k - i" arbitrary: i)
  case (Suc n)
  have "scan env (i + 1) v = scan env k v"
  proof (rule Suc.hyps(1))
    show "pfd_revents (sv_pollfds v ! j) = 0" if "i + 1 \<le> j" "j < k" for j
      using Suc.prems(3) [of j] that by simp
  qed (use Suc in auto)
  moreover have "i < length (sv_pollfds v)" "pfd_revents (sv_pollfds v ! i) = 0" using Suc by auto
  then have "scan env i v = scan env (i + 1) v" by (subst scan.simps) (simp add: Let_def)
  ultimately show ?case by simp
qed simp

lemma scan_done: "length (sv_pollfds v) \<le> i \<Longrightarrow> scan env i v = Some (Inr v)"
  by (subst scan.simps) simp

lemma scan_one:
  assumes "k < length (sv_pollfds v)" "pfd_fd (sv_pollfds v ! k) = fd" "fd \<noteq> sv_listenFd v"
    and others: "\<And>j. j < length (sv_pollfds v) \<Longrightarrow> j \<noteq> k \<Longrightarrow> pfd_revents (sv_pollfds v ! j) = 0"
    and event: "pfd_revents (sv_pollfds v ! k) \<noteq> 0"
    and run: "handle_client env fd (pfd_revents (sv_pollfds v ! k)) v = Some (False, v1)" "shape v1 = shape v"
  shows "scan env 0 v = Some (Inr v1)"
proof -
  have same: "length (sv_pollfds v1) = length (sv_pollfds v)"
    using arg_cong [OF run(2), of length] by (simp add: shape_def)
  have rev: "pfd_revents (sv_pollfds v1 ! j) = pfd_revents (sv_pollfds v ! j)" if "j < length (sv_pollfds v)" for j
    using arg_cong [OF run(2), of "\<lambda>s. snd (s ! j)"] that same by (simp add: shape_def)
  have "scan env 0 v = scan env k v" using assms(1) others by (intro scan_skip) auto
  also have "\<dots> = scan env (k + 1) v1"
    using assms(1-3) event run(1) by (subst scan.simps) (simp add: Let_def)
  also have "\<dots> = scan env (length (sv_pollfds v1)) v1"
    using assms(1) others rev same by (intro scan_skip) auto
  finally show ?thesis by (simp add: scan_done)
qed

section \<open>One line\<close>

text \<open>The server when \<open>fd\<close>'s receive buffer has just been emptied into a line.\<close>

definition line_taken :: "int \<Rightarrow> connection \<Rightarrow> server \<Rightarrow> server" where
  "line_taken fd conn v = put_connection fd (conn\<lparr>cn_recvBuffer := [], cn_nlPos := None\<rparr>)
     (v\<lparr>sv_healthMonitor := updateActivity fd 0 (sv_healthMonitor v)\<rparr>)"

lemma omap_put_put: "omap_put (<) k v (omap_put (<) k w m) = omap_put (<) k v m" for k :: int
  by (induction m) auto

lemma put_connection_twice:
  "put_connection fd c1 ((put_connection fd c2 v)\<lparr>sv_healthMonitor := m\<rparr>) = put_connection fd c1 (v\<lparr>sv_healthMonitor := m\<rparr>)"
  by (simp add: put_connection_def omap_put_put)

lemma handleRead_one_line:
  assumes inv: "server_inv v" and conn: "find_connection v fd = Some conn"
    and buf: "cn_recvBuffer conn @ d = line @ CRLF" "LF \<notin> set line" "length line \<le> 510"
    and run: "handle_line fd 0 line (line_taken fd conn v) = Some (r, v1)" "\<not> shouldDisconnect r"
    and after: "find_connection v1 fd = Some conn1" "cn_recvBuffer conn1 = []"
  shows "handleRead fd (Some d) 0 v = Some (True, put_connection fd (conn1\<lparr>cn_nlPos := None\<rparr>) v1)"
proof -
  let ?c = "conn\<lparr>cn_recvBuffer := line @ CRLF\<rparr>" and ?h = "updateActivity fd 0 (sv_healthMonitor v)"
  let ?w = "(put_connection fd ?c v)\<lparr>sv_healthMonitor := ?h\<rparr>"
  have wf: "omap_wf (<) (sv_connections v)" by (rule server_invD(5) [OF inv])
  have cut: "cn_recvBuffer ?c = (line @ [CR]) @ LF # []" "LF \<notin> set (line @ [CR])" using buf(2) by auto
  note pop = pop_first_line [OF cut]
  have "\<not> isLineTooLong ?c" using buf(3) by (simp add: isLineTooLong_iff)
  then have "handleRead fd (Some d) 0 v = read_loop fd 0 ?w"
    using conn buf(1) by (simp add: handleRead_def readFromSocket_def put_connection_def)
  also have "\<dots> = read_loop fd 0 v1"
  proof -
    have "find_connection ?w fd = Some ?c" using wf by simp
    moreover have "popLine (?c\<lparr>cn_nlPos := Some (length (line @ [CR]))\<rparr>) =
        Some (line, conn\<lparr>cn_recvBuffer := [], cn_nlPos := None\<rparr>)"
      using pop(2) by (simp add: strip_cr_def)
    moreover have "put_connection fd (conn\<lparr>cn_recvBuffer := [], cn_nlPos := None\<rparr>) ?w = line_taken fd conn v"
      by (simp add: line_taken_def put_connection_twice)
    ultimately show ?thesis using pop(1) run by (subst read_loop.simps) simp
  qed
  also have "\<dots> = Some (True, put_connection fd (conn1\<lparr>cn_nlPos := None\<rparr>) v1)"
    using after by (subst read_loop.simps) (simp add: no_line_left)
  finally show ?thesis .
qed

text \<open>The server is in order when the line has been taken out of the buffer.\<close>

lemma line_taken_inv:
  assumes "server_inv v" "find_connection v fd = Some conn"
  shows "server_inv (line_taken fd conn v)" "sv_state (line_taken fd conn v) = sv_state v"
    "find_connection (line_taken fd conn v) = (find_connection v)(fd := Some (conn\<lparr>cn_recvBuffer := [], cn_nlPos := None\<rparr>))"
    "shape (line_taken fd conn v) = shape v"
proof -
  let ?v = "v\<lparr>sv_healthMonitor := updateActivity fd 0 (sv_healthMonitor v)\<rparr>"
  have inv: "server_inv ?v"
    using server_invD [OF assms(1)] hm_idle_ops(2) by (auto simp: server_inv_def)
  from server_inv_put [OF inv, of fd conn] assms(2) show "server_inv (line_taken fd conn v)"
    unfolding line_taken_def by (simp add: hasPendingOutput_def)
  show "find_connection (line_taken fd conn v) = (find_connection v)(fd := Some (conn\<lparr>cn_recvBuffer := [], cn_nlPos := None\<rparr>))"
    unfolding line_taken_def using server_invD(5) [OF inv] by simp
qed (simp_all add: line_taken_def put_connection_def shape_def)

section \<open>One turn\<close>

lemma receiving_fields [simp]:
  "env_recv (receiving fd d) e = Some d" "env_now (receiving fd d) = 0"
  "env_revents (receiving fd d) e = (if e = fd then POLLIN else 0)"
  by (simp_all add: receiving_def quiet_env_def)

lemma handle_client_read:
  assumes "handleRead fd (Some d) 0 v = Some (True, v1)"
  shows "handle_client (receiving fd d) fd POLLIN v = Some (False, v1)"
  using assms by (simp add: handle_client_def POLLIN_def POLLOUT_def POLLERR_def POLLHUP_def POLLNVAL_def)

lemma turn_one_line:
  assumes inv: "server_inv v" "recv_inv {} v" and conn: "find_connection v fd = Some conn"
    and buf: "cn_recvBuffer conn @ d = line @ CRLF" "LF \<notin> set line" "length line \<le> 510"
    and run: "handle_line fd 0 line (line_taken fd conn (poll_revents (receiving fd d) v)) = Some (r, v1)"
      "\<not> shouldDisconnect r"
    and after: "find_connection v1 fd = Some conn1" "cn_recvBuffer conn1 = []"
  shows "serve_events (receiving fd d) v = Some (Inr (put_connection fd (conn1\<lparr>cn_nlPos := None\<rparr>) v1))"
proof -
  let ?env = "receiving fd d" and ?w = "poll_revents (receiving fd d) v"
  let ?v' = "put_connection fd (conn1\<lparr>cn_nlPos := None\<rparr>) v1"
  have winv: "server_inv ?w" using poll_revents_inv(1) [OF inv] .
  have wconn: "find_connection ?w fd = Some conn" using conn by (simp add: poll_revents_def)
  have "length d \<le> buf_size + 1"
    using arg_cong [OF buf(1), of length] buf(3) by (simp add: buf_size_def)
  then have env: "env_ok ?env v" by simp
  note poll = server_invD(6) [OF winv, unfolded poll_inv_def]
  have "fd \<in> set (map pfd_fd (sv_pollfds ?w))" using poll wconn by auto
  then obtain k where k: "k < length (sv_pollfds ?w)" "pfd_fd (sv_pollfds ?w ! k) = fd"
    by (auto simp: in_set_conv_nth)
  have listen: "fd \<noteq> sv_listenFd ?w" using poll wconn by auto
  have rev: "pfd_revents (sv_pollfds ?w ! j) = (if j = k then POLLIN else 0)" if "j < length (sv_pollfds ?w)" for j
  proof -
    have "pfd_revents (sv_pollfds ?w ! j) = env_revents ?env (pfd_fd (sv_pollfds ?w ! j))"
      using that by (simp add: poll_revents_def)
    moreover have "pfd_fd (sv_pollfds ?w ! j) = fd \<longleftrightarrow> j = k"
      using poll k that nth_eq_iff_index_eq [of "map pfd_fd (sv_pollfds ?w)" j k] by auto
    ultimately show ?thesis by simp
  qed
  have read: "handleRead fd (Some d) 0 ?w = Some (True, ?v')"
    by (rule handleRead_one_line [OF winv wconn buf run after])
  have "clean line" using buf(2) by (simp add: clean_def)
  from handle_line_succeeds [OF line_taken_inv(1) [OF winv wconn] _ this, of fd _ 0] line_taken_inv(3,4) [OF winv wconn] run
  have "shape v1 = shape ?w" by (simp add: kept_def)
  then have "scan ?env 0 ?w = Some (Inr ?v')"
    using k listen rev handle_client_read [OF read] by (intro scan_one) (auto simp: POLLIN_def)
  then show ?thesis using serve_events_eq_scan [OF inv env] by simp
qed

lemma turn_privmsg:
  assumes inv: "server_inv v" "recv_inv {} v" and conn: "find_connection v fd = Some conn"
    and buf: "cn_recvBuffer conn @ d = line @ CRLF" "LF \<notin> set line" "length line \<le> 510"
    and who: "getClientByFd (sv_state v) fd = Some a" "deref_client (sv_state v) a = Some c" "isRegistered c"
    and msg: "msg_command (parse line) = ''PRIVMSG''" "2 \<le> getParamCount (parse line)"
    and n: "is_channel_target (getSingleParam (parse line) 0)" "isValidChannelName (getSingleParam (parse line) 0)"
      "fd \<in> channel_view (sv_state v) (getSingleParam (parse line) 0)"
  shows "\<exists>v'. serve_events (receiving fd d) v = Some (Inr v') \<and> sv_state v' = sv_state v \<and>
    (\<forall>e. map_option cn_sendBuffer (find_connection v' e) = map_option (\<lambda>conn. cn_sendBuffer conn @
       (if e \<in> channel_view (sv_state v) (getSingleParam (parse line) 0) - {fd}
        then text_line ''PRIVMSG'' c (parse line) else [])) (find_connection v e))"
proof -
  let ?w = "poll_revents (receiving fd d) v"
  have winv: "server_inv ?w" using poll_revents_inv(1) [OF inv] .
  have w: "find_connection ?w = find_connection v" "sv_state ?w = sv_state v" by (simp_all add: poll_revents_def)
  have wconn: "find_connection ?w fd = Some conn" using conn w by simp
  note t = line_taken_inv [OF winv wconn]
  from handle_line_privmsg [OF t(1), of fd a c line 0] who msg n obtain r v1 where
    v1: "handle_line fd 0 line (line_taken fd conn ?w) = Some (r, v1)" "sv_state v1 = sv_state v"
      "\<And>e. find_connection v1 e = map_option (\<lambda>conn.
         if e \<in> channel_view (sv_state v) (getSingleParam (parse line) 0) - {fd}
         then bufferSend (text_line ''PRIVMSG'' c (parse line)) conn else conn) (find_connection (line_taken fd conn ?w) e)"
    unfolding t(2) w(2) by blast
  have own: "find_connection v1 fd = Some (conn\<lparr>cn_recvBuffer := [], cn_nlPos := None\<rparr>)" using v1(3) [of fd] t(3) by simp
  have "clean line" using buf(2) by (simp add: clean_def)
  from handle_line_succeeds [OF t(1) _ this, of fd _ 0] t(3) v1(1) have stay: "server_inv v1"
    "if shouldDisconnect r then gone fd (line_taken fd conn ?w) v1 else kept (line_taken fd conn ?w) v1" by auto
  have "\<not> shouldDisconnect r" using stay(2) own by (auto simp: gone_def recv_buffer_def fun_eq_iff split: if_splits)
  from turn_one_line [OF inv conn buf v1(1) this own] have
    "serve_events (receiving fd d) v = Some (Inr (put_connection fd (conn\<lparr>cn_recvBuffer := [], cn_nlPos := None\<rparr>) v1))" by simp
  moreover have "map_option cn_sendBuffer (find_connection (put_connection fd (conn\<lparr>cn_recvBuffer := [], cn_nlPos := None\<rparr>) v1) e)
      = map_option (\<lambda>conn. cn_sendBuffer conn @ (if e \<in> channel_view (sv_state v) (getSingleParam (parse line) 0) - {fd}
          then text_line ''PRIVMSG'' c (parse line) else [])) (find_connection v e)" for e
    using v1(3) [of e] server_invD(5) [OF stay(1)] t(3) w(1) conn
    by (cases "find_connection v e") (auto simp: bufferSend_def)
  ultimately show ?thesis using v1(2) by (auto simp: put_connection_def)
qed

end
