(* ===== verification/Registration.thy ===== *)
theory Registration
  imports Delivery
begin

text \<open>
  The commands that give a client its identity: the exact effect of NICK on the table of
  nicknames and on the registration of the client; and how an invitation lets a client into a
  channel.
\<close>

text \<open>The client after it has taken a new name.\<close>

definition named :: "client \<Rightarrow> string \<Rightarrow> client" where
  "named c nick = completed (c\<lparr>cl_nickname := nick\<rparr>)"

text \<open>The table after the client \<open>a\<close> has changed its name from \<open>old\<close> to \<open>nick\<close>.\<close>

definition moved :: "addr \<Rightarrow> string \<Rightarrow> string \<Rightarrow> (string \<Rightarrow> addr option) \<Rightarrow> string \<Rightarrow> addr option" where
  "moved a old nick N k = (if irc_key k = irc_key nick then Some a
     else if old \<noteq> [] \<and> irc_key k = irc_key old then None else N k)"

lemma own_nickname:
  assumes "state_inv s" "deref_client s a = Some c" "isValidNickname (cl_nickname c)"
  shows "getClientByNick s (cl_nickname c) = Some a"
proof -
  have core: "core_inv s" using assms(1) by blast
  have "cl_nickname c \<noteq> []" using assms(3) by auto
  with core_invD(3) [OF core] assms(2) show ?thesis unfolding nick_inv_def by blast
qed

lemma updateNick_moves:
  assumes "state_inv s" "deref_client s a = Some c" "isValidNickname nick" "getClientByNick s nick \<in> {None, Some a}"
  shows "\<exists>s'. updateNick a nick s = Some (True, s') \<and> heap_wf s'
    \<and> deref_client s' = (deref_client s)(a := Some (c\<lparr>cl_nickname := nick\<rparr>))
    \<and> getClientByNick s' = moved a (cl_nickname c) nick (getClientByNick s)"
proof (cases "cl_nickname c = nick")
  case True
  have own: "getClientByNick s nick = Some a"
    using own_nickname [OF assms(1,2)] True assms(3) by auto
  have "getClientByNick s k = Some a" if "irc_key k = irc_key nick" for k
    using lookup_equivalent(1) [OF that, of s] own by simp
  then have "getClientByNick s = moved a (cl_nickname c) nick (getClientByNick s)"
    using True by (auto simp: moved_def fun_eq_iff)
  moreover have "c\<lparr>cl_nickname := nick\<rparr> = c" using True by auto
  ultimately show ?thesis using True assms(1,2) by (auto simp: updateNick_run [OF assms(2)] fun_upd_idem)
next
  case False
  have core: "core_inv s" using assms(1) by blast
  have free: "\<And>b. getClientByNick s nick = Some b \<Longrightarrow> b = a" using assms(4) by auto
  have "updateNick a nick s = Some (True, renamed a c nick s)"
    using False assms(4) by (auto simp: updateNick_run [OF assms(2)])
  moreover have "getClientByNick (renamed a c nick s) = moved a (cl_nickname c) nick (getClientByNick s)"
    by (rule ext) (simp only: renamed_nicks [OF core assms(2) free] moved_def)
  moreover have "heap_wf s" using assms(1) by simp
  ultimately show ?thesis by (simp add: unsafe_setNick_def)
qed

lemma handleNick_run:
  assumes "state_inv s" "deref_client s a = Some c" "nick = getSingleParam msg 0"
  shows "succeeds (handleNick (cl_fd c) msg a s) (\<lambda>(r, s').
    if \<not> hasParam msg 0 then s' = s \<and> replies r = [(cl_fd c, needMoreParams c ''NICK'')]
    else if \<not> isValidNickname nick then s' = s \<and> replies r = [(cl_fd c, erroneousNickname c nick)]
    else if getClientByNick s nick \<notin> {None, Some a} then s' = s \<and> replies r = [(cl_fd c, nickInUse nick)]
    else deref_client s' = (deref_client s)(a := Some (named c nick))
      \<and> getClientByNick s' = moved a (cl_nickname c) nick (getClientByNick s)
      \<and> replies r = (if cl_registered (named c nick) \<and> \<not> cl_registered c
          then [(cl_fd c, reply_welcome (named c nick))] else []))"
proof (cases "hasParam msg 0 \<and> isValidNickname nick \<and> getClientByNick s nick \<in> {None, Some a}")
  case True
  let ?c = "c\<lparr>cl_nickname := nick\<rparr>"
  from updateNick_moves [OF assms(1,2)] True obtain s1 where s1: "updateNick a nick s = Some (True, s1)" "heap_wf s1"
    "deref_client s1 = (deref_client s)(a := Some ?c)" "getClientByNick s1 = moved a (cl_nickname c) nick (getClientByNick s)"
    by blast
  have "markRegistered ?c = named c nick" if "canRegister ?c" using that by (simp add: markRegistered_def named_def completed_def)
  moreover have "?c = named c nick" if "cl_registered c \<or> \<not> canRegister ?c" using that by (auto simp: named_def completed_def)
  moreover have "getClientByNick (store_client a d s1) = getClientByNick s1" for d
    by (simp add: getClientByNick_def store_client_def fun_eq_iff)
  ultimately show ?thesis
    using True assms s1 maybeRegister_run [OF s1(2), of a ?c new_CommandResult]
    by (auto simp: handleNick_def named_def completed_def addReply_def new_CommandResult_def fun_upd_idem)
next
  case False
  moreover have "cl_nickname c \<noteq> nick" if "isValidNickname nick" "getClientByNick s nick \<notin> {None, Some a}"
    using that own_nickname [OF assms(1,2)] by auto
  ultimately show ?thesis using assms updateNick_run [OF assms(2), of nick]
    by (auto simp: handleNick_def Let_def one_reply_def addReply_def new_CommandResult_def)
qed

section \<open>Invitations\<close>

lemma handleInvite_run:
  assumes "state_inv s" "deref_client s a = Some c" "cl_registered c" "2 \<le> getParamCount msg"
    and "isValidNickname (getSingleParam msg 0)" "isValidChannelName (getSingleParam msg 1)"
    and "getClientByNick s (getSingleParam msg 0) = Some b" "channel_named s (getSingleParam msg 1) = Some h"
    and "hasMember h a" "\<not> hasMember h b" "cm_inviteOnly (ch_modes h) \<Longrightarrow> isOperator h a"
  shows "succeeds (handleInvite (cl_fd c) msg a s) (\<lambda>(r, s'). state_inv s' \<and> deref_client s' = deref_client s
    \<and> channel_named s' (getSingleParam msg 1) = Some (addInvite b h))"
proof -
  have core: "core_inv s" using assms(1) by blast
  from assms(8) obtain x where x: "getChannel s (getSingleParam msg 1) = Some x" "deref_channel s x = Some h"
    unfolding channel_named_def by (auto simp: bind_eq_Some_conv)
  from live_by_nick [OF core assms(7)] obtain d where d: "deref_client s b = Some d" by blast
  from inviteClientToChannel_succeeds [OF assms(1) d x(2) assms(10)] obtain s' where
    s': "inviteClientToChannel (Some b) (Some x) s = Some s'" "state_inv s'" "deref_client s' = deref_client s"
      "deref_channel s' = (deref_channel s)(x := Some (addInvite b h))" "getChannel s' = getChannel s"
    unfolding succeeds_iff by auto
  then show ?thesis using assms x d
    by (auto simp: handleInvite_def Let_def isRegistered_def isInviteOnly_def channel_named_def completed_def)
qed

lemma may_join_invited:
  assumes "channel_named s n = Some (addInvite b h)" "getSingleParam msg 0 = n"
    and "\<not> cm_hasKey (ch_modes h)" "cm_limit (ch_modes h) < 0"
  shows "may_join s b msg"
  using assms by (simp add: may_join_def)

lemma handleJoin_exact:
  assumes "state_inv s" "deref_client s a = Some c"
  shows "succeeds (handleJoin (cl_fd c) msg a s) (\<lambda>(r, s').
    if cl_registered c \<and> hasParam msg 0 \<and> isValidChannelName (getSingleParam msg 0) \<and> may_join s a msg
    then entered s (getSingleParam msg 0) (cl_fd c) s' else s' = s)"
  by (rule succeeds_yields [OF join.keeps_contract [OF assms refl]],
      rule yields_mono [OF handleJoin_effect [OF assms]]) (auto simp: isRegistered_def split: if_splits)

lemma invited_may_enter:
  assumes "state_inv s" "deref_client s b = Some d" "cl_registered d" "isValidChannelName n"
    and "channel_named s n = Some (addInvite b h)" "\<not> cm_hasKey (ch_modes h)" "cm_limit (ch_modes h) < 0"
  shows "succeeds (handleJoin (cl_fd d) (new_Message [] ''JOIN'' [n]) b s) (\<lambda>(r, s'). entered s n (cl_fd d) s')"
proof -
  let ?m = "new_Message [] ''JOIN'' [n]"
  have m: "hasParam ?m 0" "getSingleParam ?m 0 = n"
    by (simp_all add: hasParam_def getSingleParam_def new_Message_def)
  have "may_join s b ?m" by (rule may_join_invited [OF assms(5) m(2) assms(6,7)])
  with handleJoin_exact [OF assms(1,2), of ?m] assms(3,4) m show ?thesis by simp
qed

end
