(* ===== verification/Framing.thy ===== *)
theory Framing
  imports Prelude
begin

text \<open>
  What all the programs here do with the bytes of a socket: cut them at line feeds, keep the
  unfinished rest. The locale is the contract of such a cutter, \<open>finish\<close> being what it makes
  of a line (strip the CR, put the LF back); its consequence is that the way a stream is cut into
  reads does not matter.
\<close>

lemma first_line_cases:
  obtains "LF \<notin> set s" | t r where "s = t @ LF # r" "LF \<notin> set t"
  using split_list_first [of LF s] by blast

locale line_cutter =
  fixes chop :: "string \<Rightarrow> string list \<times> string" and finish :: "string \<Rightarrow> string"
  assumes cut_none: "LF \<notin> set s \<Longrightarrow> chop s = ([], s)"
    and cut_line: "LF \<notin> set t \<Longrightarrow> chop (t @ LF # r) = (finish t # fst (chop r), snd (chop r))"
begin

lemma cut_append: "chop (s @ d) = (fst (chop s) @ fst (chop (snd (chop s) @ d)), snd (chop (snd (chop s) @ d)))"
proof (induction "length s" arbitrary: s rule: less_induct)
  case less
  show ?case
  proof (cases s rule: first_line_cases)
    case 1
    then show ?thesis by (simp add: cut_none)
  next
    case (2 t r)
    then have "length r < length s" by simp
    from less.hyps [OF this] 2 show ?thesis by (simp add: cut_line)
  qed
qed

end

end
