(* ===== verification/ReadSplitting.thy ===== *)
theory ReadSplitting
  imports ServerLoop Framing
begin

text \<open>
  Reading does not depend on how TCP cuts the stream. The bytes of a client are cut at line feeds;
  \<open>_handleRead\<close> handles the lines that are complete, in their order, up to a QUIT, and keeps
  the rest; and two reads have the effect of one read of both pieces. The exception is a line beyond
  the limit of \<open>isLineTooLong\<close>, which one read may hide behind a short line.
\<close>

section \<open>Lines of a buffer\<close>

function conn_lines :: "string \<Rightarrow> string list \<times> string" where
  "conn_lines s = (if LF \<in> set s then
     (let l = takeWhile (\<lambda>c. c \<noteq> LF) s; r = drop (length l + 1) s
      in (strip_cr l # fst (conn_lines r), snd (conn_lines r)))
   else ([], s))"
  by auto
termination by (relation "measure length") (auto simp: in_set_conv_nth)

declare conn_lines.simps [simp del]

lemma conn_lines_none: "LF \<notin> set s \<Longrightarrow> conn_lines s = ([], s)"
  by (subst conn_lines.simps) simp

lemma conn_lines_line:
  "LF \<notin> set t \<Longrightarrow> conn_lines (t @ LF # r) = (strip_cr t # fst (conn_lines r), snd (conn_lines r))"
  by (subst conn_lines.simps) (simp add: takeWhile_until)

interpretation cl: line_cutter conn_lines strip_cr
  by unfold_locales (simp_all add: conn_lines_none conn_lines_line)

lemma conn_lines_rest: "snd (conn_lines s) = after_last_LF s"
proof (induction s rule: conn_lines.induct)
  case (1 s)
  show ?case
  proof (cases s rule: first_line_cases)
    case (2 t r)
    with 1 show ?thesis by (simp add: conn_lines_line after_last_LF_simps takeWhile_until)
  qed (simp add: conn_lines_none after_last_LF_simps)
qed

section \<open>The receive buffer set aside\<close>

definition set_recv :: "int \<Rightarrow> string \<Rightarrow> server \<Rightarrow> server" where
  "set_recv fd b v = (case find_connection v fd of None \<Rightarrow> v
     | Some conn \<Rightarrow> put_connection fd (conn\<lparr>cn_recvBuffer := b, cn_nlPos := None\<rparr>) v)"

lemma omap_put_laws:
  "omap_put (<) k v (omap_put (<) k w m) = omap_put (<) k v m"
  "i \<noteq> k \<Longrightarrow> omap_put (<) i x (omap_put (<) k w m) = omap_put (<) k w (omap_put (<) i x m)"
  "omap_erase (<) k (omap_put (<) k w m) = omap_erase (<) k m"
  "omap_find (<) m k = Some w \<Longrightarrow> omap_put (<) k w m = m" for k :: int
  by (induction m) auto

lemma put_laws:
  "put_connection fd c (put_connection fd d v) = put_connection fd c v"
  "e \<noteq> fd \<Longrightarrow> put_connection e c (put_connection fd d v) = put_connection fd d (put_connection e c v)"
  "find_connection v fd = Some c \<Longrightarrow> put_connection fd c v = v"
  "enablePollout e (put_connection fd c v) = put_connection fd c (enablePollout e v)"
  by (simp_all add: put_connection_def enablePollout_def find_connection_def omap_put_laws)

lemma set_recv_fields [simp]:
  "sv_state (set_recv fd b v) = sv_state v" "sv_healthMonitor (set_recv fd b v) = sv_healthMonitor v"
  "omap_wf (<) (sv_connections v) \<Longrightarrow> omap_wf (<) (sv_connections (set_recv fd b v))"
  by (simp_all add: set_recv_def split: option.split)

lemma find_set_recv:
  "omap_wf (<) (sv_connections v) \<Longrightarrow> find_connection (set_recv fd b v) e =
     (if e = fd then map_option (\<lambda>c. c\<lparr>cn_recvBuffer := b, cn_nlPos := None\<rparr>) (find_connection v fd) else find_connection v e)"
  by (simp add: set_recv_def split: option.split)

lemma set_recv_twice [simp]:
  "omap_wf (<) (sv_connections v) \<Longrightarrow> set_recv fd b (set_recv fd b' v) = set_recv fd b v"
  by (simp add: set_recv_def put_laws split: option.split)

lemma set_recv_upd:
  "(set_recv fd b v)\<lparr>sv_state := s\<rparr> = set_recv fd b (v\<lparr>sv_state := s\<rparr>)"
  "(set_recv fd b v)\<lparr>sv_healthMonitor := h\<rparr> = set_recv fd b (v\<lparr>sv_healthMonitor := h\<rparr>)"
  by (simp_all add: set_recv_def put_connection_def split: option.split)

lemma set_recv_enqueue_one:
  assumes "omap_wf (<) (sv_connections v)" "find_connection v e = Some conn"
  shows "set_recv fd b (enablePollout e (put_connection e (bufferSend m conn) v)) =
    enablePollout e (put_connection e (bufferSend m (the (find_connection (set_recv fd b v) e))) (set_recv fd b v))"
proof (cases "e = fd")
  case True
  with assms show ?thesis by (cases conn) (simp add: set_recv_def put_laws bufferSend_def)
next
  case False
  with assms show ?thesis by (simp add: set_recv_def put_laws split: option.split)
qed

lemma set_recv_enqueue:
  "omap_wf (<) (sv_connections v) \<Longrightarrow> enqueue_loop rs (set_recv fd b v) = set_recv fd b (enqueue_loop rs v)"
proof (induction rs arbitrary: v)
  case (Cons q rs)
  show ?case
  proof (cases "find_connection v (fst q)")
    case None
    then have "find_connection (set_recv fd b v) (fst q) = None" using Cons.prems by (auto simp: find_set_recv)
    with None Cons show ?thesis by simp
  next
    case (Some conn)
    let ?v = "enablePollout (fst q) (put_connection (fst q) (bufferSend (snd q) conn) v)"
    have "find_connection (set_recv fd b v) (fst q) \<noteq> None" using Some Cons.prems by (auto simp: find_set_recv)
    then obtain d where d: "find_connection (set_recv fd b v) (fst q) = Some d" by blast
    have "omap_wf (<) (sv_connections ?v)" using Cons.prems by simp
    from Cons.IH [OF this] set_recv_enqueue_one [OF Cons.prems Some, of fd b "snd q"] Some d show ?thesis by simp
  qed
qed simp

lemma set_recv_disconnect:
  assumes "omap_wf (<) (sv_connections v)" "find_connection v fd \<noteq> None"
  shows "disconnectClient fd (set_recv fd b v) = disconnectClient fd v"
proof -
  from assms(2) obtain conn where "find_connection v fd = Some conn" by blast
  then show ?thesis
    using assms(1) unfolding disconnectClient_def
    by (simp add: set_recv_def find_set_recv Let_def)
      (simp add: removeFd_def close_sys_def put_connection_def omap_put_laws)
qed

lemma set_recv_absent: "find_connection v fd = None \<Longrightarrow> set_recv fd b v = v"
  by (simp add: set_recv_def)

lemma enqueue_loop_frame:
  "omap_wf (<) (sv_connections v) \<Longrightarrow> omap_wf (<) (sv_connections (enqueue_loop rs v))
     \<and> (find_connection (enqueue_loop rs v) fd = None \<longleftrightarrow> find_connection v fd = None)"
  by (induction rs arbitrary: v) (auto split: option.splits)

lemma disconnectClient_gone:
  "disconnectClient fd v = Some v' \<Longrightarrow> omap_wf (<) (sv_connections v) \<Longrightarrow> find_connection v fd \<noteq> None \<Longrightarrow>
     find_connection v' fd = None"
  using disconnectClient_connections [of fd v v'] by (simp add: find_connection_def)

lemma notifyAndDisconnect_set_recv:
  assumes "omap_wf (<) (sv_connections w)" "find_connection w fd \<noteq> None"
  shows "notifyAndDisconnect fd reason (set_recv fd b w) = map_option (set_recv fd b) (notifyAndDisconnect fd reason w)"
proof -
  have "disconnectClient fd (enqueueReplies n (set_recv fd b w)) = map_option (set_recv fd b) (disconnectClient fd (enqueueReplies n w))" for n
  proof -
    note frame = enqueue_loop_frame [OF assms(1), of "replies n" fd]
    have "disconnectClient fd (enqueueReplies n (set_recv fd b w)) = disconnectClient fd (enqueueReplies n w)"
      unfolding enqueueReplies_def set_recv_enqueue [OF assms(1)]
      using frame assms(2) by (intro set_recv_disconnect) auto
    moreover have "map_option (set_recv fd b) (disconnectClient fd (enqueueReplies n w)) = disconnectClient fd (enqueueReplies n w)"
    proof (cases "disconnectClient fd (enqueueReplies n w)")
      case (Some u)
      have "find_connection u fd = None"
        using disconnectClient_gone [OF Some] frame assms(2) by (simp add: enqueueReplies_def)
      with Some show ?thesis by (simp add: set_recv_absent)
    qed simp
    ultimately show ?thesis by simp
  qed
  then show ?thesis
    by (cases "DisconnectNotifier_build (new_DisconnectEvent fd reason) (sv_state w)") (simp_all add: notifyAndDisconnect_def)
qed

lemma handle_line_set_recv:
  assumes "omap_wf (<) (sv_connections v)" "find_connection v fd \<noteq> None"
  shows "handle_line fd now line (set_recv fd b v) = map_option (\<lambda>(r, v1). (r, set_recv fd b v1)) (handle_line fd now line v)"
proof (cases "dispatch fd (parse line) (Some (sv_healthMonitor v)) now (sv_state v)")
  case (Some p)
  obtain r s hm where p: "p = (r, s, hm)" by (cases p)
  let ?w = "v\<lparr>sv_state := s, sv_healthMonitor := the hm\<rparr>"
  have w: "omap_wf (<) (sv_connections ?w)" "find_connection ?w fd \<noteq> None" using assms by simp_all
  note frame = enqueue_loop_frame [OF w(1), of "replies r" fd]
  have "applyCommandResult r fd (set_recv fd b ?w) = map_option (set_recv fd b) (applyCommandResult r fd ?w)"
    using frame w(2) notifyAndDisconnect_set_recv [of "enqueue_loop (replies r) ?w" fd "''Client Quit''" b]
    by (simp add: applyCommandResult_def Let_def enqueueReplies_def set_recv_enqueue [OF w(1)])
  with Some p show ?thesis
    by (cases "applyCommandResult r fd ?w") (simp_all add: handle_line_def set_recv_upd)
qed (simp add: handle_line_def)

section \<open>Handling the lines in order\<close>

primrec handle_lines :: "int \<Rightarrow> time_t \<Rightarrow> string list \<Rightarrow> server \<Rightarrow> (bool \<times> server) option" where
  "handle_lines fd now [] v = Some (True, v)"
| "handle_lines fd now (line # lines) v = do {
     (result, v1) \<leftarrow> handle_line fd now line v;
     if shouldDisconnect result then Some (False, v1) else handle_lines fd now lines v1
   }"

lemma handle_lines_append:
  "handle_lines fd now (ls @ ms) v =
     do { (ok, v1) \<leftarrow> handle_lines fd now ls v; if ok then handle_lines fd now ms v1 else Some (False, v1) }"
proof (induction ls arbitrary: v)
  case (Cons l ls)
  then show ?case by (cases "handle_line fd now l v") auto
qed simp

text \<open>Where the client is connected and the server in order, both stay so up to a QUIT.\<close>

lemma handle_line_keeps:
  assumes "server_inv v" "find_connection v fd \<noteq> None" "clean line" "handle_line fd now line v = Some (r, v1)"
  shows "server_inv v1" "if shouldDisconnect r then find_connection v1 fd = None else find_connection v1 fd \<noteq> None"
proof -
  from assms(2) obtain conn where conn: "find_connection v fd = Some conn" by blast
  from handle_line_succeeds [OF assms(1) conn assms(3), of now] assms(4)
  show "server_inv v1" "if shouldDisconnect r then find_connection v1 fd = None else find_connection v1 fd \<noteq> None"
    using assms(2) by (auto simp: find_connection_recv gone_def kept_def split: if_splits)
qed

lemma handle_lines_set_recv:
  assumes "server_inv v" "find_connection v fd \<noteq> None" "list_all clean ls"
  shows "handle_lines fd now ls (set_recv fd b v) = map_option (\<lambda>(ok, v1). (ok, set_recv fd b v1)) (handle_lines fd now ls v)"
  using assms
proof (induction ls arbitrary: v)
  case (Cons l ls)
  show ?case
  proof (cases "handle_line fd now l v")
    case None
    then show ?thesis using handle_line_set_recv [OF server_invD(5) [OF Cons.prems(1)] Cons.prems(2)] by simp
  next
    case (Some p)
    obtain r v1 where p: "p = (r, v1)" by (cases p)
    have l: "clean l" using Cons.prems(3) by simp
    note keeps = handle_line_keeps [OF Cons.prems(1,2) l Some [unfolded p]]
    have "handle_lines fd now ls (set_recv fd b v1) = map_option (\<lambda>(ok, v1). (ok, set_recv fd b v1)) (handle_lines fd now ls v1)"
      if "\<not> shouldDisconnect r" using Cons.IH [OF keeps(1)] keeps(2) that Cons.prems(3) by simp
    with Some p show ?thesis
      using handle_line_set_recv [OF server_invD(5) [OF Cons.prems(1)] Cons.prems(2)] by simp
  qed
qed simp

lemma conn_lines_clean: "list_all clean (fst (conn_lines s))"
proof (induction s rule: conn_lines.induct)
  case (1 s)
  show ?case
  proof (cases s rule: first_line_cases)
    case (2 t r)
    with 1 show ?thesis by (simp add: conn_lines_line takeWhile_until clean_strip_cr)
  qed (simp add: conn_lines_none)
qed

lemma set_recv_inv:
  assumes "server_inv v"
  shows "server_inv (set_recv fd b v)"
  using assms by (auto simp: set_recv_def hasPendingOutput_def intro!: server_inv_put split: option.split)

lemma set_recv_put:
  "find_connection v fd = Some conn \<Longrightarrow> put_connection fd (conn\<lparr>cn_recvBuffer := b, cn_nlPos := None\<rparr>) v = set_recv fd b v"
  by (simp add: set_recv_def)

text \<open>The loop of \<open>_handleRead\<close> handles the complete lines of the buffer and keeps the rest.\<close>

lemma read_loop_lines:
  assumes "server_inv v" "recv_buffer v fd = Some buf"
  shows "read_loop fd now v = handle_lines fd now (fst (conn_lines buf)) (set_recv fd (snd (conn_lines buf)) v)"
  using assms
proof (induction "length buf" arbitrary: v buf rule: less_induct)
  case less
  from less.prems(2) obtain conn where conn: "find_connection v fd = Some conn" "cn_recvBuffer conn = buf"
    by (auto simp: recv_buffer_def)
  note wf = server_invD(5) [OF less.prems(1)]
  show ?case
  proof (cases buf rule: first_line_cases)
    case 1
    have "conn\<lparr>cn_nlPos := None\<rparr> = conn\<lparr>cn_recvBuffer := buf, cn_nlPos := None\<rparr>" using conn(2) by auto
    then have "put_connection fd (conn\<lparr>cn_nlPos := None\<rparr>) v = set_recv fd buf v" using conn(1) by (simp add: set_recv_put)
    then show ?thesis
      using 1 conn by (subst read_loop.simps) (simp add: no_line_left conn_lines_none)
  next
    case (2 l rest)
    let ?v = "set_recv fd rest v" and ?ls = "fst (conn_lines rest)" and ?b = "snd (conn_lines rest)"
    note pop = pop_first_line [of conn l rest, unfolded conn(2), OF 2]
    have run: "read_loop fd now v = handle_line fd now (strip_cr l) ?v \<bind> (\<lambda>(r, v1).
        if shouldDisconnect r then Some (False, v1) else read_loop fd now v1)"
      by (subst read_loop.simps) (simp add: conn(1) pop set_recv_put)
    have at: "server_inv ?v" "find_connection ?v fd \<noteq> None" "recv_buffer ?v fd = Some rest"
      using set_recv_inv [OF less.prems(1)] conn(1) wf by (simp_all add: find_set_recv recv_buffer_def)
    have other: "handle_line fd now (strip_cr l) (set_recv fd ?b v) =
        map_option (\<lambda>(r, v1). (r, set_recv fd ?b v1)) (handle_line fd now (strip_cr l) ?v)"
      using handle_line_set_recv [OF server_invD(5) [OF at(1)] at(2), of now "strip_cr l" ?b] wf by simp
    show ?thesis
    proof (cases "handle_line fd now (strip_cr l) ?v")
      case None
      then show ?thesis using run other 2 by (simp add: conn_lines_line)
    next
      case (Some p)
      obtain r v1 where p: "p = (r, v1)" by (cases p)
      note line = clean_strip_cr [OF 2(2)]
      note keeps = handle_line_keeps [OF at(1,2) line Some [unfolded p]]
      show ?thesis
      proof (cases "shouldDisconnect r")
        case True
        with keeps(2) have "set_recv fd ?b v1 = v1" by (simp add: set_recv_absent)
        with True Some p run other 2 show ?thesis by (simp add: conn_lines_line)
      next
        case False
        from at(2) obtain c where "find_connection ?v fd = Some c" by blast
        from handle_line_succeeds [OF at(1) this line, of now] Some p False at(3)
        have "recv_buffer v1 fd = Some rest" by (simp add: kept_def)
        moreover have "length rest < length buf" by (simp add: 2(1))
        ultimately have "read_loop fd now v1 = handle_lines fd now ?ls (set_recv fd ?b v1)"
          using less.hyps keeps(1) by blast
        with False Some p run other 2 show ?thesis by (simp add: conn_lines_line)
      qed
    qed
  qed
qed

section \<open>One read and two reads\<close>

lemma handleRead_lines:
  assumes "server_inv v" "find_connection v fd = Some conn" "b = cn_recvBuffer conn @ d"
    and "\<not> isLineTooLong (conn\<lparr>cn_recvBuffer := b\<rparr>)"
  shows "handleRead fd (Some d) now v = handle_lines fd now (fst (conn_lines b))
    (set_recv fd (snd (conn_lines b)) (v\<lparr>sv_healthMonitor := updateActivity fd now (sv_healthMonitor v)\<rparr>))"
proof -
  let ?h = "updateActivity fd now (sv_healthMonitor v)"
  let ?w = "(put_connection fd (conn\<lparr>cn_recvBuffer := b\<rparr>) v)\<lparr>sv_healthMonitor := ?h\<rparr>"
  have "server_inv (put_connection fd (conn\<lparr>cn_recvBuffer := b\<rparr>) v)"
    by (rule server_inv_put [OF assms(1,2)]) (simp_all add: hasPendingOutput_def)
  then have inv: "server_inv ?w" using hm_idle_ops(2) [of "sv_healthMonitor v"] by (auto simp: server_inv_def)
  have buf: "recv_buffer ?w fd = Some b" using server_invD(5) [OF assms(1)] by (simp add: recv_buffer_def)
  have same: "set_recv fd x ?w = set_recv fd x (v\<lparr>sv_healthMonitor := ?h\<rparr>)" for x
    using assms(2) server_invD(5) [OF assms(1)]
    by (simp add: set_recv_def) (simp add: put_connection_def omap_put_laws)
  have "handleRead fd (Some d) now v = read_loop fd now ?w"
    using assms(2-4) by (simp add: handleRead_def readFromSocket_def)
  then show ?thesis using read_loop_lines [OF inv buf, of now] same by simp
qed

text \<open>A client that has just been heard of: noting its activity again changes nothing.\<close>

definition awake :: "int \<Rightarrow> time_t \<Rightarrow> health_monitor \<Rightarrow> bool" where
  "awake fd now m \<longleftrightarrow> (\<exists>st. health_of m fd = Some st \<and> lastActivity st = now)"

lemma awake_ops:
  "hm_wf m \<Longrightarrow> awake fd now (updateActivity fd now m)"
  "hm_wf m \<Longrightarrow> awake fd now (markPongReceived fd token now m)"
  "awake fd now m \<Longrightarrow> updateActivity fd now m = m"
proof -
  assume "awake fd now m"
  then obtain st where st: "omap_find (<) (hm_clients m) fd = Some st" "lastActivity st = now"
    by (auto simp: awake_def health_of_def)
  then have "st\<lparr>lastActivity := now\<rparr> = st" by simp
  with st(1) show "updateActivity fd now m = m"
    by (simp add: updateActivity_def getOrCreateState_def put_state_def omap_put_laws)
qed (auto simp: awake_def health_of_ops Let_def)

lemma handle_line_awake:
  assumes "server_inv v" "awake fd now (sv_healthMonitor v)" "clean line"
    "handle_line fd now line v = Some (r, v1)" "\<not> shouldDisconnect r"
  shows "awake fd now (sv_healthMonitor v1)"
proof -
  let ?m = "parse line" and ?h = "Some (sv_healthMonitor v)"
  have state: "state_inv (sv_state v)" by (rule server_invD(1) [OF assms(1)])
  from dispatch_succeeds [OF state, of fd ?m ?h now] obtain r' s' hm where
    d: "dispatch fd ?m ?h now (sv_state v) = Some (r', s', hm)" "handled ?m (sv_state v) (r', s')" "monitor_step fd now ?h hm"
    unfolding succeeds_iff by auto
  let ?v = "v\<lparr>sv_state := s', sv_healthMonitor := the hm\<rparr>"
  have reg: "reg_inv s'" by (rule dispatch_reg [OF state server_invD(9) [OF assms(1)] d(1)])
  note e = server_inv_dispatched [OF assms(1) d(2) parse_clean [OF assms(3)] d(3) reg]
  have "r' = r" "v1 = enqueueReplies r ?v"
    using assms(4,5) d(1) by (auto simp: handle_line_def applyCommandResult_def Let_def bind_eq_Some_conv split: if_splits)
  then have "sv_healthMonitor v1 = the hm" using enqueueReplies_inv(4) [OF e(1,3)] by simp
  moreover have "awake fd now (the hm)"
    using d(3) assms(2) awake_ops(2) server_invD(3) [OF assms(1)] by (auto simp: monitor_step_def)
  ultimately show ?thesis by simp
qed

lemma handle_lines_keeps:
  assumes "server_inv v" "find_connection v fd \<noteq> None" "list_all clean ls" "awake fd now (sv_healthMonitor v)"
  shows "yields (handle_lines fd now ls v) (\<lambda>(ok, v1). if ok then server_inv v1 \<and> find_connection v1 fd \<noteq> None
    \<and> awake fd now (sv_healthMonitor v1) else find_connection v1 fd = None)"
  using assms
proof (induction ls arbitrary: v)
  case (Cons l ls)
  have l: "clean l" using Cons.prems(3) by simp
  have next_line: "yields (handle_lines fd now ls v1) (\<lambda>(ok, v2). if ok then server_inv v2 \<and> find_connection v2 fd \<noteq> None
      \<and> awake fd now (sv_healthMonitor v2) else find_connection v2 fd = None)"
    if "handle_line fd now l v = Some (r, v1)" "\<not> shouldDisconnect r" for r v1
    using Cons.IH [of v1] handle_line_keeps [OF Cons.prems(1,2) l that(1)]
      handle_line_awake [OF Cons.prems(1,4) l that] Cons.prems(3) that(2) by simp
  show ?case
    unfolding handle_lines.simps
    by (intro yields_bindI yields_prodI yields_ifI)
      (use next_line handle_line_keeps(2) [OF Cons.prems(1,2) l] in \<open>auto split: if_splits\<close>)
qed simp

lemma second_read:
  assumes "server_inv u" "find_connection u fd \<noteq> None" "awake fd now (sv_healthMonitor u)"
    and "\<not> (512 < length (b @ d) \<and> LF \<notin> set (take 512 (b @ d)))"
  shows "handleRead fd (Some d) now (set_recv fd b u) =
    handle_lines fd now (fst (conn_lines (b @ d))) (set_recv fd (snd (conn_lines (b @ d))) u)"
proof -
  from assms(2) obtain c where c: "find_connection u fd = Some c" by blast
  note wf = server_invD(5) [OF assms(1)]
  let ?c = "c\<lparr>cn_recvBuffer := b, cn_nlPos := None\<rparr>"
  have at: "find_connection (set_recv fd b u) fd = Some ?c" "b @ d = cn_recvBuffer ?c @ d"
    using c wf by (simp_all add: find_set_recv)
  have "\<not> isLineTooLong (?c\<lparr>cn_recvBuffer := b @ d\<rparr>)" using assms(4) by (simp add: isLineTooLong_iff)
  from handleRead_lines [OF set_recv_inv [OF assms(1)] at this, of now]
  show ?thesis using wf by (simp add: awake_ops(3) [OF assms(3)] set_recv_upd)
qed

lemma handleRead_append:
  assumes inv: "server_inv v" and conn: "find_connection v fd = Some conn"
    and whole: "\<not> isLineTooLong (conn\<lparr>cn_recvBuffer := cn_recvBuffer conn @ d1 @ d2\<rparr>)"
    and rest: "\<not> isLineTooLong (conn\<lparr>cn_recvBuffer := after_last_LF (cn_recvBuffer conn @ d1) @ d2\<rparr>)"
  shows "handleRead fd (Some (d1 @ d2)) now v = do {
    (ok, v1) \<leftarrow> handleRead fd (Some d1) now v;
    if ok then handleRead fd (Some d2) now v1 else Some (False, v1) }"
proof -
  let ?b = "cn_recvBuffer conn @ d1"
  define v' where "v' = v\<lparr>sv_healthMonitor := updateActivity fd now (sv_healthMonitor v)\<rparr>"
  define L1 where "L1 = fst (conn_lines ?b)"
  define R1 where "R1 = snd (conn_lines ?b)"
  define L2 where "L2 = fst (conn_lines (R1 @ d2))"
  define R2 where "R2 = snd (conn_lines (R1 @ d2))"
  have first: "\<not> isLineTooLong (conn\<lparr>cn_recvBuffer := ?b\<rparr>)" using whole by (auto simp: isLineTooLong_iff)
  have inv': "server_inv v'" "find_connection v' fd \<noteq> None" "awake fd now (sv_healthMonitor v')"
    using server_invD [OF inv] hm_idle_ops(2) [of "sv_healthMonitor v"] conn awake_ops(1)
    by (auto simp: v'_def server_inv_def)
  have clean: "list_all clean L1" unfolding L1_def by (rule conn_lines_clean)
  have wf: "omap_wf (<) (sv_connections v')" by (rule server_invD(5) [OF inv'(1)])
  have too: "\<not> (512 < length (R1 @ d2) \<and> LF \<notin> set (take 512 (R1 @ d2)))"
    using rest unfolding isLineTooLong_iff R1_def conn_lines_rest by simp
  have one: "handleRead fd (Some d1) now v = map_option (\<lambda>(ok, v1). (ok, set_recv fd R1 v1)) (handle_lines fd now L1 v')"
    unfolding handleRead_lines [OF inv conn refl first]
    using handle_lines_set_recv [OF inv'(1,2) clean, of now R1] by (simp add: L1_def R1_def v'_def)
  have "handleRead fd (Some (d1 @ d2)) now v = handle_lines fd now (L1 @ L2) (set_recv fd R2 v')"
    using handleRead_lines [OF inv conn refl whole, of now] cl.cut_append [of ?b d2]
    by (simp add: L1_def L2_def R1_def R2_def v'_def)
  also have "\<dots> = map_option (\<lambda>(ok, v1). (ok, set_recv fd R2 v1)) (handle_lines fd now L1 v') \<bind>
      (\<lambda>(ok, v1). if ok then handle_lines fd now L2 v1 else Some (False, v1))"
    by (simp only: handle_lines_append handle_lines_set_recv [OF inv'(1,2) clean])
  also have "\<dots> = map_option (\<lambda>(ok, v1). (ok, set_recv fd R1 v1)) (handle_lines fd now L1 v') \<bind>
      (\<lambda>(ok, v1). if ok then handleRead fd (Some d2) now v1 else Some (False, v1))"
  proof (cases "handle_lines fd now L1 v'")
    case (Some p)
    obtain ok u where p: "p = (ok, u)" by (cases p)
    from handle_lines_keeps [OF inv'(1,2) clean inv'(3)] Some p
    have u: "if ok then server_inv u \<and> find_connection u fd \<noteq> None \<and> awake fd now (sv_healthMonitor u)
      else find_connection u fd = None" by simp
    have "handleRead fd (Some d2) now (set_recv fd R1 u) = handle_lines fd now L2 (set_recv fd R2 u)" if ok
      using second_read u that too by (simp add: L2_def R2_def)
    with Some p u show ?thesis by (cases ok) (simp_all add: set_recv_absent)
  qed simp
  finally show ?thesis by (simp only: one)
qed

section \<open>The limit on lines\<close>

text \<open>\<open>isLineTooLong\<close> looks at the first line of the buffer only, before anything is taken out of it.
  Behind a short line, in the same read, a line of any length is handled like every other; in a read
  of its own it closes the connection. This is why \<open>handleRead_append\<close> needs its second condition.\<close>

lemma long_line_behind_short:
  assumes "server_inv v" "find_connection v fd = Some conn" "cn_recvBuffer conn = []"
    and "LF \<notin> set l" "length l < 512" "LF \<notin> set m"
  shows "handleRead fd (Some (l @ LF # m @ [LF])) now v = handle_lines fd now [strip_cr l, strip_cr m]
    (set_recv fd [] (v\<lparr>sv_healthMonitor := updateActivity fd now (sv_healthMonitor v)\<rparr>))"
proof -
  let ?d = "l @ LF # m @ [LF]"
  have "LF \<in> set (take 512 ?d)" using assms(5) by (simp add: take_Cons')
  then have "\<not> isLineTooLong (conn\<lparr>cn_recvBuffer := ?d\<rparr>)" by (simp add: isLineTooLong_iff)
  moreover have "conn_lines ?d = ([strip_cr l, strip_cr m], [])"
    using assms(4,6) conn_lines_line [of m "[]"] by (simp add: conn_lines_line conn_lines_none)
  ultimately show ?thesis using handleRead_lines [OF assms(1,2), of ?d ?d now] assms(3) by simp
qed

lemma long_line_alone:
  assumes "find_connection v fd = Some conn" "cn_recvBuffer conn = []" "LF \<notin> set m" "512 \<le> length m"
  shows "\<exists>v1. handleRead fd (Some (m @ [LF])) now v = Some (False, v1)"
proof -
  have "LF \<notin> set (take 512 (m @ [LF]))" using assms(3,4) by (auto dest: in_set_takeD)
  with assms show ?thesis by (simp add: handleRead_def readFromSocket_def isLineTooLong_iff)
qed

end
