(* ===== verification/ServerStart.thy ===== *)
theory ServerStart
  imports ServerLoop
begin

text \<open>
  The constructor \<open>Server::Server\<close> with its error paths (\<open>src/src/a/Server.cpp\<close>): the
  result of every system call it makes is a field of \<open>startup\<close>; an exception is
  \<open>Inl\<close> of its text. The second component lists the descriptors the constructor has closed,
  so that a descriptor that is neither owned by the server nor closed shows up as a leak: the
  destructor of a half-built object does not run.
\<close>

record startup =
  su_sigint :: "string option"
  su_sigpipe :: "string option"
  su_socket :: int
  su_setsockopt :: "string option"
  su_fcntl :: bool
  su_bind :: "int \<Rightarrow> string option"
  su_listen :: bool

text \<open>The three fields of type \<open>string option\<close> hold the text of \<open>strerror\<close> when the call
  fails. \<open>failed_utf8\<close> is the Japanese word for failure in the encoding of the source file.\<close>

definition failed_utf8 :: string where
  "failed_utf8 = [CHR 0xE5, CHR 0xA4, CHR 0xB1, CHR 0xE6, CHR 0x95, CHR 0x97]"

definition installSignalHandlers :: "startup \<Rightarrow> string option" where
  "installSignalHandlers y = (case su_sigint y of
     Some e \<Rightarrow> Some (''sigaction(SIGINT) failed: '' @ e)
   | None \<Rightarrow> (case su_sigpipe y of
       Some e \<Rightarrow> Some (''sigaction(SIGPIPE) failed: '' @ e)
     | None \<Rightarrow> None))"

definition setNonBlocking :: "bool \<Rightarrow> string option" where
  "setNonBlocking ok = (if \<not> ok then Some ''fcntl(O_NONBLOCK) failed'' else None)"

text \<open>\<open>htons(port)\<close> keeps the low 16 bits of the \<open>int\<close>.\<close>

definition Server_ctor :: "(addr list \<Rightarrow> addr) \<Rightarrow> startup \<Rightarrow> int \<Rightarrow> string \<Rightarrow> (string + server) \<times> int list" where
  "Server_ctor p y port pw = (case installSignalHandlers y of
     Some e \<Rightarrow> (Inl e, [])
   | None \<Rightarrow> (let listenFd = su_socket y in
      if listenFd < 0 then (Inl ''socket() failed'', [])
      else (case su_setsockopt y of
        Some e \<Rightarrow> (Inl (''setsockopt(SO_REUSEADDR) failed: '' @ e), [listenFd])
      | None \<Rightarrow> (case setNonBlocking (su_fcntl y) of
          Some e \<Rightarrow> (Inl e, [])
        | None \<Rightarrow> (case su_bind y (port mod 65536) of
            Some e \<Rightarrow> (Inl (''bind() '' @ failed_utf8 @ '': '' @ e), [listenFd])
          | None \<Rightarrow>
              if \<not> su_listen y then (Inl (''listen() '' @ failed_utf8), [listenFd])
              else (Inr (new_Server p listenFd pw), []))))))"

text \<open>\<open>main\<close> (\<open>src/src/main.cpp\<close>): the line it writes to standard error and its exit
  code, or that it is still serving when the turns are used up. The server is destroyed on both ways
  out of the \<open>try\<close> block. Without even a program name the usage message dereferences a null pointer.\<close>

datatype main_result = Exits string int | Serving server

definition server_main ::
  "(addr list \<Rightarrow> addr) \<Rightarrow> startup \<Rightarrow> io_env list \<Rightarrow> string list \<Rightarrow> main_result option" where
  "server_main p y envs argv =
     (if length argv \<noteq> 3
      then (case argv of [] \<Rightarrow> None | prog # _ \<Rightarrow> Some (Exits (''Usage: '' @ prog @ '' <port> <password>'') 1))
      else (let (port, rest, _) = strtol10 (c_str (argv ! 1)) in
        if rest \<noteq> [] \<or> port \<le> 0 \<or> 65535 < port
        then Some (Exits (''Error: invalid port '' @ [CHR 0x27] @ argv ! 1 @ [CHR 0x27]) 1)
        else (case fst (Server_ctor p y port (argv ! 2)) of
          Inl e \<Rightarrow> Some (Exits (''Fatal: '' @ e) 1)
        | Inr v \<Rightarrow> do {
            r \<leftarrow> run envs v;
            case r of
              Thrown e v1 \<Rightarrow> do { w \<leftarrow> closeAllFds v1; Some (Exits (''Fatal: '' @ e) 1) }
            | Returned v1 \<Rightarrow> do { w \<leftarrow> closeAllFds v1; Some (Exits [] 0) }
            | Running v1 \<Rightarrow> Some (Serving v1)
          })))"

lemma Server_ctor_server:
  "fst (Server_ctor p y port pw) = Inr v \<longleftrightarrow>
     su_sigint y = None \<and> su_sigpipe y = None \<and> 0 \<le> su_socket y \<and> su_setsockopt y = None
     \<and> su_fcntl y \<and> su_bind y (port mod 65536) = None \<and> su_listen y \<and> v = new_Server p (su_socket y) pw"
  by (auto simp: Server_ctor_def installSignalHandlers_def setNonBlocking_def Let_def split: option.splits)

text \<open>C22: a constructor that throws has closed the listening socket it opened, except when
  \<open>fcntl\<close> fails: that exception leaves the socket open and unowned.\<close>

theorem Server_ctor_closes:
  assumes "fst (Server_ctor p y port pw) = Inl e" "su_sigint y = None" "su_sigpipe y = None" "0 \<le> su_socket y"
  shows "snd (Server_ctor p y port pw) =
    (if su_setsockopt y = None \<and> \<not> su_fcntl y then [] else [su_socket y])"
  using assms
  by (auto simp: Server_ctor_def installSignalHandlers_def setNonBlocking_def Let_def split: option.splits if_splits)

definition startup_fcntl :: startup where
  "startup_fcntl = \<lparr>su_sigint = None, su_sigpipe = None, su_socket = 3, su_setsockopt = None,
     su_fcntl = False, su_bind = (\<lambda>_. None), su_listen = True\<rparr>"

theorem Server_ctor_closes_witness:
  "snd (Server_ctor (\<lambda>_. 1) startup_fcntl 6667 ''pw'') = []
   \<and> snd (Server_ctor (\<lambda>_. 1) (startup_fcntl\<lparr>su_fcntl := True, su_listen := False\<rparr>) 6667 ''pw'') = [3]"
  using Server_ctor_closes [of "\<lambda>_. 1" startup_fcntl 6667 "''pw''" "''fcntl(O_NONBLOCK) failed''"]
    Server_ctor_closes [of "\<lambda>_. 1" "startup_fcntl\<lparr>su_fcntl := True, su_listen := False\<rparr>" 6667 "''pw''"
      "''listen() '' @ failed_utf8"]
  by (simp add: startup_fcntl_def Server_ctor_def installSignalHandlers_def setNonBlocking_def)

end
