(* ===== verification/CMemory.thy ===== *)
theory CMemory
  imports Prelude
begin

text \<open>
  Memory for the C part of the repository, and the byte functions of \<open>libft\<close>
  (\<open>src/bircd/libft/ft_mem*.c\<close>, \<open>ft_bzero.c\<close>, \<open>ft_is*.c\<close>, \<open>ft_to*.c\<close>).

  Memory is a list of objects, each a list of bytes; a pointer is an object and an offset into it.
  Reading or writing outside an object is undefined behaviour, \<open>None\<close>. Which memory
  \<open>malloc\<close> hands out is decided by a parameter \<open>alloc\<close>: for the number of objects there
  are and the requested size, the contents of the new object, or \<open>None\<close> for a null pointer.
  An object without bytes is one that has been freed; no caller asks for zero bytes. A \<open>while\<close> loop over memory is a
  recursive function of the option monad, where not returning is \<open>None\<close> as well.
\<close>

section \<open>Objects and pointers\<close>

type_synonym cmem = "char list list"
type_synonym ptr = "nat \<times> nat"

definition padd :: "ptr \<Rightarrow> nat \<Rightarrow> ptr" where
  "padd p k = (fst p, snd p + k)"

definition load :: "cmem \<Rightarrow> ptr \<Rightarrow> char option" where
  "load m p = (if fst p < length m \<and> snd p < length (m ! fst p) then Some (m ! fst p ! snd p) else None)"

definition store :: "ptr \<Rightarrow> char \<Rightarrow> cmem \<Rightarrow> cmem option" where
  "store p c m = (if fst p < length m \<and> snd p < length (m ! fst p)
     then Some (m[fst p := (m ! fst p)[snd p := c]]) else None)"

text \<open>The order of pointers: offsets within an object, some fixed order of objects otherwise.\<close>

definition ptr_less :: "ptr \<Rightarrow> ptr \<Rightarrow> bool" where
  "ptr_less p q \<longleftrightarrow> fst p < fst q \<or> (fst p = fst q \<and> snd p < snd q)"

type_synonym allocator = "nat \<Rightarrow> nat \<Rightarrow> char list option"

text \<open>What \<open>malloc\<close> promises: an object of the requested size.\<close>

definition malloc_spec :: "allocator \<Rightarrow> bool" where
  "malloc_spec alloc \<longleftrightarrow> (\<forall>k n b. alloc k n = Some b \<longrightarrow> length b = n)"

definition malloc :: "allocator \<Rightarrow> nat \<Rightarrow> cmem \<Rightarrow> ptr option \<times> cmem" where
  "malloc alloc n m = 
     (case alloc (length m) n of None \<Rightarrow> (None, m) | Some b \<Rightarrow> (Some (length m, 0), m @ [b]))"

definition free :: "ptr \<Rightarrow> cmem \<Rightarrow> cmem option" where
  "free p m = (if fst p < length m \<and> snd p = 0 \<and> m ! fst p \<noteq> [] then Some (m[fst p := []]) else None)"

section \<open>Character classes\<close>

definition ft_isdigit :: "int \<Rightarrow> bool" where
  "ft_isdigit c \<longleftrightarrow> 48 \<le> c \<and> c \<le> 57"

definition ft_isalpha :: "int \<Rightarrow> bool" where
  "ft_isalpha c \<longleftrightarrow> (97 \<le> c \<and> c \<le> 122) \<or> (65 \<le> c \<and> c \<le> 90)"

definition ft_isalnum :: "int \<Rightarrow> bool" where
  "ft_isalnum c \<longleftrightarrow> (65 \<le> c \<and> c \<le> 90) \<or> (97 \<le> c \<and> c \<le> 122) \<or> ft_isdigit c"

definition ft_isascii :: "int \<Rightarrow> bool" where
  "ft_isascii c \<longleftrightarrow> 0 \<le> c \<and> c \<le> 127"

definition ft_isprint :: "int \<Rightarrow> bool" where
  "ft_isprint c \<longleftrightarrow> 32 \<le> c \<and> c \<le> 126"

definition ft_tolower :: "int \<Rightarrow> int" where
  "ft_tolower c = c - (if 65 \<le> c \<and> c \<le> 90 then 1 else 0) * (65 - 97)"

definition ft_toupper :: "int \<Rightarrow> int" where
  "ft_toupper c = c + (if 97 \<le> c \<and> c \<le> 122 then 1 else 0) * (65 - 97)"

lemma case_round_trip:
  "65 \<le> c \<and> c \<le> 90 \<Longrightarrow> ft_toupper (ft_tolower c) = c"
  "97 \<le> c \<and> c \<le> 122 \<Longrightarrow> ft_tolower (ft_toupper c) = c"
  "ft_isalpha (ft_tolower c) = ft_isalpha c" "ft_isalpha (ft_toupper c) = ft_isalpha c"
  by (auto simp: ft_toupper_def ft_tolower_def ft_isalpha_def)

section \<open>Bytes\<close>

primrec memset_loop :: "nat \<Rightarrow> ptr \<Rightarrow> char \<Rightarrow> cmem \<Rightarrow> cmem option" where
  "memset_loop 0 p c m = Some m"
| "memset_loop (Suc len) p c m = do { m1 \<leftarrow> store p c m; memset_loop len (padd p 1) c m1 }"

definition ft_memset :: "ptr \<Rightarrow> int \<Rightarrow> nat \<Rightarrow> cmem \<Rightarrow> cmem option" where
  "ft_memset dst c len m = memset_loop len dst (char_of_int c) m"

definition ft_bzero :: "ptr \<Rightarrow> nat \<Rightarrow> cmem \<Rightarrow> cmem option" where
  "ft_bzero s n m = ft_memset s 0 n m"

primrec memcpy_loop :: "nat \<Rightarrow> ptr \<Rightarrow> ptr \<Rightarrow> cmem \<Rightarrow> cmem option" where
  "memcpy_loop 0 dst src m = Some m"
| "memcpy_loop (Suc n) dst src m = do {
     c \<leftarrow> load m src;
     m1 \<leftarrow> store dst c m;
     memcpy_loop n (padd dst 1) (padd src 1) m1
   }"

definition ft_memcpy :: "ptr \<Rightarrow> ptr \<Rightarrow> nat \<Rightarrow> cmem \<Rightarrow> cmem option" where
  "ft_memcpy dst src n m = (if dst = src then Some m else memcpy_loop n dst src m)"

text \<open>The pointers start behind the regions and are decremented before each copy.\<close>

primrec backword_memcpy :: "nat \<Rightarrow> ptr \<Rightarrow> ptr \<Rightarrow> cmem \<Rightarrow> cmem option" where
  "backword_memcpy 0 dst src m = Some m"
| "backword_memcpy (Suc len) dst src m = do {
     c \<leftarrow> load m (padd src len);
     m1 \<leftarrow> store (padd dst len) c m;
     backword_memcpy len dst src m1
   }"

text \<open>\<open>ft_memset\<close>, \<open>ft_memcpy\<close> and \<open>ft_memmove\<close> return \<open>dst\<close> on every path; the definitions give
  the memory only.\<close>

definition ft_memmove :: "ptr \<Rightarrow> ptr \<Rightarrow> nat \<Rightarrow> cmem \<Rightarrow> cmem option" where
  "ft_memmove dst src len m =
     (if ptr_less dst src then ft_memcpy dst src len m
      else if ptr_less src dst then backword_memcpy len dst src m
      else Some m)"

primrec memchr_loop :: "nat \<Rightarrow> ptr \<Rightarrow> char \<Rightarrow> cmem \<Rightarrow> ptr option option" where
  "memchr_loop 0 s c m = Some None"
| "memchr_loop (Suc n) s c m = do {
     d \<leftarrow> load m s;
     if d = c then Some (Some s) else memchr_loop n (padd s 1) c m
   }"

definition ft_memchr :: "ptr \<Rightarrow> int \<Rightarrow> nat \<Rightarrow> cmem \<Rightarrow> ptr option option" where
  "ft_memchr s c n m = memchr_loop n s (char_of_int c) m"

primrec ft_memcmp :: "ptr \<Rightarrow> ptr \<Rightarrow> nat \<Rightarrow> cmem \<Rightarrow> int option" where
  "ft_memcmp s1 s2 0 m = Some 0"
| "ft_memcmp s1 s2 (Suc n) m = do {
     c1 \<leftarrow> load m s1;
     c2 \<leftarrow> load m s2;
     if c1 \<noteq> c2 then Some (uchar c1 - uchar c2) else ft_memcmp (padd s1 1) (padd s2 1) n m
   }"

definition SIZE_T_MAX :: nat where "SIZE_T_MAX = 2 ^ 64 - 1"

definition ft_calloc :: "allocator \<Rightarrow> nat \<Rightarrow> nat \<Rightarrow> cmem \<Rightarrow> (ptr option \<times> cmem) option" where
  "ft_calloc alloc count esize m =
     (let (count, esize) = (if count = 0 \<or> esize = 0 then (1, 1) else (count, esize)) in
      if SIZE_T_MAX div esize < count then Some (None, m)
      else case malloc alloc (count * esize) m of
          (None, m1) \<Rightarrow> Some (None, m1)
        | (Some p, m1) \<Rightarrow> do { m2 \<leftarrow> ft_bzero p (count * esize) m1; Some (Some p, m2) })"

section \<open>Views\<close>

text \<open>The bytes of an object from a pointer on.\<close>

definition bytes_from :: "cmem \<Rightarrow> ptr \<Rightarrow> char list" where
  "bytes_from m p = drop (snd p) (m ! fst p)"

lemma load_store_simps [simp]:
  "b < length m \<Longrightarrow> k < length (m ! b) \<Longrightarrow> load m (b, k) = Some (m ! b ! k)"
  "b < length m \<Longrightarrow> k < length (m ! b) \<Longrightarrow> store (b, k) c m = Some (m[b := (m ! b)[k := c]])"
  "padd (b, k) i = (b, k + i)"
  by (simp_all add: load_def store_def padd_def)

lemma memset_loop_run:
  "b < length m \<Longrightarrow> k + n \<le> length (m ! b) \<Longrightarrow>
     memset_loop n (b, k) c m = Some (m[b := take k (m ! b) @ replicate n c @ drop (k + n) (m ! b)])"
proof (induction n arbitrary: k m)
  case (Suc n)
  let ?m = "m[b := (m ! b)[k := c]]"
  have "memset_loop (Suc n) (b, k) c m = memset_loop n (b, k + 1) c ?m" using Suc.prems by simp
  also have "\<dots> = Some (?m[b := take (k + 1) (?m ! b) @ replicate n c @ drop (k + 1 + n) (?m ! b)])"
    using Suc.prems by (intro Suc.IH) auto
  also have "take (k + 1) (?m ! b) @ replicate n c @ drop (k + 1 + n) (?m ! b)
      = take k (m ! b) @ replicate (Suc n) c @ drop (k + Suc n) (m ! b)"
    using Suc.prems by (simp add: take_Suc_conv_app_nth)
  finally show ?case by simp
qed simp

text \<open>Copying a region: the source bytes are those of the initial memory.\<close>

definition copied :: "char list \<Rightarrow> nat \<Rightarrow> nat \<Rightarrow> char list \<Rightarrow> char list \<Rightarrow> bool" where
  "copied old d n bytes new \<longleftrightarrow> length new = length old \<and>
     (\<forall>i < length old. new ! i = (if d \<le> i \<and> i < d + n then bytes ! (i - d) else old ! i))"

lemma copied_eq: "copied old d n bytes new \<Longrightarrow> d + n \<le> length old \<Longrightarrow> n \<le> length bytes \<Longrightarrow>
    new = take d old @ take n bytes @ drop (d + n) old"
  by (rule nth_equalityI) (auto simp: copied_def nth_append)

lemma memcpy_forward:
  assumes "b < length m" "d + n \<le> length (m ! b)" "s + n \<le> length (m ! b)" "d < s"
  shows "\<exists>new. memcpy_loop n (b, d) (b, s) m = Some (m[b := new]) \<and> copied (m ! b) d n (drop s (m ! b)) new"
  using assms
proof (induction n arbitrary: d s m)
  case 0
  have "m[b := m ! b] = m" by simp
  then show ?case by (auto simp: copied_def intro!: exI [of _ "m ! b"])
next
  case (Suc n)
  let ?m = "m[b := (m ! b)[d := m ! b ! s]]"
  have "\<exists>new. memcpy_loop n (b, d + 1) (b, s + 1) ?m = Some (?m[b := new])
      \<and> copied (?m ! b) (d + 1) n (drop (s + 1) (?m ! b)) new"
    using Suc.prems by (intro Suc.IH) auto
  then obtain new where new: "memcpy_loop n (b, d + 1) (b, s + 1) ?m = Some (?m[b := new])"
    "copied (?m ! b) (d + 1) n (drop (s + 1) (?m ! b)) new" by blast
  have at: "new ! i = (if Suc d \<le> i \<and> i < Suc d + n then drop (Suc s) ((m ! b)[d := m ! b ! s]) ! (i - Suc d)
      else (m ! b)[d := m ! b ! s] ! i)" if "i < length (m ! b)" for i
    using new(2) that Suc.prems(1) by (simp add: copied_def)
  have "new ! i = (if d \<le> i \<and> i < d + Suc n then drop s (m ! b) ! (i - d) else m ! b ! i)"
    if "i < length (m ! b)" for i
  proof -
    consider "i = d" | "d < i" "i < d + Suc n" | "i < d \<or> d + Suc n \<le> i" by linarith
    then show ?thesis
    proof cases
      case 2
      then have "Suc s + (i - Suc d) = s + (i - d)" by simp
      with 2 at [OF that] Suc.prems show ?thesis by simp
    qed (use at [OF that] that Suc.prems in auto)
  qed
  with new(2) Suc.prems(1) have "copied (m ! b) d (Suc n) (drop s (m ! b)) new" by (simp add: copied_def)
  with new(1) Suc.prems show ?case by (auto intro!: exI [of _ new])
qed

lemma memcpy_backward:
  assumes "b < length m" "d + n \<le> length (m ! b)" "s + n \<le> length (m ! b)" "s < d"
  shows "\<exists>new. backword_memcpy n (b, d) (b, s) m = Some (m[b := new]) \<and> copied (m ! b) d n (drop s (m ! b)) new"
  using assms
proof (induction n arbitrary: m)
  case 0
  have "m[b := m ! b] = m" by simp
  then show ?case by (auto simp: copied_def intro!: exI [of _ "m ! b"])
next
  case (Suc n)
  let ?m = "m[b := (m ! b)[d + n := m ! b ! (s + n)]]"
  have "\<exists>new. backword_memcpy n (b, d) (b, s) ?m = Some (?m[b := new]) \<and> copied (?m ! b) d n (drop s (?m ! b)) new"
    using Suc.prems by (intro Suc.IH) auto
  then obtain new where new: "backword_memcpy n (b, d) (b, s) ?m = Some (?m[b := new])"
    "copied (?m ! b) d n (drop s (?m ! b)) new" by blast
  have at: "new ! i = (if d \<le> i \<and> i < d + n then drop s ((m ! b)[d + n := m ! b ! (s + n)]) ! (i - d)
      else (m ! b)[d + n := m ! b ! (s + n)] ! i)" if "i < length (m ! b)" for i
    using new(2) that Suc.prems(1) by (simp add: copied_def)
  have "new ! i = (if d \<le> i \<and> i < d + Suc n then drop s (m ! b) ! (i - d) else m ! b ! i)"
    if "i < length (m ! b)" for i
  proof -
    consider "i = d + n" | "d \<le> i" "i < d + n" | "i < d \<or> d + Suc n \<le> i" by linarith
    then show ?thesis by cases (use at [OF that] that Suc.prems in auto)
  qed
  with new(2) Suc.prems(1) have "copied (m ! b) d (Suc n) (drop s (m ! b)) new" by (simp add: copied_def)
  with new(1) Suc.prems show ?case by (auto intro!: exI [of _ new])
qed

text \<open>\<open>ft_memmove\<close> within one object: whatever the overlap, the destination holds the old
  source bytes and nothing else changes.\<close>

lemma memmove_same_object:
  assumes "b < length m" "d + n \<le> length (m ! b)" "s + n \<le> length (m ! b)"
  shows "ft_memmove (b, d) (b, s) n m =
    Some (m[b := take d (m ! b) @ take n (drop s (m ! b)) @ drop (d + n) (m ! b)])"
proof (cases d s rule: linorder_cases)
  case less
  from memcpy_forward [OF assms less] obtain new where "memcpy_loop n (b, d) (b, s) m = Some (m[b := new])"
    "copied (m ! b) d n (drop s (m ! b)) new" by blast
  with less assms show ?thesis
    by (auto simp: ft_memmove_def ptr_less_def ft_memcpy_def dest: copied_eq)
next
  case greater
  from memcpy_backward [OF assms greater] obtain new where "backword_memcpy n (b, d) (b, s) m = Some (m[b := new])"
    "copied (m ! b) d n (drop s (m ! b)) new" by blast
  with greater assms show ?thesis
    by (auto simp: ft_memmove_def ptr_less_def dest: copied_eq)
next
  case equal
  have "take d (m ! b) @ take n (drop d (m ! b)) @ drop (d + n) (m ! b) = m ! b"
    by (metis add.commute append_take_drop_id drop_drop)
  then show ?thesis using equal by (simp add: ft_memmove_def ptr_less_def)
qed

text \<open>Copying between different objects.\<close>

lemma memcpy_other_object:
  assumes "b < length m" "d + n \<le> length (m ! b)" "c < length m" "s + n \<le> length (m ! c)" "b \<noteq> c"
  shows "memcpy_loop n (b, d) (c, s) m =
    Some (m[b := take d (m ! b) @ take n (drop s (m ! c)) @ drop (d + n) (m ! b)])"
  using assms
proof (induction n arbitrary: d s m)
  case (Suc n)
  let ?m = "m[b := (m ! b)[d := m ! c ! s]]"
  have "memcpy_loop (Suc n) (b, d) (c, s) m = memcpy_loop n (b, d + 1) (c, s + 1) ?m"
    using Suc.prems by simp
  also have "\<dots> = Some (?m[b := take (d + 1) (?m ! b) @ take n (drop (s + 1) (?m ! c)) @ drop (d + 1 + n) (?m ! b)])"
    using Suc.prems by (intro Suc.IH) auto
  also have "take (d + 1) (?m ! b) @ take n (drop (s + 1) (?m ! c)) @ drop (d + 1 + n) (?m ! b)
      = take d (m ! b) @ take (Suc n) (drop s (m ! c)) @ drop (d + Suc n) (m ! b)"
  proof -
    have "drop s (m ! c) = m ! c ! s # drop (Suc s) (m ! c)"
      using Suc.prems by (simp add: Cons_nth_drop_Suc)
    with Suc.prems show ?thesis by (simp add: take_Suc_conv_app_nth)
  qed
  finally show ?case by simp
qed simp

section \<open>Properties\<close>

text \<open>C32: \<open>ft_memmove\<close> within one object moves the bytes as if through a copy, however source and
  destination overlap, and reads and writes only inside the object.\<close>

theorem memmove_overlap:
  assumes "b < length m" "d + n \<le> length (m ! b)" "s + n \<le> length (m ! b)"
  shows "ft_memmove (b, d) (b, s) n m =
    Some (m[b := take d (m ! b) @ take n (drop s (m ! b)) @ drop (d + n) (m ! b)])"
  by (rule memmove_same_object [OF assms])

theorem memmove_overlap_witness: "ft_memmove (0, 2) (0, 0) 3 [''abcdef''] = Some [''ababcf'']"
  using memmove_overlap [of 0 "[''abcdef'']" 2 3 0] by simp

end
