(* ===== verification/LibftStr.thy ===== *)
theory LibftStr
  imports CMemory
begin

text \<open>
  The string functions of \<open>libft\<close> (\<open>src/bircd/libft/ft_str*.c\<close>, \<open>ft_substr.c\<close>),
  over the memory of \<open>CMemory\<close>. \<open>c_string m p s\<close> says that the bytes at
  \<open>p\<close> are \<open>s\<close> and its terminator; each function is then characterised by a function on
  \<open>s\<close>. The functions that allocate are shown to leave exactly one new object, holding the
  promised string and nothing more.
\<close>

section \<open>Reading strings\<close>

partial_function (option) strlen_loop :: "cmem \<Rightarrow> ptr \<Rightarrow> nat \<Rightarrow> nat option" where
  "strlen_loop m s len = do {
     c \<leftarrow> load m (padd s len);
     if c \<noteq> NUL then strlen_loop m s (len + 1) else Some len
   }"

definition ft_strlen :: "ptr \<Rightarrow> cmem \<Rightarrow> nat option" where
  "ft_strlen s m = strlen_loop m s 0"

partial_function (option) strchr_loop :: "cmem \<Rightarrow> ptr \<Rightarrow> char \<Rightarrow> ptr option option" where
  "strchr_loop m s c = do {
     d \<leftarrow> load m s;
     if d = c then Some (Some s)
     else if d = NUL then Some None
     else strchr_loop m (padd s 1) c
   }"

definition ft_strchr :: "ptr \<Rightarrow> int \<Rightarrow> cmem \<Rightarrow> ptr option option" where
  "ft_strchr s c m = strchr_loop m s (char_of_int c)"

text \<open>The pointer \<open>s_last\<close> is \<open>s\<close> and an offset that counts down to 0.\<close>

fun strrchr_loop :: "cmem \<Rightarrow> ptr \<Rightarrow> nat \<Rightarrow> char \<Rightarrow> ptr option option" where
  "strrchr_loop m s k c = do {
     d \<leftarrow> load m (padd s k);
     if d = c then Some (Some (padd s k))
     else (case k of 0 \<Rightarrow> Some None | Suc j \<Rightarrow> strrchr_loop m s j c)
   }"

declare strrchr_loop.simps [simp del]

definition ft_strrchr :: "ptr \<Rightarrow> int \<Rightarrow> cmem \<Rightarrow> ptr option option" where
  "ft_strrchr s c m = do { n \<leftarrow> ft_strlen s m; strrchr_loop m s n (char_of_int c) }"

partial_function (option) strncmp_loop :: "cmem \<Rightarrow> ptr \<Rightarrow> ptr \<Rightarrow> nat \<Rightarrow> nat \<Rightarrow> int option" where
  "strncmp_loop m s1 s2 n i = do {
     more \<leftarrow> (if i + 1 < n then do {
         a \<leftarrow> load m (padd s1 i);
         if a = NUL then Some False
         else do { b \<leftarrow> load m (padd s2 i); Some (b \<noteq> NUL \<and> a = b) }
       } else Some False);
     if more then strncmp_loop m s1 s2 n (i + 1)
     else do {
       a \<leftarrow> load m (padd s1 i);
       b \<leftarrow> load m (padd s2 i);
       Some (uchar a - uchar b)
     }
   }"

definition ft_strncmp :: "ptr \<Rightarrow> ptr \<Rightarrow> nat \<Rightarrow> cmem \<Rightarrow> int option" where
  "ft_strncmp s1 s2 n m = (if n = 0 then Some 0 else strncmp_loop m s1 s2 n 0)"

primrec strnstr_loop :: "nat \<Rightarrow> ptr \<Rightarrow> ptr \<Rightarrow> nat \<Rightarrow> cmem \<Rightarrow> ptr option option" where
  "strnstr_loop 0 haystack needle needle_len m = Some None"
| "strnstr_loop (Suc len) haystack needle needle_len m = do {
     c \<leftarrow> load m haystack;
     if c = NUL then Some None
     else if Suc len < needle_len then Some None
     else do {
       r \<leftarrow> ft_strncmp haystack needle needle_len m;
       if r = 0 then Some (Some haystack)
       else strnstr_loop len (padd haystack 1) needle needle_len m
     }
   }"

definition ft_strnstr :: "ptr \<Rightarrow> ptr \<Rightarrow> nat \<Rightarrow> cmem \<Rightarrow> ptr option option" where
  "ft_strnstr haystack needle len m = do {
     needle_len \<leftarrow> ft_strlen needle m;
     c \<leftarrow> load m needle;
     if c = NUL then Some (Some haystack) else strnstr_loop len haystack needle needle_len m
   }"

section \<open>Copying strings\<close>

partial_function (option) strlcpy_loop ::
    "ptr \<Rightarrow> ptr \<Rightarrow> nat \<Rightarrow> nat \<Rightarrow> cmem \<Rightarrow> (nat \<times> cmem) option" where
  "strlcpy_loop dst src s_len dstsize m = do {
     c \<leftarrow> load m src;
     if c \<noteq> NUL then
       if s_len + 1 < dstsize
       then do { m1 \<leftarrow> store dst c m; strlcpy_loop (padd dst 1) (padd src 1) (s_len + 1) dstsize m1 }
       else strlcpy_loop dst (padd src 1) (s_len + 1) dstsize m
     else do { m1 \<leftarrow> store dst NUL m; Some (s_len, m1) }
   }"

definition ft_strlcpy :: "ptr \<Rightarrow> ptr \<Rightarrow> nat \<Rightarrow> cmem \<Rightarrow> (nat \<times> cmem) option" where
  "ft_strlcpy dst src dstsize m =
     (if dstsize = 0 then do { n \<leftarrow> ft_strlen src m; Some (n, m) }
      else strlcpy_loop dst src 0 dstsize m)"

partial_function (option) strlcat_scan :: "cmem \<Rightarrow> ptr \<Rightarrow> nat \<Rightarrow> nat \<Rightarrow> nat option" where
  "strlcat_scan m dst dstsize i =
     (if i < dstsize then do {
        c \<leftarrow> load m (padd dst i);
        if c \<noteq> NUL then strlcat_scan m dst dstsize (i + 1) else Some i
      } else Some i)"

definition ft_strlcat :: "ptr \<Rightarrow> ptr \<Rightarrow> nat \<Rightarrow> cmem \<Rightarrow> (nat \<times> cmem) option" where
  "ft_strlcat dst src dstsize m = do {
     i \<leftarrow> strlcat_scan m dst dstsize 0;
     (n, m1) \<leftarrow> ft_strlcpy (padd dst i) src (dstsize - i) m;
     Some (i + n, m1)
   }"

section \<open>New strings\<close>

definition ft_strdup :: "allocator \<Rightarrow> ptr \<Rightarrow> cmem \<Rightarrow> (ptr option \<times> cmem) option" where
  "ft_strdup alloc src m = do {
     n \<leftarrow> ft_strlen src m;
     case malloc alloc (n + 1) m of
       (None, m1) \<Rightarrow> Some (None, m1)
     | (Some p, m1) \<Rightarrow> do { (_, m2) \<leftarrow> ft_strlcpy p src (n + 1) m1; Some (Some p, m2) }
   }"

definition ft_min :: "nat \<Rightarrow> nat \<Rightarrow> nat" where
  "ft_min x y = (if x < y then 1 else 0) * x + (if y \<le> x then 1 else 0) * y"

definition ft_substr :: "allocator \<Rightarrow> ptr option \<Rightarrow> nat \<Rightarrow> nat \<Rightarrow> cmem \<Rightarrow> (ptr option \<times> cmem) option" where
  "ft_substr alloc s start len m = (case s of
     None \<Rightarrow> Some (None, m)
   | Some s \<Rightarrow> do {
       n \<leftarrow> ft_strlen s m;
       let substr_len = ft_min (if start < n then n - start else 0) len;
       (r, m1) \<leftarrow> ft_calloc alloc (substr_len + 1) 1 m;
       case r of
         None \<Rightarrow> Some (None, m1)
       | Some sub \<Rightarrow> do { (_, m2) \<leftarrow> ft_strlcpy sub (padd s start) (substr_len + 1) m1; Some (Some sub, m2) }
     })"

definition ft_strjoin :: "allocator \<Rightarrow> ptr option \<Rightarrow> ptr option \<Rightarrow> cmem \<Rightarrow> (ptr option \<times> cmem) option" where
  "ft_strjoin alloc s1 s2 m = (case (s1, s2) of
     (Some s1, Some s2) \<Rightarrow> do {
       n1 \<leftarrow> ft_strlen s1 m;
       n2 \<leftarrow> ft_strlen s2 m;
       (r, m1) \<leftarrow> ft_calloc alloc (n1 + n2 + 1) 1 m;
       case r of
         None \<Rightarrow> Some (None, m1)
       | Some joined \<Rightarrow> do {
           (_, m2) \<leftarrow> ft_strlcpy joined s1 (n1 + n2 + 1) m1;
           (_, m3) \<leftarrow> ft_strlcat joined s2 (n1 + n2 + 1) m2;
           Some (Some joined, m3)
         }
     }
   | _ \<Rightarrow> Some (None, m))"

partial_function (option) strtrim_loop ::
    "cmem \<Rightarrow> ptr \<Rightarrow> ptr \<Rightarrow> ptr option \<Rightarrow> ptr \<Rightarrow> (ptr \<times> ptr option \<times> ptr) option" where
  "strtrim_loop m trimset p start end = do {
     c \<leftarrow> load m p;
     if c \<noteq> NUL then do {
       r \<leftarrow> ft_strchr trimset (schar c) m;
       strtrim_loop m trimset (padd p 1)
         (if start = None \<and> r = None then Some p else start) (if r = None then p else end)
     }
     else Some (p, start, end)
   }"

definition ft_strtrim :: "allocator \<Rightarrow> ptr option \<Rightarrow> ptr option \<Rightarrow> cmem \<Rightarrow> (ptr option \<times> cmem) option" where
  "ft_strtrim alloc s1 trimset m = (case s1 of
     None \<Rightarrow> Some (None, m)
   | Some s1 \<Rightarrow> (case trimset of
       None \<Rightarrow> ft_strdup alloc s1 m
     | Some trimset \<Rightarrow> do {
         (p, start, end) \<leftarrow> strtrim_loop m trimset s1 None s1;
         let (start, end) = (case start of None \<Rightarrow> (p, p) | Some b \<Rightarrow> (b, end));
         ft_substr alloc (Some start) 0 (snd end + 1 - snd start) m
       }))"

text \<open>The callbacks of \<open>ft_strmapi\<close> and \<open>ft_striteri\<close> are parameters; the second may write
  to memory. The index is converted to \<open>unsigned int\<close>.\<close>

partial_function (option) strmapi_loop ::
    "(nat \<Rightarrow> char \<Rightarrow> char) \<Rightarrow> ptr \<Rightarrow> nat \<Rightarrow> cmem \<Rightarrow> cmem option" where
  "strmapi_loop f p i m = do {
     c \<leftarrow> load m (padd p i);
     if c \<noteq> NUL
     then do { m1 \<leftarrow> store (padd p i) (f (i mod 2 ^ 32) c) m; strmapi_loop f p (i + 1) m1 }
     else Some m
   }"

definition ft_strmapi :: "allocator \<Rightarrow> ptr option \<Rightarrow> (nat \<Rightarrow> char \<Rightarrow> char) option \<Rightarrow> cmem
    \<Rightarrow> (ptr option \<times> cmem) option" where
  "ft_strmapi alloc s f m = (case (s, f) of
     (Some s, Some f) \<Rightarrow> do {
       (r, m1) \<leftarrow> ft_strdup alloc s m;
       case r of
         None \<Rightarrow> Some (None, m1)
       | Some p \<Rightarrow> do { m2 \<leftarrow> strmapi_loop f p 0 m1; Some (Some p, m2) }
     }
   | _ \<Rightarrow> Some (None, m))"

partial_function (option) striteri_loop ::
    "(nat \<Rightarrow> ptr \<Rightarrow> cmem \<Rightarrow> cmem option) \<Rightarrow> ptr \<Rightarrow> nat \<Rightarrow> cmem \<Rightarrow> cmem option" where
  "striteri_loop f p i m = do {
     c \<leftarrow> load m (padd p i);
     if c \<noteq> NUL
     then do { m1 \<leftarrow> f (i mod 2 ^ 32) (padd p i) m; striteri_loop f p (i + 1) m1 }
     else Some m
   }"

definition ft_striteri :: "ptr option \<Rightarrow> (nat \<Rightarrow> ptr \<Rightarrow> cmem \<Rightarrow> cmem option) option \<Rightarrow> cmem \<Rightarrow> cmem option" where
  "ft_striteri s f m = (case (s, f) of
     (Some s, Some f) \<Rightarrow> striteri_loop f s 0 m
   | _ \<Rightarrow> Some m)"

section \<open>Strings in memory\<close>

primrec c_string :: "cmem \<Rightarrow> ptr \<Rightarrow> string \<Rightarrow> bool" where
  "c_string m p [] \<longleftrightarrow> load m p = Some NUL"
| "c_string m p (c # s) \<longleftrightarrow> load m p = Some c \<and> c \<noteq> NUL \<and> c_string m (padd p 1) s"

lemma padd_padd [simp]: "padd (padd p i) j = padd p (i + j)" "padd p 0 = p" "fst (padd p i) = fst p"
    "snd (padd p i) = snd p + i"
  by (simp_all add: padd_def)

lemma load_append [simp]: "load m p = Some c \<Longrightarrow> load (m @ ms) p = Some c"
  by (auto simp: load_def nth_append split: if_splits)

lemma c_string_append [simp]: "c_string m p s \<Longrightarrow> c_string (m @ ms) p s"
  by (induction s arbitrary: p) auto

lemma c_string_no_NUL: "c_string m p s \<Longrightarrow> NUL \<notin> set s"
  by (induction s arbitrary: p) auto

lemma c_string_suffix: "c_string m p s \<Longrightarrow> k \<le> length s \<Longrightarrow> c_string m (padd p k) (drop k s)"
proof (induction s arbitrary: p k)
  case (Cons c s)
  then show ?case using Cons.IH [of "padd p 1" "k - 1"] by (cases k) auto
qed simp

lemma load_c_string: "c_string m p s \<Longrightarrow> k \<le> length s \<Longrightarrow> load m (padd p k) = Some ((s @ [NUL]) ! k)"
proof (induction s arbitrary: p k)
  case (Cons c s)
  then show ?case using Cons.IH [of "padd p 1" "k - 1"] by (cases k) auto
qed simp

lemma c_string_object: "c_string m p s \<Longrightarrow> fst p < length m \<and> snd p + length s < length (m ! fst p)"
proof -
  assume "c_string m p s"
  from load_c_string [OF this, of "length s"] show ?thesis by (simp add: load_def split: if_splits)
qed

lemma c_string_bytes: "b < length m \<Longrightarrow> m ! b = s @ NUL # rest \<Longrightarrow> NUL \<notin> set s \<Longrightarrow> c_string m (b, 0) s"
proof -
  have "c_string m (b, length pre) s"
    if "b < length m" "m ! b = pre @ s @ NUL # rest" "NUL \<notin> set s" for pre
    using that
  proof (induction s arbitrary: pre)
    case (Cons c s)
    from Cons.prems Cons.IH [of "pre @ [c]"] show ?case by (auto simp: load_def)
  qed (simp add: load_def)
  from this [of "[]"] show "b < length m \<Longrightarrow> m ! b = s @ NUL # rest \<Longrightarrow> NUL \<notin> set s \<Longrightarrow> c_string m (b, 0) s"
    by simp
qed

text \<open>A string only depends on its own object.\<close>

lemma load_other: "b \<noteq> fst p \<Longrightarrow> load (m[b := x]) p = load m p"
  by (simp add: load_def)

lemma c_string_other: "b \<noteq> fst p \<Longrightarrow> c_string (m[b := x]) p s = c_string m p s"
  by (induction s arbitrary: p) (simp_all add: load_other)

lemma char_of_int_schar [simp]: "char_of_int (schar c) = c"
proof -
  have "schar c mod 256 = uchar c mod 256" by (simp add: schar_def)
  then show ?thesis by (metis char_of_int_def char_of_int_uchar)
qed

section \<open>Searching and comparing\<close>

lemma strlen_run: "c_string m (padd p k) s \<Longrightarrow> strlen_loop m p k = Some (k + length s)"
  by (induction s arbitrary: k; subst strlen_loop.simps) simp_all

lemma ft_strlen_string [simp]: "c_string m p s \<Longrightarrow> ft_strlen p m = Some (length s)"
  using strlen_run [of m p 0 s] by (simp add: ft_strlen_def)

lemma strchr_run:
  "c_string m p s \<Longrightarrow> strchr_loop m p c =
     Some (let k = length (takeWhile (\<lambda>d. d \<noteq> c) (s @ [NUL])) in if k \<le> length s then Some (padd p k) else None)"
proof (induction s arbitrary: p)
  case (Cons d s)
  then show ?case by (subst strchr_loop.simps) (auto simp: Let_def)
qed (subst strchr_loop.simps; auto)

lemma ft_strchr_string:
  "c_string m p s \<Longrightarrow> ft_strchr p (schar c) m =
     Some (let k = length (takeWhile (\<lambda>d. d \<noteq> c) (s @ [NUL])) in if k \<le> length s then Some (padd p k) else None)"
  by (simp add: ft_strchr_def strchr_run)

lemma ft_strchr_None:
  assumes "c_string m p s" "c \<noteq> NUL"
  shows "\<exists>r. ft_strchr p (schar c) m = Some r \<and> (r = None \<longleftrightarrow> c \<notin> set s)"
proof (cases "c \<in> set s")
  case True
  then have "length (takeWhile (\<lambda>d. d \<noteq> c) s) < length s"
    by (metis (mono_tags, lifting) length_takeWhile_le nat_less_le set_takeWhileD takeWhile_eq_take take_all_iff)
  with True assms show ?thesis by (simp add: ft_strchr_string takeWhile_append)
next
  case False
  with assms show ?thesis by (auto simp: ft_strchr_string takeWhile_append Let_def takeWhile_eq_all_conv [THEN iffD2])
qed

lemma strrchr_run:
  "c_string m p s \<Longrightarrow> k \<le> length s \<Longrightarrow> strrchr_loop m p k c =
     Some (if c \<in> set (take (k + 1) (s @ [NUL]))
       then Some (padd p (GREATEST j. j \<le> k \<and> (s @ [NUL]) ! j = c)) else None)"
proof (induction k)
  case 0
  then have at: "load m p = Some ((s @ [NUL]) ! 0)" using load_c_string [of m p s 0] by simp
  have "take (0 + 1) (s @ [NUL]) = [(s @ [NUL]) ! 0]" by (cases s) simp_all
  moreover have "(GREATEST j. j \<le> (0::nat) \<and> (s @ [NUL]) ! j = c) = 0" if "(s @ [NUL]) ! 0 = c"
    by (intro Greatest_equality) (use that in auto)
  ultimately show ?case using at by (subst strrchr_loop.simps) auto
next
  case (Suc k)
  let ?t = "s @ [NUL]"
  have at: "load m (padd p (Suc k)) = Some (?t ! Suc k)" using load_c_string Suc.prems by blast
  have all: "set (take (Suc k + 1) ?t) = insert (?t ! Suc k) (set (take (k + 1) ?t))"
    using Suc.prems by (subst Suc_eq_plus1 [symmetric], subst take_Suc_conv_app_nth) auto
  show ?case
  proof (cases "?t ! Suc k = c")
    case True
    then have "(GREATEST j. j \<le> Suc k \<and> ?t ! j = c) = Suc k" by (intro Greatest_equality) auto
    with True at all show ?thesis by (subst strrchr_loop.simps) simp
  next
    case False
    then have "(\<lambda>j. j \<le> Suc k \<and> ?t ! j = c) = (\<lambda>j. j \<le> k \<and> ?t ! j = c)" by (auto simp: le_Suc_eq fun_eq_iff)
    with False at all Suc show ?thesis by (subst strrchr_loop.simps) simp
  qed
qed

text \<open>Comparing is comparing the strings with their terminators, cut to \<open>n\<close> bytes.\<close>

fun strncmp_spec :: "nat \<Rightarrow> string \<Rightarrow> string \<Rightarrow> int" where
  "strncmp_spec (Suc n) (a # s) (b # t) =
     (if a = b \<and> a \<noteq> NUL then strncmp_spec n s t else uchar a - uchar b)"
| "strncmp_spec _ _ _ = 0"

lemma strncmp_run:
  "c_string m (padd p i) s \<Longrightarrow> c_string m (padd q i) t \<Longrightarrow>
     strncmp_loop m p q (Suc (n + i)) i = Some (strncmp_spec (Suc n) (s @ [NUL]) (t @ [NUL]))"
proof (induction n arbitrary: i s t)
  case 0
  then show ?case by (subst strncmp_loop.simps; cases s; cases t) auto
next
  case (Suc n)
  note IH = Suc.IH [of "i + 1"]
  show ?case by (subst strncmp_loop.simps; cases s; cases t) (use Suc.prems IH in auto)
qed

lemma ft_strncmp_string:
  "c_string m p s \<Longrightarrow> c_string m q t \<Longrightarrow> ft_strncmp p q n m = Some (strncmp_spec n (s @ [NUL]) (t @ [NUL]))"
  using strncmp_run [of m p 0 s q t] by (cases n) (auto simp: ft_strncmp_def)

lemma strncmp_spec_zero:
  "NUL \<notin> set s \<Longrightarrow> NUL \<notin> set t \<Longrightarrow>
     strncmp_spec n (s @ [NUL]) (t @ [NUL]) = 0 \<longleftrightarrow> take n (s @ [NUL]) = take n (t @ [NUL])"
proof (induction n arbitrary: s t)
  case (Suc n)
  then show ?case by (cases s; cases t) auto
qed simp

lemma strncmp_prefix:
  assumes "NUL \<notin> set s" "NUL \<notin> set t"
  shows "strncmp_spec (length t) (s @ [NUL]) (t @ [NUL]) = 0 \<longleftrightarrow> take (length t) s = t"
proof -
  have "take (length t) (s @ [NUL]) = t \<longleftrightarrow> take (length t) s = t"
  proof (cases "length t \<le> length s")
    case False
    then have "NUL \<in> set (take (length t) (s @ [NUL]))" "length (take (length t) s) \<noteq> length t"
      by (cases "length t - length s"; simp)+
    with assms show ?thesis by metis
  qed simp
  then show ?thesis using strncmp_spec_zero [OF assms] by simp
qed

text \<open>The first position of the needle within the first \<open>len\<close> characters.\<close>

fun find_spec :: "nat \<Rightarrow> string \<Rightarrow> string \<Rightarrow> nat option" where
  "find_spec 0 s t = None"
| "find_spec (Suc len) s t =
     (if s = [] \<or> Suc len < length t then None
      else if take (length t) s = t then Some 0
      else map_option Suc (find_spec len (tl s) t))"

lemma strnstr_run:
  "c_string m p s \<Longrightarrow> c_string m q t \<Longrightarrow>
     strnstr_loop len p q (length t) m = Some (map_option (padd p) (find_spec len s t))"
proof (induction len arbitrary: p s)
  case (Suc len)
  have no: "NUL \<notin> set s" "NUL \<notin> set t" using Suc.prems c_string_no_NUL by blast+
  show ?case
  proof (cases s)
    case (Cons c s')
    with Suc.prems have s': "load m p = Some c" "c \<noteq> NUL" "c_string m (padd p 1) s'" by auto
    have "map_option (padd (padd p 1)) x = map_option (padd p) (map_option Suc x)" for x
      by (cases x) auto
    moreover have "ft_strncmp p q (length t) m = Some (strncmp_spec (length t) (s @ [NUL]) (t @ [NUL]))"
      using Suc.prems by (rule ft_strncmp_string)
    ultimately show ?thesis using s' Suc.IH [OF s'(3)] Suc.prems Cons strncmp_prefix [OF no]
      by (auto simp: option.map_comp comp_def simp del: strncmp_spec.simps c_string.simps)
  qed (use Suc.prems in simp)
qed simp

lemma ft_strnstr_string:
  "c_string m p s \<Longrightarrow> c_string m q t \<Longrightarrow> t \<noteq> [] \<Longrightarrow>
     ft_strnstr p q len m = Some (map_option (padd p) (find_spec len s t))"
proof -
  assume *: "c_string m p s" "c_string m q t" "t \<noteq> []"
  then have "load m q = Some (hd t)" "hd t \<noteq> NUL" by (cases t; simp)+
  with * show ?thesis by (simp add: ft_strnstr_def strnstr_run del: c_string.simps)
qed

lemma find_spec_Some:
  "find_spec len s t = Some k \<Longrightarrow> k + length t \<le> len \<and> take (length t) (drop k s) = t
     \<and> (\<forall>j < k. take (length t) (drop j s) \<noteq> t)"
proof (induction len s t arbitrary: k rule: find_spec.induct)
  case (2 len s t)
  then show ?case
    by (cases s) (auto split: if_splits simp: less_Suc_eq_0_disj)
qed simp

lemma find_spec_None:
  "find_spec len s t = None \<Longrightarrow> t \<noteq> [] \<Longrightarrow> k + length t \<le> len \<Longrightarrow> take (length t) (drop k s) \<noteq> t"
proof (induction len s t arbitrary: k rule: find_spec.induct)
  case (2 len s t)
  show ?case
  proof (cases k)
    case 0
    with 2 show ?thesis by (auto split: if_splits)
  next
    case (Suc j)
    with 2 show ?thesis by (cases s) (auto split: if_splits)
  qed
qed simp

section \<open>Copies\<close>

lemma strlcpy_run:
  assumes "c_string m src s" "b \<noteq> fst src" "b < length m"
    "d + min (length s) (dstsize - 1 - k) < length (m ! b)"
  shows "strlcpy_loop (b, d) src k dstsize m = Some (k + length s,
    m[b := take d (m ! b) @ take (dstsize - 1 - k) s @ NUL # drop (Suc (d + min (length s) (dstsize - 1 - k))) (m ! b)])"
  using assms
proof (induction s arbitrary: m src k d)
  case Nil
  then show ?case by (subst strlcpy_loop.simps) (simp add: upd_conv_take_nth_drop)
next
  case (Cons c s)
  show ?case
  proof (cases "k + 1 < dstsize")
    case True
    let ?m = "m[b := (m ! b)[d := c]]"
    have "dstsize - 1 - k = Suc (dstsize - 1 - (k + 1))" using True by simp
    note size = this
    have "strlcpy_loop (b, d) src k dstsize m = strlcpy_loop (b, d + 1) (padd src 1) (k + 1) dstsize ?m"
      using Cons.prems True by (subst strlcpy_loop.simps) simp
    also have "\<dots> = Some (k + 1 + length s, ?m[b := take (d + 1) (?m ! b) @ take (dstsize - 1 - (k + 1)) s @
        NUL # drop (Suc (d + 1 + min (length s) (dstsize - 1 - (k + 1)))) (?m ! b)])"
      using Cons.prems True by (intro Cons.IH) (auto simp: c_string_other)
    also have "take (d + 1) (?m ! b) @ take (dstsize - 1 - (k + 1)) s @
        NUL # drop (Suc (d + 1 + min (length s) (dstsize - 1 - (k + 1)))) (?m ! b)
      = take d (m ! b) @ take (dstsize - 1 - k) (c # s) @ NUL # drop (Suc (d + min (length (c # s)) (dstsize - 1 - k))) (m ! b)"
      using Cons.prems unfolding size by (simp add: take_Suc_conv_app_nth)
    finally show ?thesis by simp
  next
    case False
    have "strlcpy_loop (b, d) src k dstsize m = strlcpy_loop (b, d) (padd src 1) (k + 1) dstsize m"
      using Cons.prems False by (subst strlcpy_loop.simps) simp
    also have "\<dots> = Some (k + 1 + length s, m[b := take d (m ! b) @ take (dstsize - 1 - (k + 1)) s @
        NUL # drop (Suc (d + min (length s) (dstsize - 1 - (k + 1)))) (m ! b)])"
      using Cons.prems False by (intro Cons.IH) auto
    finally show ?thesis using False by simp
  qed
qed

text \<open>Copying into a whole object of the right size.\<close>

lemma ft_strlcpy_fresh:
  assumes "c_string m src s" "length b = Suc n" "n \<le> length s"
  shows "ft_strlcpy (length m, 0) src (Suc n) (m @ [b]) = Some (length s, m @ [take n s @ [NUL]])"
proof -
  have "fst src < length m" using c_string_object [OF assms(1)] by simp
  moreover have "strlcpy_loop (length m, 0) src 0 (Suc n) (m @ [b]) = Some (0 + length s,
      (m @ [b])[length m := take 0 ((m @ [b]) ! length m) @ take (Suc n - 1 - 0) s @
        NUL # drop (Suc (0 + min (length s) (Suc n - 1 - 0))) ((m @ [b]) ! length m)])"
    using assms calculation by (intro strlcpy_run) auto
  ultimately show ?thesis using assms by (simp add: ft_strlcpy_def)
qed

lemma strlcat_scan_run:
  "c_string m (padd p i) s \<Longrightarrow> i + length s < dstsize \<Longrightarrow> strlcat_scan m p dstsize i = Some (i + length s)"
  by (induction s arbitrary: i; subst strlcat_scan.simps) simp_all

text \<open>\<open>malloc\<close> and \<open>ft_calloc\<close>: one new object, or nothing.\<close>

lemma malloc_cases:
  assumes "malloc_spec alloc"
  obtains "malloc alloc n m = (None, m)" "alloc (length m) n = None"
  | b where "malloc alloc n m = (Some (length m, 0), m @ [b])" "length b = n" "alloc (length m) n = Some b"
  using assms by (cases "alloc (length m) n") (auto simp: malloc_def malloc_spec_def)

lemma ft_calloc_run:
  assumes "malloc_spec alloc" "0 < n" "0 < k" "n * k \<le> SIZE_T_MAX"
  shows "ft_calloc alloc n k m = Some (case alloc (length m) (n * k) of
      None \<Rightarrow> (None, m) | Some _ \<Rightarrow> (Some (length m, 0), m @ [replicate (n * k) NUL]))"
proof -
  have "\<not> SIZE_T_MAX div k < n" using assms by (simp add: not_less less_eq_div_iff_mult_less_eq)
  moreover have "char_of_int 0 = NUL" by (simp add: char_of_int_def char_of_def)
  ultimately show ?thesis
    using assms(2,3)
    by (cases rule: malloc_cases [OF assms(1), of "n * k" m])
      (simp_all add: ft_calloc_def ft_bzero_def ft_memset_def memset_loop_run)
qed

lemma ft_strdup_string:
  assumes "malloc_spec alloc" "c_string m p s"
  shows "ft_strdup alloc p m = Some (case alloc (length m) (length s + 1) of
      None \<Rightarrow> (None, m) | Some _ \<Rightarrow> (Some (length m, 0), m @ [s @ [NUL]]))"
  using assms(2)
  by (cases rule: malloc_cases [OF assms(1), of "length s + 1" m])
    (simp_all add: ft_strdup_def ft_strlcpy_fresh)

lemma ft_substr_string:
  assumes "malloc_spec alloc" "c_string m p s" "start \<le> length s" "length s < SIZE_T_MAX"
  shows "ft_substr alloc (Some p) start len m = Some (
      case alloc (length m) (length (take len (drop start s)) + 1) of
        None \<Rightarrow> (None, m)
      | Some _ \<Rightarrow> (Some (length m, 0), m @ [take len (drop start s) @ [NUL]]))"
proof -
  have min: "ft_min (if start < length s then length s - start else 0) len = length (take len (drop start s))"
    using assms(3) by (auto simp: ft_min_def)
  have "c_string m (padd p start) (drop start s)" using c_string_suffix assms by blast
  then have copy: "ft_strlcpy (length m, 0) (padd p start) (Suc (length (take len (drop start s))))
      (m @ [replicate (Suc (length (take len (drop start s)))) NUL])
    = Some (length (drop start s), m @ [take len (drop start s) @ [NUL]])"
    by (subst ft_strlcpy_fresh [where s = "drop start s"]) (auto simp: min_def)
  have "ft_calloc alloc (length (take len (drop start s)) + 1) 1 m =
    Some (case alloc (length m) ((length (take len (drop start s)) + 1) * 1) of
      None \<Rightarrow> (None, m) | Some _ \<Rightarrow> (Some (length m, 0), m @ [replicate ((length (take len (drop start s)) + 1) * 1) NUL]))"
    using assms(1,4) by (intro ft_calloc_run) auto
  with copy min assms(2) show ?thesis
    unfolding ft_substr_def Let_def by (auto split: option.splits simp del: length_take replicate_Suc)
qed

lemma ft_strlcat_fresh:
  assumes "c_string m p s" "NUL \<notin> set t" "length t + length s < n" "length b = n" "b = t @ replicate (n - length t) NUL"
  shows "ft_strlcat (length m, 0) p n (m @ [b]) = Some (length t + length s, m @ [t @ s @ replicate (n - length t - length s) NUL])"
proof -
  have rep: "replicate (n - length t) NUL = NUL # replicate (n - length t - 1) NUL"
    using assms(3) by (cases "n - length t") auto
  then have "c_string (m @ [b]) (padd (length m, 0) 0) t" using assms(2,5) by (auto intro: c_string_bytes)
  then have "strlcat_scan (m @ [b]) (length m, 0) n 0 = Some (0 + length t)"
    using assms(3) by (intro strlcat_scan_run) auto
  moreover have "strlcpy_loop (length m, length t) p 0 (n - length t) (m @ [b]) = Some (0 + length s,
      (m @ [b])[length m := take (length t) ((m @ [b]) ! length m) @ take (n - length t - 1 - 0) s @
        NUL # drop (Suc (length t + min (length s) (n - length t - 1 - 0))) ((m @ [b]) ! length m)])"
    using assms c_string_object [OF assms(1)] by (intro strlcpy_run) auto
  moreover have "NUL # drop (Suc (length t + min (length s) (n - length t - 1))) b = replicate (n - length t - length s) NUL"
    using assms(3,5) by (cases "n - length t - length s") (auto simp: min_def)
  ultimately show ?thesis using assms(3,5) by (simp add: ft_strlcat_def ft_strlcpy_def)
qed

lemma ft_strjoin_strings:
  assumes "malloc_spec alloc" "c_string m p s" "c_string m q t" "length s + length t < SIZE_T_MAX"
  shows "ft_strjoin alloc (Some p) (Some q) m = Some (
      case alloc (length m) (length s + length t + 1) of
        None \<Rightarrow> (None, m)
      | Some _ \<Rightarrow> (Some (length m, 0), m @ [s @ t @ [NUL]]))"
proof -
  let ?n = "length s + length t + 1"
  let ?z = "replicate ?n NUL"
  have calloc: "ft_calloc alloc ?n 1 m = Some (case alloc (length m) (?n * 1) of
      None \<Rightarrow> (None, m) | Some _ \<Rightarrow> (Some (length m, 0), m @ [replicate (?n * 1) NUL]))"
    using assms(1,4) by (intro ft_calloc_run) auto
  have "fst p < length m" using c_string_object [OF assms(2)] by simp
  then have "strlcpy_loop (length m, 0) p 0 ?n (m @ [?z]) = Some (0 + length s,
      (m @ [?z])[length m := take 0 ((m @ [?z]) ! length m) @ take (?n - 1 - 0) s @
        NUL # drop (Suc (0 + min (length s) (?n - 1 - 0))) ((m @ [?z]) ! length m)])"
    using assms(2) by (intro strlcpy_run) auto
  then have copy: "ft_strlcpy (length m, 0) p ?n (m @ [?z]) = Some (length s, m @ [s @ replicate (?n - length s) NUL])"
    by (simp add: ft_strlcpy_def)
  have "ft_strlcat (length m, 0) q ?n (m @ [s @ replicate (?n - length s) NUL])
      = Some (length s + length t, m @ [s @ t @ [NUL]])"
    using assms(2,3) c_string_no_NUL by (subst ft_strlcat_fresh [where t = s]) auto
  with calloc copy assms(2,3) show ?thesis
    unfolding ft_strjoin_def by (auto split: option.splits simp del: replicate_Suc)
qed

text \<open>Trimming: the loop keeps the first and the last position outside the set.\<close>

definition trim :: "string \<Rightarrow> string \<Rightarrow> string" where
  "trim cs s = rev (dropWhile (\<lambda>c. c \<in> set cs) (rev (dropWhile (\<lambda>c. c \<in> set cs) s)))"

definition first_kept :: "string \<Rightarrow> string \<Rightarrow> nat" where
  "first_kept cs s = length (takeWhile (\<lambda>c. c \<in> set cs) s)"

definition last_kept :: "string \<Rightarrow> string \<Rightarrow> nat" where
  "last_kept cs s = length s - 1 - length (takeWhile (\<lambda>c. c \<in> set cs) (rev s))"

lemma last_kept_Cons:
  "\<exists>x \<in> set s. x \<notin> set cs \<Longrightarrow> last_kept cs (c # s) = Suc (last_kept cs s)"
proof -
  assume ex: "\<exists>x \<in> set s. x \<notin> set cs"
  then have "takeWhile (\<lambda>c. c \<in> set cs) (rev s @ [c]) = takeWhile (\<lambda>c. c \<in> set cs) (rev s)"
    by (auto intro: takeWhile_append1)
  moreover have "length (takeWhile (\<lambda>c. c \<in> set cs) (rev s)) < length s"
    using ex by (metis length_rev length_takeWhile_le nat_less_le set_rev set_takeWhileD takeWhile_eq_take take_all_iff)
  ultimately show ?thesis by (simp add: last_kept_def)
qed

lemma last_kept_none: "\<forall>x \<in> set s. x \<in> set cs \<Longrightarrow> c \<notin> set cs \<Longrightarrow> last_kept cs (c # s) = 0"
  by (simp add: last_kept_def takeWhile_append)

lemma strtrim_run:
  "c_string m p s \<Longrightarrow> c_string m q cs \<Longrightarrow> strtrim_loop m q p start end = Some (padd p (length s),
     (if start = None \<and> (\<exists>x \<in> set s. x \<notin> set cs) then Some (padd p (first_kept cs s)) else start),
     (if \<exists>x \<in> set s. x \<notin> set cs then padd p (last_kept cs s) else end))"
proof (induction s arbitrary: p start "end")
  case (Cons c s)
  then obtain r where r: "ft_strchr q (schar c) m = Some r" "r = None \<longleftrightarrow> c \<notin> set cs"
    using ft_strchr_None [of m q cs c] by auto
  have step: "strtrim_loop m q p start end = strtrim_loop m q (padd p 1)
      (if start = None \<and> c \<notin> set cs then Some p else start) (if c \<notin> set cs then p else end)"
    using Cons.prems r by (subst strtrim_loop.simps) simp
  show ?case unfolding step
    using Cons.prems last_kept_Cons [of s cs c] last_kept_none [of s cs c]
    by (subst Cons.IH) (auto simp: first_kept_def)
qed (subst strtrim_loop.simps; simp)

lemma trim_kept:
  assumes "\<exists>x \<in> set s. x \<notin> set cs"
  shows "trim cs s = take (last_kept cs s + 1 - first_kept cs s) (drop (first_kept cs s) s)"
proof -
  let ?P = "\<lambda>c. c \<in> set cs"
  have "trim cs s = take (length (dropWhile ?P s) - length (takeWhile ?P (rev (dropWhile ?P s)))) (dropWhile ?P s)"
  proof -
    have "rev (dropWhile ?P (rev d)) = take (length d - length (takeWhile ?P (rev d))) d" for d
      by (simp add: dropWhile_eq_drop [of _ "rev d"] rev_drop)
    then show ?thesis unfolding trim_def .
  qed
  also have "takeWhile ?P (rev (dropWhile ?P s)) = takeWhile ?P (rev s)"
  proof -
    have "\<exists>x \<in> set (dropWhile ?P s). \<not> ?P x" using assms by (metis dropWhile_eq_Nil_conv hd_dropWhile hd_in_set)
    then have "takeWhile ?P (rev (dropWhile ?P s) @ rev (takeWhile ?P s)) = takeWhile ?P (rev (dropWhile ?P s))"
      by (auto intro: takeWhile_append1)
    then show ?thesis by (simp flip: rev_append)
  qed
  also have "length (dropWhile ?P s) = length s - first_kept cs s" by (simp add: dropWhile_eq_drop first_kept_def)
  finally have eq: "trim cs s = take (length s - first_kept cs s - length (takeWhile ?P (rev s))) (drop (first_kept cs s) s)"
    by (simp add: dropWhile_eq_drop first_kept_def)
  have "length (takeWhile ?P (rev s)) < length s"
    using assms by (metis length_rev length_takeWhile_le nat_less_le set_rev set_takeWhileD takeWhile_eq_take take_all_iff)
  then show ?thesis unfolding eq by (intro arg_cong [where f = "\<lambda>k. take k _"]) (simp add: last_kept_def)
qed

lemma ft_strtrim_strings:
  assumes "malloc_spec alloc" "c_string m p s" "c_string m q cs" "length s < SIZE_T_MAX"
  shows "ft_strtrim alloc (Some p) (Some q) m = Some (
      case alloc (length m) (length (trim cs s) + 1) of
        None \<Rightarrow> (None, m)
      | Some _ \<Rightarrow> (Some (length m, 0), m @ [trim cs s @ [NUL]]))"
proof (cases "\<exists>x \<in> set s. x \<notin> set cs")
  case True
  have "first_kept cs s \<le> length s" by (simp add: first_kept_def length_takeWhile_le)
  then have "c_string m (padd p (first_kept cs s)) (drop (first_kept cs s) s)"
    using assms(2) c_string_suffix by blast
  from ft_substr_string [OF assms(1) this, of 0 "last_kept cs s + 1 - first_kept cs s"] assms True
  show ?thesis by (simp add: ft_strtrim_def strtrim_run trim_kept split: option.split del: length_take)
next
  case False
  have "c_string m (padd p (length s)) (drop (length s) s)" using assms(2) c_string_suffix by blast
  from ft_substr_string [OF assms(1) this, of 0 1] assms False
  show ?thesis by (simp add: ft_strtrim_def strtrim_run trim_def dropWhile_eq_Nil_conv [THEN iffD2] split: option.split)
qed

text \<open>Mapping in place over a fresh copy.\<close>

lemma strmapi_run:
  assumes "b < length m" "m ! b = pre @ s @ [NUL]" "NUL \<notin> set s" "length pre + length s < 2 ^ 32"
  shows "strmapi_loop f (b, 0) (length pre) m =
    Some (m[b := pre @ map (\<lambda>i. f (length pre + i) (s ! i)) [0..<length s] @ [NUL]])"
  using assms
proof (induction s arbitrary: pre m)
  case Nil
  then have "m[b := pre @ [NUL]] = m" by (metis append_Nil list_update_id)
  with Nil show ?case by (subst strmapi_loop.simps) (simp add: load_def)
next
  case (Cons c s)
  let ?m = "m[b := (m ! b)[length pre := f (length pre) c]]"
  have "strmapi_loop f (b, 0) (length pre) m = strmapi_loop f (b, 0) (length (pre @ [f (length pre) c])) ?m"
    using Cons.prems by (subst strmapi_loop.simps) (auto simp: load_def store_def)
  also have "\<dots> = Some (?m[b := (pre @ [f (length pre) c]) @
      map (\<lambda>i. f (length (pre @ [f (length pre) c]) + i) (s ! i)) [0..<length s] @ [NUL]])"
    using Cons.prems by (intro Cons.IH) auto
  also have "(pre @ [f (length pre) c]) @ map (\<lambda>i. f (length (pre @ [f (length pre) c]) + i) (s ! i)) [0..<length s] @ [NUL]
      = pre @ map (\<lambda>i. f (length pre + i) ((c # s) ! i)) [0..<length (c # s)] @ [NUL]"
    by (simp add: upt_conv_Cons map_Suc_upt [symmetric] comp_def del: upt_Suc)
  finally show ?case by simp
qed

lemma ft_strmapi_string:
  assumes "malloc_spec alloc" "c_string m p s" "length s < 2 ^ 32"
  shows "ft_strmapi alloc (Some p) (Some f) m = Some (case alloc (length m) (length s + 1) of
      None \<Rightarrow> (None, m)
    | Some _ \<Rightarrow> (Some (length m, 0), m @ [map (\<lambda>i. f i (s ! i)) [0..<length s] @ [NUL]]))"
proof -
  have "strmapi_loop f (length m, 0) 0 (m @ [s @ [NUL]]) =
      Some (m @ [map (\<lambda>i. f i (s ! i)) [0..<length s] @ [NUL]])"
    using strmapi_run [of "length m" "m @ [s @ [NUL]]" "[]" s f] c_string_no_NUL [OF assms(2)] assms(3) by simp
  with ft_strdup_string [OF assms(1,2)] show ?thesis
    by (simp add: ft_strmapi_def split: option.split)
qed

section \<open>An allocator that never refuses\<close>

definition plenty :: allocator where
  "plenty k n = Some (replicate n (CHR ''?''))"

lemma plenty_spec [simp]: "malloc_spec plenty" "plenty k n = Some (replicate n (CHR ''?''))"
  by (simp_all add: malloc_spec_def plenty_def)

end
