(* ===== verification/LibftConv.thy ===== *)
theory LibftConv
  imports LibftStr CLib "HOL-Library.Signed_Division"
begin

text \<open>
  Numbers and output of \<open>libft\<close>: \<open>ft_atoi.c\<close>, \<open>ft_itoa.c\<close>, \<open>ft_put*_fd.c\<close>. \<open>int\<close>
  is a 32-bit and \<open>long\<close> a 64-bit signed integer; division and remainder truncate
  (\<open>sdiv\<close>, \<open>smod\<close>). What is written to a descriptor is the returned list of characters.
\<close>

section \<open>Reading\<close>

text \<open>The string literal is an object of its own, which the call only reads.\<close>

definition atoi_spaces :: string where
  "atoi_spaces = [TAB, LF, VT, FF, CR, CHR '' '']"

partial_function (option) atoi_skip :: "cmem \<Rightarrow> ptr \<Rightarrow> nat \<Rightarrow> nat option" where
  "atoi_skip m str i = do {
     c \<leftarrow> load m (padd str i);
     r \<leftarrow> ft_strchr (0, 0) (schar c) [atoi_spaces @ [NUL]];
     if r \<noteq> None then atoi_skip m str (i + 1) else Some i
   }"

partial_function (option) atoi_digits :: "cmem \<Rightarrow> ptr \<Rightarrow> int \<Rightarrow> nat \<Rightarrow> int \<Rightarrow> int option" where
  "atoi_digits m str sign i val = do {
     c \<leftarrow> load m (padd str i);
     if ft_isdigit (schar c) then
       if LONG_MAX sdiv 10 < val \<or> (val = LONG_MAX sdiv 10 \<and> LONG_MAX smod 10 < schar c - 48)
       then Some ((if sign = 1 then 1 else 0) * int32 LONG_MAX + (if sign = - 1 then 1 else 0) * int32 LONG_MIN)
       else atoi_digits m str sign (i + 1) (val * 10 + (schar c - 48))
     else Some (int32 (val * sign))
   }"

definition ft_atoi :: "ptr \<Rightarrow> cmem \<Rightarrow> int option" where
  "ft_atoi str m = do {
     i \<leftarrow> atoi_skip m str 0;
     c \<leftarrow> load m (padd str i);
     let sign = (if c \<noteq> CHR ''-'' then 1 else 0) - (if c = CHR ''-'' then 1 else 0);
     atoi_digits m str sign (i + (if c = CHR ''-'' \<or> c = CHR ''+'' then 1 else 0)) 0
   }"

section \<open>Writing\<close>

lemma sdiv_10_decreases: "(n :: int) \<noteq> 0 \<Longrightarrow> \<bar>n sdiv 10\<bar> < \<bar>n\<bar>"
  by (auto simp: signed_divide_int_def sgn_if abs_if split: if_splits)

lemma sdiv_10_nat: "(n :: int) \<noteq> 0 \<Longrightarrow> nat \<bar>n sdiv 10\<bar> < nat \<bar>n\<bar>"
  using sdiv_10_decreases [of n] by linarith

function get_len_loop :: "int \<Rightarrow> nat \<Rightarrow> nat" where
  "get_len_loop n len = (if n \<noteq> 0 then get_len_loop (n sdiv 10) (len + 1) else len)"
  by auto
termination by (relation "measure (\<lambda>(n, len). nat \<bar>n\<bar>)") (auto intro: sdiv_10_decreases)

declare get_len_loop.simps [simp del]

definition get_len :: "int \<Rightarrow> nat" where
  "get_len n = get_len_loop n (if n \<le> 0 then 1 else 0)"

definition sign_of :: "int \<Rightarrow> int" where
  "sign_of n = (if n \<ge> 0 then 1 else 0) - (if n < 0 then 1 else 0)"

primrec itoa_loop :: "nat \<Rightarrow> ptr \<Rightarrow> int \<Rightarrow> cmem \<Rightarrow> cmem option" where
  "itoa_loop 0 s n m = Some m"
| "itoa_loop (Suc len) s n m = do {
     m1 \<leftarrow> store (padd s len) (char_of_int (sign_of n * (n smod 10) + 48)) m;
     itoa_loop len s (n sdiv 10) m1
   }"

definition ft_itoa :: "allocator \<Rightarrow> int \<Rightarrow> cmem \<Rightarrow> (ptr option \<times> cmem) option" where
  "ft_itoa alloc n m = do {
     let len = get_len n;
     (r, m1) \<leftarrow> ft_calloc alloc (len + 1) 1 m;
     case r of
       None \<Rightarrow> Some (None, m1)
     | Some s \<Rightarrow> do {
         m2 \<leftarrow> itoa_loop len s n m1;
         m3 \<leftarrow> (if n < 0 then store s (CHR ''-'') m2 else Some m2);
         Some (Some s, m3)
       }
   }"

text \<open>Output: the bytes passed to \<open>write\<close>.\<close>

definition ft_putchar_fd :: "char \<Rightarrow> string" where
  "ft_putchar_fd c = [c]"

partial_function (option) read_string :: "cmem \<Rightarrow> ptr \<Rightarrow> nat \<Rightarrow> string option" where
  "read_string m s n = (if n = 0 then Some [] else do {
     c \<leftarrow> load m s; cs \<leftarrow> read_string m (padd s 1) (n - 1); Some (c # cs) })"

definition ft_putstr_fd :: "ptr option \<Rightarrow> cmem \<Rightarrow> string option" where
  "ft_putstr_fd s m = (case s of
     None \<Rightarrow> Some []
   | Some s \<Rightarrow> do { n \<leftarrow> ft_strlen s m; read_string m s n })"

definition ft_putendl_fd :: "ptr option \<Rightarrow> cmem \<Rightarrow> string option" where
  "ft_putendl_fd s m = do { out \<leftarrow> ft_putstr_fd s m; Some (out @ ft_putchar_fd LF) }"

function divisor_loop :: "int \<Rightarrow> int \<Rightarrow> int" where
  "divisor_loop tmp_n divisor = (if tmp_n \<noteq> 0 then divisor_loop (tmp_n sdiv 10) (divisor * 10) else divisor)"
  by auto
termination by (relation "measure (\<lambda>(n, d). nat \<bar>n\<bar>)") (auto intro: sdiv_10_decreases)

function putnbr_loop :: "int \<Rightarrow> int \<Rightarrow> string" where
  "putnbr_loop n divisor = (if divisor \<noteq> 0
     then ft_putchar_fd (char_of_int (sign_of n * (n sdiv divisor) + 48)) @ putnbr_loop (n smod divisor) (divisor sdiv 10)
     else [])"
  by auto
termination by (relation "measure (\<lambda>(n, d). nat \<bar>d\<bar>)") (auto intro: sdiv_10_decreases)

declare divisor_loop.simps [simp del] putnbr_loop.simps [simp del]

definition ft_putnbr_fd :: "int \<Rightarrow> string" where
  "ft_putnbr_fd n = (if n = 0 then ft_putchar_fd (CHR ''0'')
     else (if n < 0 then ft_putchar_fd (CHR ''-'') else []) @ putnbr_loop n (divisor_loop (n sdiv 10) 1))"

section \<open>Truncating division and digits\<close>

lemma sdiv_abs: "0 < d \<Longrightarrow> sign_of n * (n sdiv d) = \<bar>n\<bar> div d" "0 < d \<Longrightarrow> \<bar>n sdiv d\<bar> = \<bar>n\<bar> div d" for n d :: int
  using pos_imp_zdiv_nonneg_iff [of d "\<bar>n\<bar>"]
  by (auto simp: signed_divide_int_def sign_of_def sgn_if abs_if split: if_splits)

lemma smod_abs: "0 < d \<Longrightarrow> sign_of n * (n smod d) = \<bar>n\<bar> mod d" "0 < d \<Longrightarrow> \<bar>n smod d\<bar> = \<bar>n\<bar> mod d" for n d :: int
proof -
  assume d: "0 < d"
  show "sign_of n * (n smod d) = \<bar>n\<bar> mod d"
    using d by (auto simp: signed_modulo_int_def sign_of_def sgn_if abs_if)
  have "n smod d = \<bar>n\<bar> mod d \<or> n smod d = - (\<bar>n\<bar> mod d)" "0 \<le> \<bar>n\<bar> mod d"
    using d by (auto simp: signed_modulo_int_def sgn_if abs_if)
  then show "\<bar>n smod d\<bar> = \<bar>n\<bar> mod d" by linarith
qed

definition digit :: "nat \<Rightarrow> char" where
  "digit k = char_of_int (int k + 48)"

lemma digit_eq: "k < 10 \<Longrightarrow> char_of (48 + k) = digit k"
proof -
  assume "k < 10"
  then have "uchar (digit k) = int k + 48" by (simp add: digit_def uchar_char_of_int)
  with uchar_digit [of k] \<open>k < 10\<close> show ?thesis by (simp flip: uchar_inject)
qed

text \<open>The last \<open>l\<close> digits of a number, with leading zeros.\<close>

primrec digits_fixed :: "nat \<Rightarrow> nat \<Rightarrow> string" where
  "digits_fixed 0 k = []"
| "digits_fixed (Suc l) k = digits_fixed l (k div 10) @ [digit (k mod 10)]"

lemma length_digits_fixed [simp]: "length (digits_fixed l k) = l"
  by (induction l arbitrary: k) auto

lemma digits_fixed_zero: "digits_fixed l 0 = replicate l (digit 0)"
  by (induction l) (auto simp: replicate_append_same)

lemma digits_fixed_padded:
  "digits_fixed (j + length (nat_to_string k)) k = replicate j (digit 0) @ nat_to_string k"
proof (induction k rule: nat_to_string.induct)
  case (1 k)
  show ?case
  proof (cases "k < 10")
    case True
    then show ?thesis by (subst (1 2) nat_to_string.simps) (simp add: digits_fixed_zero digit_eq)
  next
    case False
    then show ?thesis using 1 by (subst (1 2) nat_to_string.simps) (simp add: digit_eq)
  qed
qed

lemma digits_fixed_head:
  "digits_fixed (Suc l) k = digit (k div 10 ^ l mod 10) # digits_fixed l (k mod 10 ^ l)"
proof (induction l arbitrary: k)
  case (Suc l)
  have "digits_fixed (Suc (Suc l)) k = digit (k div 10 div 10 ^ l mod 10) # digits_fixed l (k div 10 mod 10 ^ l) @ [digit (k mod 10)]"
    by (subst digits_fixed.simps(2)) (simp only: Suc append_Cons)
  moreover have "k div 10 div 10 ^ l = k div 10 ^ Suc l" by (simp add: div_mult2_eq [symmetric] mult.commute)
  moreover have "k mod 10 ^ Suc l = 10 * (k div 10 mod 10 ^ l) + k mod 10" by (simp add: mod_mult2_eq)
  then have "k mod 10 ^ Suc l div 10 = k div 10 mod 10 ^ l" "k mod 10 ^ Suc l mod 10 = k mod 10" by simp_all
  ultimately show ?case by (simp only: digits_fixed.simps(2) [of l "k mod 10 ^ Suc l"])
qed simp

lemma nat_to_string_bound: "k < 10 ^ length (nat_to_string k)"
proof (induction k rule: nat_to_string.induct)
  case (1 k)
  then show ?case by (cases "k < 10"; subst nat_to_string.simps) auto
qed

lemma length_nat_to_string: "k < 10 ^ Suc j \<Longrightarrow> length (nat_to_string k) \<le> Suc j"
proof (induction j arbitrary: k)
  case 0
  then show ?case by (subst nat_to_string.simps) simp
next
  case (Suc j)
  then have "k div 10 < 10 ^ Suc j" by (simp add: div_less_iff_less_mult mult.commute)
  from Suc.IH [OF this] show ?case by (subst nat_to_string.simps) simp
qed

lemma length_int_to_string: "is_int n \<Longrightarrow> length (int_to_string n) \<le> 11"
proof -
  assume "is_int n"
  then have "nat (- n) < 10 ^ Suc 9" "nat n < 10 ^ Suc 9" by (simp_all, linarith+)
  from this [THEN length_nat_to_string] show ?thesis by (auto simp: int_to_string_def)
qed

section \<open>\<open>ft_itoa\<close>\<close>

lemma get_len_run: "get_len_loop n len = len + (if n = 0 then 0 else length (nat_to_string (nat \<bar>n\<bar>)))"
proof (induction n len rule: get_len_loop.induct)
  case (1 n len)
  show ?case
  proof (cases "n = 0")
    case False
    have "nat \<bar>n sdiv 10\<bar> = nat \<bar>n\<bar> div 10" by (simp add: sdiv_abs nat_div_distrib)
    moreover from this have "n sdiv 10 = 0 \<longleftrightarrow> nat \<bar>n\<bar> < 10" by linarith
    ultimately show ?thesis using 1 [OF False] False
      by (subst get_len_loop.simps, subst nat_to_string.simps) auto
  qed (subst get_len_loop.simps; simp)
qed

lemma get_len_eq: "get_len n = length (int_to_string n)"
  by (auto simp: get_len_def get_len_run int_to_string_def nat_to_string.simps [of 0])

lemma itoa_run:
  "b < length m \<Longrightarrow> l \<le> length (m ! b) \<Longrightarrow>
     itoa_loop l (b, 0) n m = Some (m[b := digits_fixed l (nat \<bar>n\<bar>) @ drop l (m ! b)])"
proof (induction l arbitrary: n m)
  case (Suc l)
  let ?c = "char_of_int (sign_of n * (n smod 10) + 48)"
  let ?m = "m[b := (m ! b)[l := ?c]]"
  have c: "?c = digit (nat \<bar>n\<bar> mod 10)" by (simp add: smod_abs digit_def nat_mod_distrib zmod_int)
  have "itoa_loop (Suc l) (b, 0) n m = itoa_loop l (b, 0) (n sdiv 10) ?m" using Suc.prems by simp
  also have "\<dots> = Some (?m[b := digits_fixed l (nat \<bar>n sdiv 10\<bar>) @ drop l (?m ! b)])"
    using Suc.prems by (intro Suc.IH) auto
  also have "nat \<bar>n sdiv 10\<bar> = nat \<bar>n\<bar> div 10" by (simp add: sdiv_abs nat_div_distrib)
  finally show ?case using Suc.prems c
    by (simp add: drop_update_swap Cons_nth_drop_Suc [symmetric] list_update_append)
qed simp

lemma ft_itoa_string:
  assumes "malloc_spec alloc" "is_int n"
  shows "ft_itoa alloc n m = Some (case alloc (length m) (length (int_to_string n) + 1) of
      None \<Rightarrow> (None, m) | Some _ \<Rightarrow> (Some (length m, 0), m @ [int_to_string n @ [NUL]]))"
proof -
  let ?l = "length (int_to_string n)"
  let ?z = "replicate (?l + 1) NUL"
  have len: "?l + 1 \<le> SIZE_T_MAX" using length_int_to_string [OF assms(2)] by (simp add: SIZE_T_MAX_def)
  have "ft_calloc alloc (?l + 1) 1 m = Some (case alloc (length m) ((?l + 1) * 1) of
      None \<Rightarrow> (None, m) | Some _ \<Rightarrow> (Some (length m, 0), m @ [replicate ((?l + 1) * 1) NUL]))"
    using assms(1) len by (intro ft_calloc_run) auto
  moreover have "itoa_loop ?l (length m, 0) n (m @ [?z]) = Some (m @ [digits_fixed ?l (nat \<bar>n\<bar>) @ [NUL]])"
  proof -
    have "drop ?l ?z = [NUL]" by (simp only: drop_replicate) simp
    then show ?thesis by (subst itoa_run) (simp_all del: replicate_Suc drop_replicate)
  qed
  moreover have "digits_fixed ?l (nat \<bar>n\<bar>) = (if n < 0 then digit 0 # nat_to_string (nat (- n)) else int_to_string n)"
    using digits_fixed_padded [of 1 "nat (- n)"] digits_fixed_padded [of 0 "nat n"]
    by (simp add: int_to_string_def)
  ultimately show ?thesis
    by (auto simp: ft_itoa_def get_len_eq int_to_string_def nth_append store_def split: option.split
        simp del: replicate_Suc)
qed

section \<open>\<open>ft_putnbr_fd\<close>\<close>

lemma divisor_run: "divisor_loop t d = d * 10 ^ (if t = 0 then 0 else length (nat_to_string (nat \<bar>t\<bar>)))"
proof (induction t d rule: divisor_loop.induct)
  case (1 t d)
  show ?case
  proof (cases "t = 0")
    case False
    have "nat \<bar>t sdiv 10\<bar> = nat \<bar>t\<bar> div 10" by (simp add: sdiv_abs nat_div_distrib)
    moreover from this have "t sdiv 10 = 0 \<longleftrightarrow> nat \<bar>t\<bar> < 10" by linarith
    ultimately show ?thesis using 1 [OF False] False
      by (subst divisor_loop.simps, subst nat_to_string.simps) auto
  qed (subst divisor_loop.simps; simp)
qed

lemma putnbr_run: "\<bar>n\<bar> < 10 ^ Suc l \<Longrightarrow> putnbr_loop n (10 ^ l) = digits_fixed (Suc l) (nat \<bar>n\<bar>)"
proof (induction l arbitrary: n)
  case 0
  then show ?case
    by (subst putnbr_loop.simps, subst putnbr_loop.simps)
      (auto simp: sign_of_def digit_def ft_putchar_fd_def signed_divide_int_def [of 1])
next
  case (Suc l)
  let ?d = "10 ^ Suc l :: int"
  have d: "?d sdiv 10 = 10 ^ l" "?d \<noteq> 0" "0 < ?d" by (simp_all add: signed_divide_int_def)
  have "\<bar>n smod ?d\<bar> < 10 ^ Suc l" using d(3) by (simp only: smod_abs pos_mod_bound)
  from Suc.IH [OF this] have "putnbr_loop (n smod ?d) (10 ^ l) = digits_fixed (Suc l) (nat \<bar>n\<bar> mod 10 ^ Suc l)"
    using d(3) by (simp only: smod_abs nat_mod_distrib nat_power_eq abs_ge_zero) simp
  moreover have "char_of_int (sign_of n * (n sdiv ?d) + 48) = digit (nat \<bar>n\<bar> div 10 ^ Suc l mod 10)"
  proof -
    have "nat \<bar>n\<bar> < 10 * 10 ^ Suc l" using Suc.prems by (simp add: nat_less_iff)
    then have "nat \<bar>n\<bar> div 10 ^ Suc l < 10" by (simp only: less_mult_imp_div_less)
    then show ?thesis unfolding sdiv_abs(1) [OF d(3)] digit_def by (simp add: zdiv_int)
  qed
  ultimately show ?case unfolding digits_fixed_head [of "Suc l"]
    by (subst putnbr_loop.simps) (simp only: d if_True ft_putchar_fd_def append_Cons append_Nil not_False_eq_True)
qed

lemma ft_putnbr_string: "ft_putnbr_fd n = int_to_string n"
proof (cases "n = 0")
  case True
  have "CHR ''0'' = (char_of (48 :: nat) :: char)" by code_simp
  with True show ?thesis by (simp add: ft_putnbr_fd_def ft_putchar_fd_def int_to_string_def nat_to_string.simps [of 0])
next
  case False
  let ?k = "nat \<bar>n\<bar>"
  obtain l where l: "length (nat_to_string ?k) = Suc l" by (cases "length (nat_to_string ?k)") auto
  have "divisor_loop (n sdiv 10) 1 = 10 ^ l"
  proof -
    have q: "nat \<bar>n sdiv 10\<bar> = ?k div 10" by (simp add: sdiv_abs nat_div_distrib)
    moreover from q have "n sdiv 10 = 0 \<longleftrightarrow> ?k < 10" by linarith
    ultimately show ?thesis using l by (simp add: divisor_run nat_to_string.simps [of ?k] split: if_splits)
  qed
  moreover have "\<bar>n\<bar> < 10 ^ Suc l" using nat_to_string_bound [of ?k] l by (simp add: nat_less_iff)
  ultimately have "putnbr_loop n (divisor_loop (n sdiv 10) 1) = nat_to_string ?k"
    using putnbr_run [of n l] digits_fixed_padded [of 0 ?k] l by simp
  with False show ?thesis by (simp add: ft_putnbr_fd_def ft_putchar_fd_def int_to_string_def)
qed

lemma read_string_run: "c_string m p s \<Longrightarrow> read_string m p (length s) = Some s"
  by (induction s arbitrary: p; subst read_string.simps) simp_all

lemma ft_putendl_string: "c_string m p s \<Longrightarrow> ft_putendl_fd (Some p) m = Some (s @ [LF])"
  by (simp add: ft_putendl_fd_def ft_putstr_fd_def ft_putchar_fd_def read_string_run)

section \<open>\<open>ft_atoi\<close>\<close>

lemma atoi_spaces_string: "c_string [atoi_spaces @ [NUL]] (0, 0) atoi_spaces"
  by (rule c_string_bytes) (auto simp: atoi_spaces_def)

text \<open>The terminator is found in every string: \<open>strchr\<close> says yes for the null character too.\<close>

lemma atoi_strchr:
  "\<exists>r. ft_strchr (0, 0) (schar c) [atoi_spaces @ [NUL]] = Some r \<and> (r \<noteq> None \<longleftrightarrow> c \<in> set atoi_spaces \<or> c = NUL)"
proof (cases "c = NUL")
  case True
  have "takeWhile (\<lambda>d. d \<noteq> NUL) atoi_spaces = atoi_spaces" by (auto simp: takeWhile_eq_all_conv atoi_spaces_def)
  with True show ?thesis by (simp add: ft_strchr_string [OF atoi_spaces_string] takeWhile_append Let_def)
next
  case False
  with ft_strchr_None [OF atoi_spaces_string False] show ?thesis by auto
qed

lemma atoi_skip_step:
  "load m (padd p i) = Some c \<Longrightarrow> atoi_skip m p i = (if c \<in> set atoi_spaces \<or> c = NUL then atoi_skip m p (i + 1) else Some i)"
  using atoi_strchr [of c] by (subst atoi_skip.simps) auto

lemma atoi_skip_run:
  "c_string m (padd p i) (ws @ c # t) \<Longrightarrow> set ws \<subseteq> set atoi_spaces \<Longrightarrow> c \<notin> set atoi_spaces \<Longrightarrow>
     atoi_skip m p i = Some (i + length ws)"
proof (induction ws arbitrary: i)
  case (Cons w ws)
  then show ?case by (auto simp: atoi_skip_step [where c = w])
qed (simp add: atoi_skip_step)

text \<open>Behind a string of spaces only, the scan leaves the object.\<close>

lemma atoi_skip_overrun:
  "b < length m \<Longrightarrow> m ! b = pre @ ws @ [NUL] \<Longrightarrow> set ws \<subseteq> set atoi_spaces \<Longrightarrow>
     atoi_skip m (b, 0) (length pre) = None"
proof (induction ws arbitrary: pre)
  case Nil
  then have "load m (padd (b, 0) (length pre)) = Some NUL" "load m (padd (b, 0) (length pre + 1)) = None"
    by (simp_all add: load_def)
  then show ?case by (simp add: atoi_skip_step) (subst atoi_skip.simps, simp)
next
  case (Cons w ws)
  then have "load m (padd (b, 0) (length pre)) = Some w" by (simp add: load_def)
  moreover have "atoi_skip m (b, 0) (length (pre @ [w])) = None" using Cons by (intro Cons.IH) auto
  ultimately show ?case using Cons.prems by (simp add: atoi_skip_step)
qed

lemma digit_schar: "is_decimal_digit c \<Longrightarrow> schar c = uchar c"
  by (simp add: is_decimal_digit_def schar_def)

lemma ft_isdigit_char: "ft_isdigit (schar c) \<longleftrightarrow> is_decimal_digit c"
  using uchar_range [of c] by (auto simp: ft_isdigit_def is_decimal_digit_def schar_def)

lemma digits_value_ge: "list_all is_decimal_digit ds \<Longrightarrow> 0 \<le> v \<Longrightarrow> v \<le> digits_value v ds"
proof (induction ds arbitrary: v)
  case (Cons d ds)
  then have "v \<le> v * 10 + (uchar d - 48)" by (simp add: is_decimal_digit_def)
  with Cons.IH [of "v * 10 + (uchar d - 48)"] Cons.prems show ?case by simp
qed simp

lemma atoi_digits_run:
  "c_string m (padd p i) (ds @ t) \<Longrightarrow> list_all is_decimal_digit ds \<Longrightarrow> t = [] \<or> \<not> is_decimal_digit (hd t) \<Longrightarrow>
     0 \<le> v \<Longrightarrow> digits_value v ds \<le> LONG_MAX \<Longrightarrow> atoi_digits m p sign i v = Some (int32 (digits_value v ds * sign))"
proof (induction ds arbitrary: i v)
  case Nil
  then show ?case
    by (subst atoi_digits.simps; cases t) (auto simp: ft_isdigit_char is_decimal_digit_def uchar_def)
next
  case (Cons d ds)
  let ?v = "v * 10 + (uchar d - 48)"
  have d: "48 \<le> uchar d" "list_all is_decimal_digit ds" using Cons.prems by (simp_all add: is_decimal_digit_def [of d])
  have "?v \<le> digits_value ?v ds" using Cons.prems(4) d by (intro digits_value_ge) auto
  then have "?v \<le> LONG_MAX" using Cons.prems(5) by simp
  then have "\<not> LONG_MAX sdiv 10 < v" "v = LONG_MAX sdiv 10 \<Longrightarrow> uchar d - 48 \<le> LONG_MAX smod 10"
    using Cons.prems by (auto simp: LONG_MAX_def signed_divide_int_def signed_modulo_int_def is_decimal_digit_def)
  then have "atoi_digits m p sign i v = atoi_digits m p sign (i + 1) ?v"
    using Cons.prems by (subst atoi_digits.simps) (auto simp: ft_isdigit_char digit_schar)
  also have "\<dots> = Some (int32 (digits_value ?v ds * sign))"
    using Cons.prems by (intro Cons.IH) (auto simp: is_decimal_digit_def)
  finally show ?case by simp
qed

lemma int32_id: "is_int i \<Longrightarrow> int32 i = i"
  by (simp add: int32_def)

lemma digit_not_space: "is_decimal_digit c \<Longrightarrow> c \<notin> set atoi_spaces \<and> c \<noteq> CHR ''-'' \<and> c \<noteq> CHR ''+''"
  by (auto simp: is_decimal_digit_def atoi_spaces_def uchar_def)

lemma ft_atoi_number:
  assumes "c_string m p (ws @ int_to_string n @ t)" "set ws \<subseteq> set atoi_spaces" "is_int n"
    "t = [] \<or> \<not> is_decimal_digit (hd t)"
  shows "ft_atoi p m = Some n"
proof -
  obtain c ds where ds: "nat_to_string (nat \<bar>n\<bar>) = c # ds" by (cases "nat_to_string (nat \<bar>n\<bar>)") auto
  have dig: "list_all is_decimal_digit (c # ds)" using nat_to_string_digits ds by metis
  have val: "digits_value 0 (c # ds) = \<bar>n\<bar>" using digits_value_nat_to_string [of "nat \<bar>n\<bar>"] ds by simp
  show ?thesis
  proof (cases "n < 0")
    case True
    with ds assms(1) have str: "c_string m p (ws @ CHR ''-'' # (c # ds) @ t)" by (simp add: int_to_string_def)
    then have skip: "atoi_skip m p 0 = Some (0 + length ws)"
      using assms(2) by (intro atoi_skip_run) (auto simp: atoi_spaces_def)
    have "load m (padd p (length ws)) = Some (CHR ''-'')"
      using load_c_string [OF str, of "length ws"] by (simp add: nth_append)
    moreover have "c_string m (padd p (length ws + 1)) ((c # ds) @ t)"
      using c_string_suffix [OF str, of "length ws + 1"] by simp
    then have "atoi_digits m p (- 1) (length ws + 1) 0 = Some (int32 (digits_value 0 (c # ds) * - 1))"
      using dig assms(3,4) val by (intro atoi_digits_run) (auto simp: LONG_MAX_def)
    ultimately show ?thesis using skip val True assms(3) by (simp add: ft_atoi_def int32_id del: digits_value.simps)
  next
    case False
    with ds assms(1) have str: "c_string m p (ws @ c # (ds @ t))" by (simp add: int_to_string_def)
    then have skip: "atoi_skip m p 0 = Some (0 + length ws)"
      using assms(2) dig digit_not_space [of c] by (intro atoi_skip_run) auto
    have "load m (padd p (length ws)) = Some c"
      using load_c_string [OF str, of "length ws"] by (simp add: nth_append)
    moreover have "c_string m (padd p (length ws)) ((c # ds) @ t)"
      using c_string_suffix [OF str, of "length ws"] by simp
    then have "atoi_digits m p 1 (length ws) 0 = Some (int32 (digits_value 0 (c # ds) * 1))"
      using dig assms(3,4) val by (intro atoi_digits_run) (auto simp: LONG_MAX_def)
    ultimately show ?thesis using skip val False assms(3) dig digit_not_space [of c]
      by (simp add: ft_atoi_def int32_id del: digits_value.simps)
  qed
qed

section \<open>Properties\<close>

lemma int_to_string_no_NUL: "NUL \<notin> set (int_to_string n)"
proof -
  have "NUL \<notin> set (nat_to_string k)" for k
    using nat_to_string_digits [of k] by (auto simp: list_all_iff is_decimal_digit_def uchar_def)
  then show ?thesis by (simp add: int_to_string_def)
qed

text \<open>C34: \<open>ft_atoi\<close> reads back what \<open>ft_itoa\<close> wrote, for every \<open>int\<close>, the most negative one
  included.\<close>

theorem atoi_of_itoa:
  assumes "malloc_spec alloc" "- (2 ^ 31) \<le> n" "n < 2 ^ 31" "ft_itoa alloc n m = Some (Some q, m')"
  shows "ft_atoi q m' = Some n"
proof -
  have n: "is_int n" using assms(2,3) by simp
  from assms(4) ft_itoa_string [OF assms(1) n, of m] have q: "q = (length m, 0)" "m' = m @ [int_to_string n @ [NUL]]"
    by (auto split: option.splits)
  have "c_string m' q (int_to_string n)" unfolding q by (rule c_string_bytes) (auto simp: int_to_string_no_NUL)
  then show ?thesis using n by (intro ft_atoi_number [where ws = "[]" and t = "[]"]) simp_all
qed

theorem atoi_of_itoa_witness: "ft_atoi (0, 0) [''-2147483648'' @ [NUL]] = Some (- 2147483648)"
proof -
  have t: "int_to_string (- 2147483648) = ''-2147483648''"
    by (simp add: int_to_string_def nat_to_string.simps char_of_def bit_0)
  have "ft_itoa plenty (- 2147483648) [] = Some (Some (0, 0), [''-2147483648'' @ [NUL]])"
    using ft_itoa_string [of plenty "- 2147483648" "[]"] t by simp
  with atoi_of_itoa [of plenty "- 2147483648" "[]" "(0, 0)"] show ?thesis by simp
qed

text \<open>On a string of white space only, the empty string included, \<open>ft_atoi\<close> reads past the
  terminator: \<open>ft_strchr\<close> finds the NUL among its characters, so the loop that skips spaces does not
  stop there. In an object that ends with the string the read is out of bounds.\<close>

lemma atoi_reads_past_end:
  assumes "b < length m" "m ! b = ws @ [NUL]" "set ws \<subseteq> set atoi_spaces"
  shows "ft_atoi (b, 0) m = None"
  using atoi_skip_overrun [of b m "[]" ws] assms by (simp add: ft_atoi_def)

end
