(* ===== verification/Bircd.thy ===== *)
theory Bircd
  imports LibftConv "HOL-Library.Word"
begin

unbundle bit_operations_syntax

text \<open>
  The C server \<open>src/bircd\<close>: a table of descriptors with fixed buffers, rebuilt into a poll
  array on every turn. The table entry of a descriptor is a record with its buffers as byte lists;
  the \<open>libft\<close> calls brun on the objects they are given. The process ends through \<open>exit\<close>
  (\<open>Inl\<close> with the status); undefined behaviour, such as a call through a null function pointer,
  and a loop that never ends are \<open>None\<close>. System calls are an environment: what \<open>accept\<close>,
  \<open>recv\<close>, \<open>send\<close> and \<open>poll\<close> return, the printed form of a peer's address, and the bytes an uninitialised array holds.
\<close>

section \<open>State\<close>

datatype fd_type = FD_FREE | FD_SERV | FD_CLIENT

datatype fct = Fct_srv_accept | Fct_client_read | Fct_client_write

definition MAX_CLIENTS :: nat where "MAX_CLIENTS = 42"
definition BUF_SIZE :: nat where "BUF_SIZE = 100"

record t_fd =
  fd_type :: fd_type
  fct_read :: "fct option"
  fct_write :: "fct option"
  buf_read_len :: nat
  buf_read :: string
  buf_write_len :: nat
  buf_write :: string

record poll_entry =
  pe_fd :: nat
  pe_events :: "16 word"
  pe_revents :: "16 word"

record t_env =
  fds :: "t_fd list"
  pollfds :: "poll_entry list"
  maxfd :: nat
  port :: int
  out_log :: string
  closed_fds :: "nat list"

record sys =
  sys_accept :: int
  sys_peer :: string
  sys_recv :: "nat \<Rightarrow> nat \<Rightarrow> string option"
  sys_send :: "nat \<Rightarrow> string \<Rightarrow> int"
  sys_poll :: "nat \<Rightarrow> 16 word"
  sys_stack :: string

type_synonym 'a brun = "(int + 'a) option"

definition B_POLLIN :: "16 word" where "B_POLLIN = 1"
definition B_POLLOUT :: "16 word" where "B_POLLOUT = 4"

definition bfd_at :: "t_env \<Rightarrow> nat \<Rightarrow> t_fd option" where
  "bfd_at e i = (if i < length (fds e) then Some (fds e ! i) else None)"

definition put_fd :: "nat \<Rightarrow> t_fd \<Rightarrow> t_env \<Rightarrow> t_env" where
  "put_fd i f e = e\<lparr>fds := (fds e)[i := f]\<rparr>"

definition put_out :: "string \<Rightarrow> t_env \<Rightarrow> t_env" where
  "put_out s e = e\<lparr>out_log := out_log e @ s\<rparr>"

definition close_fd :: "nat \<Rightarrow> t_env \<Rightarrow> t_env" where
  "close_fd i e = e\<lparr>closed_fds := closed_fds e @ [i]\<rparr>"

section \<open>Start\<close>

definition x_int :: "int \<Rightarrow> int \<Rightarrow> int + int" where
  "x_int err res = (if res = err then Inl 1 else Inr res)"

definition x_void :: "'p option \<Rightarrow> int + 'p" where
  "x_void res = (case res of None \<Rightarrow> Inl 1 | Some p \<Rightarrow> Inr p)"

text \<open>The buffers keep the bytes they have.\<close>

definition clean_fd :: "t_fd \<Rightarrow> t_fd" where
  "clean_fd f = f\<lparr>fd_type := FD_FREE, fct_read := None, fct_write := None, buf_read_len := 0, buf_write_len := 0\<rparr>"

text \<open>\<open>res\<close> and \<open>rlim_cur\<close> are what \<open>getrlimit\<close> reports; \<open>maxfd\<close> is an \<open>int\<close>, so the limit is cut to
  32 bits. \<open>table\<close> is what \<open>malloc\<close> returns for that many entries: nothing initialises it but
  \<open>clean_fd\<close>. A negative \<open>maxfd\<close> ends every loop at once, as 0 does.\<close>

definition init_env :: "int \<Rightarrow> nat \<Rightarrow> (int \<Rightarrow> t_fd list option) \<Rightarrow> t_env \<Rightarrow> t_env brun" where
  "init_env res rlim_cur table e = (case x_int (- 1) res of
     Inl r \<Rightarrow> Some (Inl r)
   | Inr _ \<Rightarrow> (let m = int32 (int rlim_cur) in case x_void (table m) of
       Inl r \<Rightarrow> Some (Inl r)
     | Inr t \<Rightarrow> (if length t < nat m then None
         else Some (Inr (e\<lparr>maxfd := nat m, fds := map clean_fd (take (nat m) t) @ drop (nat m) t\<rparr>)))))"

definition get_opt :: "string list \<Rightarrow> t_env \<Rightarrow> int + t_env" where
  "get_opt av e = (if length av \<noteq> 2 then Inl 1 else Inr (e\<lparr>port := c_atoi (c_str (av ! 1))\<rparr>))"

text \<open>The results of \<open>getprotobyname\<close>, \<open>socket\<close>, \<open>bind\<close> and \<open>listen\<close> in order; what \<open>bind\<close> returns
  depends on the port, of which \<open>htons\<close> keeps 16 bits.\<close>

definition srv_create :: "int option \<Rightarrow> int \<Rightarrow> (int \<Rightarrow> int) \<Rightarrow> int \<Rightarrow> int \<Rightarrow> t_env \<Rightarrow> t_env brun" where
  "srv_create pe sock bind_res listen_res srv_port e = (case x_void pe of
     Inl r \<Rightarrow> Some (Inl r)
   | Inr _ \<Rightarrow> (case x_int (- 1) sock of
       Inl r \<Rightarrow> Some (Inl r)
     | Inr s \<Rightarrow> (case x_int (- 1) (bind_res (srv_port mod 65536)) of
         Inl r \<Rightarrow> Some (Inl r)
       | Inr _ \<Rightarrow> (case x_int (- 1) listen_res of
           Inl r \<Rightarrow> Some (Inl r)
         | Inr _ \<Rightarrow> do {
             f \<leftarrow> bfd_at e (nat s);
             Some (Inr (put_fd (nat s) (f\<lparr>fd_type := FD_SERV, fct_read := Some Fct_srv_accept\<rparr>) e))
           }))))"

section \<open>The poll array\<close>

text \<open>When the array is full, \<open>continue\<close> repeats the same iteration: \<open>i\<close> is not advanced.\<close>

partial_function (option) init_fd_loop :: "nat \<Rightarrow> t_env \<Rightarrow> t_env option" where
  "init_fd_loop i e =
     (if i < maxfd e then do {
        f \<leftarrow> bfd_at e i;
        if fd_type f \<noteq> FD_FREE then
          if length (pollfds e) \<ge> MAX_CLIENTS + 1 then init_fd_loop i e
          else do {
            n \<leftarrow> ft_strlen (0, 0) [buf_write f];
            init_fd_loop (i + 1) (e\<lparr>pollfds := pollfds e @
              [\<lparr>pe_fd = i, pe_events = (if 0 < n then B_POLLIN OR B_POLLOUT else B_POLLIN), pe_revents = 0\<rparr>]\<rparr>)
          }
        else init_fd_loop (i + 1) e
      } else Some e)"

definition init_fd :: "t_env \<Rightarrow> t_env option" where
  "init_fd e = init_fd_loop 0 (e\<lparr>pollfds := []\<rparr>)"

definition do_select :: "sys \<Rightarrow> t_env \<Rightarrow> t_env" where
  "do_select y e = e\<lparr>pollfds := map (\<lambda>p. p\<lparr>pe_revents := sys_poll y (pe_fd p)\<rparr>) (pollfds e)\<rparr>"

section \<open>Handlers\<close>

definition srv_accept :: "sys \<Rightarrow> nat \<Rightarrow> t_env \<Rightarrow> t_env brun" where
  "srv_accept y s e = (case x_int (- 1) (sys_accept y) of
     Inl r \<Rightarrow> Some (Inl r)
   | Inr cs \<Rightarrow> do {
       let e1 = put_out (''New client #'' @ int_to_string cs @ '' from '' @ sys_peer y @ [LF]) e;
       f \<leftarrow> bfd_at e1 (nat cs);
       Some (Inr (put_fd (nat cs) ((clean_fd f)\<lparr>fd_type := FD_CLIENT, fct_read := Some Fct_client_read,
         fct_write := Some Fct_client_write\<rparr>) e1))
     })"

definition get_crlf_pos_at :: "string \<Rightarrow> nat \<Rightarrow> bool" where
  "get_crlf_pos_at s i \<longleftrightarrow> s ! i = CR \<and> s ! (i + 1) = LF"

definition get_crlf_pos :: "string \<Rightarrow> nat \<Rightarrow> nat" where
  "get_crlf_pos s len = (case List.find (get_crlf_pos_at s) [0..<len - 1] of None \<Rightarrow> 0 | Some i \<Rightarrow> i + 2)"

text \<open>The first component is the returned count: \<open>None\<close> for the results that are not positive.\<close>

definition read_and_store :: "sys \<Rightarrow> nat \<Rightarrow> t_env \<Rightarrow> (nat option \<times> t_env) option" where
  "read_and_store y cs e = do {
     f \<leftarrow> bfd_at e cs;
     if BUF_SIZE - buf_read_len f = 0 then Some (None, e)
     else (case sys_recv y cs (BUF_SIZE - buf_read_len f) of
         None \<Rightarrow> Some (None, e)
       | Some tmp \<Rightarrow> (if tmp = [] then Some (None, e) else do {
           m1 \<leftarrow> ft_memcpy (0, buf_read_len f) (1, 0) (length tmp) [buf_read f, tmp];
           m2 \<leftarrow> store (0, buf_read_len f + length tmp) NUL m1;
           Some (Some (length tmp), put_fd cs (f\<lparr>buf_read := m2 ! 0, buf_read_len := buf_read_len f + length tmp\<rparr>) e)
         }))
   }"

text \<open>\<open>full_msg\<close>: the message cut to \<open>BUF_SIZE - 1\<close> bytes, and the line end.\<close>

definition full_message :: "string \<Rightarrow> string \<Rightarrow> (string \<times> nat) option" where
  "full_message stack msg = do {
     (_, m1) \<leftarrow> ft_strlcpy (0, 0) (1, 0) BUF_SIZE [stack, msg, CRLF @ [NUL]];
     (_, m2) \<leftarrow> ft_strlcat (0, 0) (2, 0) (BUF_SIZE + 3) m1;
     n \<leftarrow> ft_strlen (0, 0) m2;
     Some (m2 ! 0, n)
   }"

definition sendq_log :: "nat \<Rightarrow> nat \<Rightarrow> string" where
  "sendq_log i n = ''Max SendQ limit exceeded for fd '' @ ft_putnbr_fd (int i) @ '': '' @ ft_putnbr_fd (int n)
     @ '' > '' @ ft_putnbr_fd (int BUF_SIZE) @ [LF]"

primrec broadcast_loop :: "nat \<Rightarrow> string \<Rightarrow> nat \<Rightarrow> nat list \<Rightarrow> t_env \<Rightarrow> t_env option" where
  "broadcast_loop sender full_msg msg_len [] e = Some e"
| "broadcast_loop sender full_msg msg_len (i # is) e = do {
     f \<leftarrow> bfd_at e i;
     e1 \<leftarrow> (if fd_type f = FD_CLIENT \<and> i \<noteq> sender then
         if BUF_SIZE < buf_write_len f + msg_len
         then Some (put_out (sendq_log i (buf_write_len f + msg_len)) e)
         else do {
           (_, m1) \<leftarrow> ft_strlcat (0, 0) (1, 0) (BUF_SIZE + 1) [buf_write f, full_msg];
           Some (put_fd i (f\<lparr>buf_write := m1 ! 0, buf_write_len := buf_write_len f + msg_len\<rparr>) e)
         }
       else Some e);
     broadcast_loop sender full_msg msg_len is e1
   }"

definition broadcast_message :: "sys \<Rightarrow> nat \<Rightarrow> string \<Rightarrow> t_env \<Rightarrow> t_env option" where
  "broadcast_message y sender_fd msg e = do {
     shown \<leftarrow> ft_putstr_fd (Some (0, 0)) [msg];
     let e1 = put_out (''[fd='' @ ft_putnbr_fd (int sender_fd) @ ''] msg=['' @ shown @ '']'' @ [LF]) e;
     (full_msg, msg_len) \<leftarrow> full_message (sys_stack y) msg;
     broadcast_loop sender_fd full_msg msg_len [0..<maxfd e] e1
   }"

definition extract_and_consume :: "sys \<Rightarrow> nat \<Rightarrow> nat \<Rightarrow> t_env \<Rightarrow> t_env option" where
  "extract_and_consume y cs crlf_end e = do {
     f \<leftarrow> bfd_at e cs;
     m1 \<leftarrow> store (0, crlf_end - 2) NUL [buf_read f];
     e1 \<leftarrow> broadcast_message y cs (m1 ! 0) (put_fd cs (f\<lparr>buf_read := m1 ! 0\<rparr>) e);
     f1 \<leftarrow> bfd_at e1 cs;
     m2 \<leftarrow> ft_memmove (0, 0) (0, crlf_end) (buf_read_len f1 - crlf_end + 1) [buf_read f1];
     Some (put_fd cs (f1\<lparr>buf_read := m2 ! 0, buf_read_len := buf_read_len f1 - crlf_end\<rparr>) e1)
   }"

partial_function (option) client_read_loop :: "sys \<Rightarrow> nat \<Rightarrow> t_env \<Rightarrow> t_env option" where
  "client_read_loop y cs e = do {
     f \<leftarrow> bfd_at e cs;
     let crlf_end = get_crlf_pos (buf_read f) (buf_read_len f);
     if crlf_end \<noteq> 0 then do {
       e1 \<leftarrow> extract_and_consume y cs crlf_end e;
       client_read_loop y cs e1
     }
     else Some e
   }"

definition client_read :: "sys \<Rightarrow> nat \<Rightarrow> t_env \<Rightarrow> t_env option" where
  "client_read y cs e = do {
     (r, e1) \<leftarrow> read_and_store y cs e;
     case r of
       None \<Rightarrow> do {
         f \<leftarrow> bfd_at e1 cs;
         Some (put_out (''client '' @ ft_putnbr_fd (int cs) @ '' gone away'' @ [LF])
           (put_fd cs (clean_fd f) (close_fd cs e1)))
       }
     | Some _ \<Rightarrow> client_read_loop y cs e1
   }"

definition client_write :: "sys \<Rightarrow> nat \<Rightarrow> t_env \<Rightarrow> t_env option" where
  "client_write y cs e = do {
     f \<leftarrow> bfd_at e cs;
     if buf_write_len f = 0 then Some e
     else (let sent = sys_send y cs (take (buf_write_len f) (buf_write f)) in
       if sent \<le> 0 then Some (put_fd cs (clean_fd f) (close_fd cs e))
       else do {
         m1 \<leftarrow> ft_memmove (0, 0) (0, nat sent) (buf_write_len f - nat sent + 1) [buf_write f];
         Some (put_fd cs (f\<lparr>buf_write := m1 ! 0, buf_write_len := buf_write_len f - nat sent\<rparr>) e)
       })
   }"

section \<open>Dispatch\<close>

definition call_fct :: "sys \<Rightarrow> fct option \<Rightarrow> nat \<Rightarrow> t_env \<Rightarrow> t_env brun" where
  "call_fct y f fd e = (case f of
     None \<Rightarrow> None
   | Some Fct_srv_accept \<Rightarrow> srv_accept y fd e
   | Some Fct_client_read \<Rightarrow> map_option Inr (client_read y fd e)
   | Some Fct_client_write \<Rightarrow> map_option Inr (client_write y fd e))"

definition and_then :: "'a brun \<Rightarrow> ('a \<Rightarrow> 'b brun) \<Rightarrow> 'b brun" where
  "and_then r k = do { x \<leftarrow> r; case x of Inl code \<Rightarrow> Some (Inl code) | Inr a \<Rightarrow> k a }"

definition check_entry :: "sys \<Rightarrow> poll_entry \<Rightarrow> t_env \<Rightarrow> t_env brun" where
  "check_entry y p e = and_then
     (if pe_revents p AND B_POLLIN \<noteq> 0
      then do { f \<leftarrow> bfd_at e (pe_fd p); call_fct y (fct_read f) (pe_fd p) e } else Some (Inr e))
     (\<lambda>e1. if pe_revents p AND B_POLLOUT \<noteq> 0
       then do { f \<leftarrow> bfd_at e1 (pe_fd p); call_fct y (fct_write f) (pe_fd p) e1 } else Some (Inr e1))"

primrec check_entries :: "sys \<Rightarrow> poll_entry list \<Rightarrow> t_env \<Rightarrow> t_env brun" where
  "check_entries y [] e = Some (Inr e)"
| "check_entries y (p # ps) e = and_then (check_entry y p e) (check_entries y ps)"

definition check_fd :: "sys \<Rightarrow> t_env \<Rightarrow> t_env brun" where
  "check_fd y e = check_entries y (pollfds e) e"

definition main_turn :: "sys \<Rightarrow> t_env \<Rightarrow> t_env brun" where
  "main_turn y e = do { e1 \<leftarrow> init_fd e; check_fd y (do_select y e1) }"

text \<open>\<open>main_loop\<close> for the turns the environment decides.\<close>

primrec main_loop :: "sys list \<Rightarrow> t_env \<Rightarrow> t_env brun" where
  "main_loop [] e = Some (Inr e)"
| "main_loop (y # ys) e = and_then (main_turn y e) (main_loop ys)"

text \<open>\<open>main\<close>: the results of the system calls it makes before the loop, then the turns. \<open>e\<close> is the
  uninitialised \<open>t_env\<close> on the stack.\<close>

record boot =
  boot_getrlimit :: int
  boot_rlim_cur :: nat
  boot_table :: "int \<Rightarrow> t_fd list option"
  boot_proto :: "int option"
  boot_socket :: int
  boot_bind :: "int \<Rightarrow> int"
  boot_listen :: int

definition bircd_start :: "boot \<Rightarrow> string list \<Rightarrow> t_env \<Rightarrow> t_env brun" where
  "bircd_start b av e = and_then (init_env (boot_getrlimit b) (boot_rlim_cur b) (boot_table b) e) (\<lambda>e1.
     and_then (Some (get_opt av e1)) (\<lambda>e2.
     srv_create (boot_proto b) (boot_socket b) (boot_bind b) (boot_listen b) (port e2) e2))"

definition bircd_main :: "boot \<Rightarrow> sys list \<Rightarrow> string list \<Rightarrow> t_env \<Rightarrow> t_env brun" where
  "bircd_main b ys av e = and_then (bircd_start b av e) (main_loop ys)"

definition print_binary8 :: "16 word \<Rightarrow> string" where
  "print_binary8 val = concat (map (\<lambda>i. (if val AND push_bit i 1 \<noteq> 0 then ''1'' else ''0'') @ (if i = 4 then '' '' else []))
     [7, 6, 5, 4, 3, 2, 1, 0])"

section \<open>Buffers as strings\<close>

lemma NUL_not_in_cstr [simp]: "NUL \<notin> set (c_str b)"
  by (auto simp: c_str_def dest: set_takeWhileD)

lemma c_str_split: "NUL \<in> set b \<Longrightarrow> \<exists>rest. b = c_str b @ NUL # rest"
proof (induction b)
  case (Cons c b)
  then show ?case by (cases "c = NUL") (auto simp: c_str_def)
qed simp

lemma c_str_terminated: "NUL \<notin> set s \<Longrightarrow> c_str (s @ NUL # rest) = s"
  by (induction s) (auto simp: c_str_def)

lemma length_cstr: "NUL \<in> set b \<Longrightarrow> length (c_str b) < length b"
  using c_str_split [of b] by (metis add_Suc_right length_Cons length_append less_add_Suc1)

lemma c_string_buffer: "i < length m \<Longrightarrow> NUL \<in> set (m ! i) \<Longrightarrow> c_string m (i, 0) (c_str (m ! i))"
  using c_str_split [of "m ! i"] by (auto intro: c_string_bytes)

text \<open>\<open>ft_strlcpy\<close> and \<open>ft_strlcat\<close> between the buffers of a call.\<close>

lemma strlcpy_buffers:
  assumes "n < length (b # bs)" "0 < n" "c_string (b # bs) (n, 0) t" "0 < room" "room \<le> length b"
  shows "ft_strlcpy (0, 0) (n, 0) room (b # bs) =
    Some (length t, (take (room - 1) t @ NUL # drop (Suc (min (length t) (room - 1))) b) # bs)"
  using assms strlcpy_run [of "b # bs" "(n, 0)" t 0 0 room 0] by (simp add: ft_strlcpy_def)

lemma strlcat_buffers:
  assumes "n < length (b # bs)" "0 < n" "c_string (b # bs) (n, 0) t" "NUL \<in> set b" "room \<le> length b" "length (c_str b) < room"
  shows "ft_strlcat (0, 0) (n, 0) room (b # bs) = Some (length (c_str b) + length t,
    (take (room - 1) (c_str b @ t) @ NUL # drop (Suc (min (length (c_str b) + length t) (room - 1))) b) # bs)"
proof -
  let ?u = "c_str b"
  have "c_string (b # bs) (padd (0, 0) 0) ?u" using assms(4) c_string_buffer [of 0 "b # bs"] by simp
  from strlcat_scan_run [OF this, of room] have "strlcat_scan (b # bs) (0, 0) room 0 = Some (length ?u)"
    using assms(6) by simp
  moreover have "strlcpy_loop (0, length ?u) (n, 0) 0 (room - length ?u) (b # bs) = Some (0 + length t,
      (b # bs)[0 := take (length ?u) ((b # bs) ! 0) @ take (room - length ?u - 1 - 0) t @
        NUL # drop (Suc (length ?u + min (length t) (room - length ?u - 1 - 0))) ((b # bs) ! 0)])"
    using assms by (intro strlcpy_run) auto
  moreover have "take (length ?u) b = ?u" by (simp add: c_str_def takeWhile_eq_take [symmetric])
  moreover have "length ?u + min (length t) (room - Suc (length ?u)) = min (length ?u + length t) (room - 1)"
    using assms(6) by auto
  moreover have "take (room - 1) (?u @ t) = ?u @ take (room - Suc (length ?u)) t" using assms(6) by simp
  ultimately show ?thesis using assms(6) by (simp add: ft_strlcat_def ft_strlcpy_def)
qed

section \<open>Invariant\<close>

definition fd_wf :: "t_fd \<Rightarrow> bool" where
  "fd_wf f \<longleftrightarrow> length (buf_read f) = BUF_SIZE + 1 \<and> length (buf_write f) = BUF_SIZE + 1
     \<and> buf_read_len f \<le> BUF_SIZE \<and> NUL \<in> set (buf_write f) \<and> buf_write_len f \<le> length (c_str (buf_write f))
     \<and> (case fd_type f of
          FD_FREE \<Rightarrow> fct_read f = None \<and> fct_write f = None
        | FD_SERV \<Rightarrow> fct_read f = Some Fct_srv_accept \<and> c_str (buf_write f) = []
        | FD_CLIENT \<Rightarrow> fct_read f = Some Fct_client_read \<and> fct_write f = Some Fct_client_write)"

definition env_wf :: "t_env \<Rightarrow> bool" where
  "env_wf e \<longleftrightarrow> length (fds e) = maxfd e \<and> list_all fd_wf (fds e)"

definition in_use :: "t_env \<Rightarrow> nat list" where
  "in_use e = filter (\<lambda>i. fd_type (fds e ! i) \<noteq> FD_FREE) [0..<maxfd e]"

text \<open>What the system calls promise.\<close>

definition sys_ok :: "sys \<Rightarrow> bool" where
  "sys_ok y \<longleftrightarrow> length (sys_stack y) = BUF_SIZE + 3 \<and> (\<forall>cs n s. sys_recv y cs n = Some s \<longrightarrow> length s \<le> n)
     \<and> (\<forall>cs s. sys_send y cs s \<le> int (length s))"

lemma env_simps [simp]:
  "fds (put_out s e) = fds e" "maxfd (put_out s e) = maxfd e" "pollfds (put_out s e) = pollfds e"
  "fds (close_fd i e) = fds e" "maxfd (close_fd i e) = maxfd e" "pollfds (close_fd i e) = pollfds e"
  "fds (put_fd i f e) = (fds e)[i := f]" "maxfd (put_fd i f e) = maxfd e" "pollfds (put_fd i f e) = pollfds e"
  "closed_fds (put_out s e) = closed_fds e" "closed_fds (put_fd i f e) = closed_fds e"
  "closed_fds (close_fd i e) = closed_fds e @ [i]"
  by (simp_all add: put_out_def close_fd_def put_fd_def)

lemma bfd_at_wf: "env_wf e \<Longrightarrow> i < maxfd e \<Longrightarrow> bfd_at e i = Some (fds e ! i) \<and> fd_wf (fds e ! i)"
  by (simp add: env_wf_def bfd_at_def list_all_length)

lemma env_wf_put [simp]: "env_wf e \<Longrightarrow> fd_wf f \<Longrightarrow> env_wf (put_fd i f e)"
  by (auto simp: env_wf_def list_all_iff dest!: set_update_subset_insert [THEN subsetD])

lemma env_wf_out [simp]: "env_wf (put_out s e) = env_wf e" "env_wf (close_fd i e) = env_wf e"
  by (simp_all add: env_wf_def)

lemma bfd_at_out [simp]: "bfd_at (put_out s e) i = bfd_at e i" "bfd_at (close_fd j e) i = bfd_at e i"
  by (simp_all add: bfd_at_def)

lemma fd_wf_clean: "fd_wf f \<Longrightarrow> fd_wf (clean_fd f)"
  by (simp add: fd_wf_def clean_fd_def)

subsection \<open>Broadcasting\<close>

text \<open>What a broadcast does to one entry: a client other than the sender with room for the
  message gets it behind the string its buffer holds.\<close>

definition deliver :: "nat \<Rightarrow> string \<Rightarrow> nat \<Rightarrow> t_fd \<Rightarrow> t_fd" where
  "deliver sender msg i f =
     (if fd_type f = FD_CLIENT \<and> i \<noteq> sender \<and> buf_write_len f + length msg \<le> BUF_SIZE
      then f\<lparr>buf_write := take BUF_SIZE (c_str (buf_write f) @ msg) @
               NUL # drop (Suc (min (length (c_str (buf_write f)) + length msg) BUF_SIZE)) (buf_write f),
             buf_write_len := buf_write_len f + length msg\<rparr>
      else f)"

lemma deliver_wf:
  assumes "fd_wf f" "NUL \<notin> set msg"
  shows "fd_wf (deliver sender msg i f)"
proof (cases "fd_type f = FD_CLIENT \<and> i \<noteq> sender \<and> buf_write_len f + length msg \<le> BUF_SIZE")
  case True
  have len: "length (c_str (buf_write f)) < BUF_SIZE + 1"
    using length_cstr [of "buf_write f"] assms(1) by (simp add: fd_wf_def)
  have "NUL \<notin> set (take BUF_SIZE (c_str (buf_write f) @ msg))" using assms(2) by (auto dest: in_set_takeD)
  from c_str_terminated [OF this] have "c_str (buf_write (deliver sender msg i f)) = take BUF_SIZE (c_str (buf_write f) @ msg)"
    using True by (simp add: deliver_def)
  moreover have "length (buf_write (deliver sender msg i f)) = BUF_SIZE + 1"
    using True assms(1) len by (auto simp: deliver_def fd_wf_def)
  ultimately show ?thesis using True assms(1) by (auto simp: fd_wf_def deliver_def)
qed (use assms in \<open>auto simp: deliver_def\<close>)

lemma deliver_simps [simp]:
  "fd_type (deliver sender msg i f) = fd_type f" "buf_read (deliver sender msg i f) = buf_read f"
  "buf_read_len (deliver sender msg i f) = buf_read_len f" "deliver i msg i f = f"
  by (simp_all add: deliver_def)

lemma broadcast_loop_run:
  assumes "env_wf e" "set is \<subseteq> {0..<maxfd e}" "distinct is" "c_str full = msg" "NUL \<in> set full"
  shows "\<exists>e'. broadcast_loop sender full (length msg) is e = Some e' \<and> env_wf e' \<and> maxfd e' = maxfd e
    \<and> pollfds e' = pollfds e \<and> closed_fds e' = closed_fds e
    \<and> (\<forall>i < maxfd e. fds e' ! i = (if i \<in> set is then deliver sender msg i (fds e ! i) else fds e ! i))"
  using assms(1-3)
proof (induction "is" arbitrary: e)
  case (Cons i "is")
  let ?f = "fds e ! i"
  have f: "bfd_at e i = Some ?f" "fd_wf ?f" using bfd_at_wf Cons.prems by auto
  have nul: "NUL \<notin> set msg" using assms(4) by auto
  have cat: "ft_strlcat (0, 0) (1, 0) (BUF_SIZE + 1) [buf_write ?f, full] = Some (length (c_str (buf_write ?f)) + length msg,
      [take BUF_SIZE (c_str (buf_write ?f) @ msg) @
        NUL # drop (Suc (min (length (c_str (buf_write ?f)) + length msg) BUF_SIZE)) (buf_write ?f), full])"
    using f(2) assms(4,5) length_cstr [of "buf_write ?f"] c_string_buffer [of 1 "[buf_write ?f, full]"]
    by (subst strlcat_buffers [where t = msg]) (auto simp: fd_wf_def)
  define e1 where "e1 = (if fd_type ?f = FD_CLIENT \<and> i \<noteq> sender \<and> BUF_SIZE < buf_write_len ?f + length msg
    then put_out (sendq_log i (buf_write_len ?f + length msg)) e else put_fd i (deliver sender msg i ?f) e)"
  have same: "fds e1 = (fds e)[i := deliver sender msg i ?f]" "maxfd e1 = maxfd e" "pollfds e1 = pollfds e" "closed_fds e1 = closed_fds e"
    by (simp_all add: e1_def deliver_def put_out_def put_fd_def)
  have "broadcast_loop sender full (length msg) (i # is) e = broadcast_loop sender full (length msg) is e1"
  proof (cases "fd_type ?f = FD_CLIENT \<and> i \<noteq> sender")
    case True
    then show ?thesis using f cat by (auto simp: e1_def deliver_def)
  next
    case False
    then have "e1 = e" by (auto simp: e1_def deliver_def put_fd_def)
    then show ?thesis using f False by auto
  qed
  moreover have "env_wf e1" using env_wf_put [OF Cons.prems(1) deliver_wf [OF f(2) nul]] same by (simp add: env_wf_def)
  with Cons.IH [of e1] Cons.prems same obtain e' where
    e': "broadcast_loop sender full (length msg) is e1 = Some e'" "env_wf e'" "maxfd e' = maxfd e"
    "pollfds e' = pollfds e" "closed_fds e' = closed_fds e"
    "\<forall>j < maxfd e. fds e' ! j = (if j \<in> set is then deliver sender msg j (fds e1 ! j) else fds e1 ! j)"
    by auto
  moreover have "length (fds e) = maxfd e" "i < maxfd e" using Cons.prems(1,2) by (auto simp: env_wf_def)
  then have "\<forall>j < maxfd e. fds e' ! j = (if j \<in> set (i # is) then deliver sender msg j (fds e ! j) else fds e ! j)"
    using e'(6) same(1) Cons.prems(3) by (auto simp: nth_list_update)
  ultimately show ?case by auto
qed simp

lemma full_message_run:
  assumes "length stack = BUF_SIZE + 3" "NUL \<in> set b" 
  shows "\<exists>full. full_message stack b = Some (full, length (take (BUF_SIZE - 1) (c_str b) @ CRLF))
    \<and> c_str full = take (BUF_SIZE - 1) (c_str b) @ CRLF \<and> NUL \<in> set full"
proof -
  let ?u = "take (BUF_SIZE - 1) (c_str b)"
  let ?b1 = "?u @ NUL # drop (Suc (min (length (c_str b)) (BUF_SIZE - 1))) stack"
  have u: "NUL \<notin> set ?u" by (auto dest: in_set_takeD)
  have c1: "c_str ?b1 = ?u" by (rule c_str_terminated [OF u])
  have "c_string [stack, b, CRLF @ [NUL]] (1, 0) (c_str b)"
    using c_string_buffer [of 1 "[stack, b, CRLF @ [NUL]]"] assms(2) by simp
  then have "ft_strlcpy (0, 0) (1, 0) BUF_SIZE [stack, b, CRLF @ [NUL]] = Some (length (c_str b), [?b1, b, CRLF @ [NUL]])"
    using assms(1) by (subst strlcpy_buffers [where t = "c_str b"]) (auto simp: BUF_SIZE_def)
  moreover have "c_string [?b1, b, CRLF @ [NUL]] (2, 0) CRLF"
    by (rule c_string_bytes) auto
  then have "ft_strlcat (0, 0) (2, 0) (BUF_SIZE + 3) [?b1, b, CRLF @ [NUL]] = Some (length (c_str ?b1) + length CRLF,
      [take (BUF_SIZE + 3 - 1) (c_str ?b1 @ CRLF) @
        NUL # drop (Suc (min (length (c_str ?b1) + length CRLF) (BUF_SIZE + 3 - 1))) ?b1, b, CRLF @ [NUL]])"
    using assms(1) c1 by (intro strlcat_buffers) (auto simp: BUF_SIZE_def)
  moreover have "take (BUF_SIZE + 3 - 1) (c_str ?b1 @ CRLF) = ?u @ CRLF" unfolding c1 by (simp add: BUF_SIZE_def)
  ultimately obtain n rest where cat: "ft_strlcpy (0, 0) (1, 0) BUF_SIZE [stack, b, CRLF @ [NUL]] = Some (length (c_str b), [?b1, b, CRLF @ [NUL]])"
    "ft_strlcat (0, 0) (2, 0) (BUF_SIZE + 3) [?b1, b, CRLF @ [NUL]] = Some (n, [(?u @ CRLF) @ NUL # rest, b, CRLF @ [NUL]])"
    by metis
  have "c_string [(?u @ CRLF) @ NUL # rest, b, CRLF @ [NUL]] (0, 0) (?u @ CRLF)"
    using u by (intro c_string_bytes) auto
  then have "full_message stack b = Some ((?u @ CRLF) @ NUL # rest, length (?u @ CRLF))"
    unfolding full_message_def cat(1) by (simp only: bind.bind_lunit prod.case cat(2) ft_strlen_string nth_Cons_0)
  moreover have "c_str ((?u @ CRLF) @ NUL # rest) = ?u @ CRLF" using u by (intro c_str_terminated) auto
  ultimately show ?thesis by (intro exI conjI) auto
qed

lemma broadcast_message_run:
  assumes "env_wf e" "length (sys_stack y) = BUF_SIZE + 3" "NUL \<in> set b" "msg = take (BUF_SIZE - 1) (c_str b) @ CRLF"
  shows "\<exists>e'. broadcast_message y sender b e = Some e' \<and> env_wf e' \<and> maxfd e' = maxfd e
    \<and> pollfds e' = pollfds e \<and> closed_fds e' = closed_fds e
    \<and> (\<forall>i < maxfd e. fds e' ! i = deliver sender msg i (fds e ! i))"
proof -
  from full_message_run [OF assms(2,3)] obtain full where full: "full_message (sys_stack y) b = Some (full, length msg)"
    "c_str full = msg" "NUL \<in> set full" unfolding assms(4) by blast
  have "c_string [b] (0, 0) (c_str b)" using assms(3) c_string_buffer [of 0 "[b]"] by simp
  then have "ft_putstr_fd (Some (0, 0)) [b] = Some (c_str b)"
    by (simp add: ft_putstr_fd_def read_string_run)
  then have "broadcast_message y sender b e = broadcast_loop sender full (length msg) [0..<maxfd e]
      (put_out (''[fd='' @ ft_putnbr_fd (int sender) @ ''] msg=['' @ c_str b @ '']'' @ [LF]) e)"
    using full(1) by (simp add: broadcast_message_def)
  moreover have "\<exists>e'. broadcast_loop sender full (length msg) [0..<maxfd e] (put_out s e) = Some e' \<and> env_wf e'
      \<and> maxfd e' = maxfd e \<and> pollfds e' = pollfds e \<and> closed_fds e' = closed_fds e
      \<and> (\<forall>i < maxfd e. fds e' ! i = deliver sender msg i (fds e ! i))" for s
    using broadcast_loop_run [of "put_out s e" "[0..<maxfd e]" full msg sender] full(2,3) assms(1)
    by (auto simp: put_out_def [of s] env_wf_def)
  ultimately show ?thesis by simp
qed

end
