(* ===== verification/BircdSafety.thy ===== *)
theory BircdSafety
  imports Bircd
begin

text \<open>
  What \<open>bircd\<close> guarantees: reading a client's bytes delivers the complete lines in order to the
  other clients and keeps the rest; one turn of the loop is memory safe as long as no descriptor is
  closed by its read handler while it is also reported writable and the poll array is large enough.
\<close>

section \<open>Lines\<close>

lemma find_upt_Some: "List.find P [0..<n] = Some i \<longleftrightarrow> i < n \<and> P i \<and> (\<forall>j < i. \<not> P j)"
  by (auto simp: find_Some_iff)

lemma find_upt_None: "List.find P [0..<n] = None \<longleftrightarrow> (\<forall>j < n. \<not> P j)"
  by (auto simp: find_None_iff)

lemma get_crlf_pos_bounds: "get_crlf_pos s len \<noteq> 0 \<Longrightarrow> 2 \<le> get_crlf_pos s len \<and> get_crlf_pos s len \<le> len"
  by (auto simp: get_crlf_pos_def find_upt_Some split: option.splits)

lemma get_crlf_pos_take:
  assumes "len \<le> length b"
  shows "get_crlf_pos (take len b) len = get_crlf_pos b len"
proof -
  have "List.find (get_crlf_pos_at (take len b)) [0..<len - 1] = List.find (get_crlf_pos_at b) [0..<len - 1]"
    by (rule find_cong) (use assms in \<open>auto simp: get_crlf_pos_at_def\<close>)
  then show ?thesis by (simp add: get_crlf_pos_def)
qed

function crlf_lines :: "string \<Rightarrow> string list \<times> string" where
  "crlf_lines s = (let p = get_crlf_pos s (length s) in
     if p = 0 then ([], s) else (let (ls, r) = crlf_lines (drop p s) in (take (p - 2) s # ls, r)))"
  by auto
termination by (relation "measure length") (use get_crlf_pos_bounds in fastforce)+

declare crlf_lines.simps [simp del]

section \<open>Reading\<close>

definition line_message :: "string \<Rightarrow> string" where
  "line_message l = take (BUF_SIZE - 1) (c_str l) @ CRLF"

definition pending :: "t_fd \<Rightarrow> string" where
  "pending f = take (buf_read_len f) (buf_read f)"

text \<open>The state after the broadcast of some lines by \<open>cs\<close>.\<close>

definition lines_sent :: "nat \<Rightarrow> string list \<Rightarrow> t_env \<Rightarrow> t_env \<Rightarrow> bool" where
  "lines_sent cs ls e e' \<longleftrightarrow> env_wf e' \<and> maxfd e' = maxfd e \<and> pollfds e' = pollfds e \<and> closed_fds e' = closed_fds e
     \<and> fd_type (fds e' ! cs) = fd_type (fds e ! cs)
     \<and> (\<forall>i < maxfd e. i \<noteq> cs \<longrightarrow> fds e' ! i = fold (\<lambda>l. deliver cs (line_message l) i) ls (fds e ! i))"

lemma c_str_of_line: "k < length b \<Longrightarrow> c_str (b[k := NUL]) = c_str (take k b)"
proof (induction b arbitrary: k)
  case (Cons c b)
  then show ?case by (cases k) (auto simp: c_str_def)
qed simp

lemma fd_wf_read: "fd_wf f \<Longrightarrow> length b = BUF_SIZE + 1 \<Longrightarrow> fd_wf (f\<lparr>buf_read := b\<rparr>)"
    "fd_wf f \<Longrightarrow> length b = BUF_SIZE + 1 \<Longrightarrow> n \<le> BUF_SIZE \<Longrightarrow> fd_wf (f\<lparr>buf_read := b, buf_read_len := n\<rparr>)"
  by (simp_all add: fd_wf_def split: fd_type.splits)

lemma extract_and_consume_run:
  assumes wf: "env_wf e" "cs < maxfd e" "sys_ok y"
    and f: "f = fds e ! cs" and p: "2 \<le> p" "p \<le> buf_read_len f"
  shows "\<exists>e'. extract_and_consume y cs p e = Some e' \<and> lines_sent cs [take (p - 2) (pending f)] e e'
    \<and> pending (fds e' ! cs) = drop p (pending f) \<and> buf_read_len (fds e' ! cs) < buf_read_len f"
proof -
  let ?b = "(buf_read f)[p - 2 := NUL]"
  let ?f = "f\<lparr>buf_read := ?b\<rparr>"
  let ?e = "put_fd cs ?f e"
  have at: "bfd_at e cs = Some f" "fd_wf f" using bfd_at_wf [OF wf(1,2)] f by auto
  then have len: "length (buf_read f) = BUF_SIZE + 1" "buf_read_len f \<le> BUF_SIZE" by (auto simp: fd_wf_def)
  have "fd_wf ?f" using at(2) len(1) by (intro fd_wf_read) auto
  then have e: "env_wf ?e" "fds ?e ! cs = ?f" using wf env_wf_put by (blast, simp add: env_wf_def)
  have "NUL \<in> set ?b" using p len by (intro set_update_memI) auto
  have "c_str ?b = c_str (take (p - 2) (pending f))" 
    using p len by (auto simp: c_str_of_line pending_def min_def)
  then have msg: "line_message (take (p - 2) (pending f)) = take (BUF_SIZE - 1) (c_str ?b) @ CRLF"
    by (simp add: line_message_def)
  from broadcast_message_run [OF e(1) _ \<open>NUL \<in> set ?b\<close> msg, of y cs] wf(3)
  obtain e1 where e1: "broadcast_message y cs ?b ?e = Some e1" "env_wf e1" "maxfd e1 = maxfd e"
    "pollfds e1 = pollfds e" "closed_fds e1 = closed_fds ?e"
    "\<forall>i < maxfd e. fds e1 ! i = deliver cs (line_message (take (p - 2) (pending f))) i (fds ?e ! i)"
    by (auto simp: sys_ok_def)
  have f1: "fds e1 ! cs = ?f" "bfd_at e1 cs = Some ?f" using e1(3,6) wf(2) e(2) bfd_at_wf [OF e1(2), of cs] by auto
  let ?n = "buf_read_len f - p + 1"
  let ?b2 = "take ?n (drop p ?b) @ drop ?n ?b"
  have "ft_memmove (0, 0) (0, p) ?n [?b] = Some [?b2]"
    using memmove_same_object [of 0 "[?b]" 0 ?n p] p len by simp
  moreover have "fd_wf (?f\<lparr>buf_read := ?b2, buf_read_len := buf_read_len f - p\<rparr>)"
    using fd_wf_read(2) [OF at(2), of ?b2 "buf_read_len f - p"] p len by simp
  moreover have "take (buf_read_len f - p) ?b2 = drop p (pending f)"
  proof -
    have "drop p ?b = drop p (buf_read f)" using p by simp
    moreover have "take (buf_read_len f - p) ?b2 = take (buf_read_len f - p) (drop p ?b)"
      using p len by (simp only: take_append take_take) simp
    ultimately show ?thesis by (simp add: pending_def drop_take)
  qed
  ultimately have "extract_and_consume y cs p e
      = Some (put_fd cs (?f\<lparr>buf_read := ?b2, buf_read_len := buf_read_len f - p\<rparr>) e1)"
    using at(1) e1(1) f1 len p by (simp add: extract_and_consume_def)
  moreover have "lines_sent cs [take (p - 2) (pending f)] e (put_fd cs (?f\<lparr>buf_read := ?b2, buf_read_len := buf_read_len f - p\<rparr>) e1)"
    unfolding lines_sent_def
  proof (intro conjI)
    show "env_wf (put_fd cs (?f\<lparr>buf_read := ?b2, buf_read_len := buf_read_len f - p\<rparr>) e1)"
      using e1(2) \<open>fd_wf (?f\<lparr>buf_read := ?b2, buf_read_len := buf_read_len f - p\<rparr>)\<close> by (rule env_wf_put)
  qed (use e1 wf(2) f env_wf_def [of e1] in auto)
  moreover have "cs < length (fds e1)" using e1(2,3) wf(2) by (simp add: env_wf_def)
  ultimately show ?thesis using \<open>take (buf_read_len f - p) ?b2 = drop p (pending f)\<close> p len
    by (auto simp: pending_def)
qed

lemma lines_sent_trans:
  "lines_sent cs ls e e' \<Longrightarrow> lines_sent cs ls' e' e'' \<Longrightarrow> lines_sent cs (ls @ ls') e e''"
  by (auto simp: lines_sent_def)

lemma lines_sent_refl: "env_wf e \<Longrightarrow> lines_sent cs [] e e"
  by (simp add: lines_sent_def)

lemma client_read_loop_run:
  "env_wf e \<Longrightarrow> cs < maxfd e \<Longrightarrow> sys_ok y \<Longrightarrow>
     \<exists>e'. client_read_loop y cs e = Some e' \<and> lines_sent cs (fst (crlf_lines (pending (fds e ! cs)))) e e'
       \<and> pending (fds e' ! cs) = snd (crlf_lines (pending (fds e ! cs)))"
proof (induction "buf_read_len (fds e ! cs)" arbitrary: e rule: less_induct)
  case less
  let ?f = "fds e ! cs"
  let ?p = "get_crlf_pos (buf_read ?f) (buf_read_len ?f)"
  have at: "bfd_at e cs = Some ?f" "fd_wf ?f" using bfd_at_wf less.prems by auto
  then have len: "buf_read_len ?f \<le> length (buf_read ?f)" by (simp add: fd_wf_def)
  then have pend: "length (pending ?f) = buf_read_len ?f" "get_crlf_pos (pending ?f) (length (pending ?f)) = ?p"
    by (simp_all add: pending_def get_crlf_pos_take)
  show ?case
  proof (cases "?p = 0")
    case True
    then have "crlf_lines (pending ?f) = ([], pending ?f)" using pend by (simp add: crlf_lines.simps [of "pending ?f"])
    with True at lines_sent_refl [OF less.prems(1)] show ?thesis by (subst client_read_loop.simps) simp
  next
    case False
    from get_crlf_pos_bounds [OF False] extract_and_consume_run [OF less.prems refl]
    obtain e1 where e1: "extract_and_consume y cs ?p e = Some e1" "lines_sent cs [take (?p - 2) (pending ?f)] e e1"
      "pending (fds e1 ! cs) = drop ?p (pending ?f)" "buf_read_len (fds e1 ! cs) < buf_read_len ?f" by blast
    then have "env_wf e1" "maxfd e1 = maxfd e" by (simp_all add: lines_sent_def)
    with less.hyps [OF e1(4)] less.prems obtain e' where e': "client_read_loop y cs e1 = Some e'"
      "lines_sent cs (fst (crlf_lines (drop ?p (pending ?f)))) e1 e'"
      "pending (fds e' ! cs) = snd (crlf_lines (drop ?p (pending ?f)))" by (auto simp: e1(3))
    have "crlf_lines (pending ?f) = (take (?p - 2) (pending ?f) # fst (crlf_lines (drop ?p (pending ?f))),
        snd (crlf_lines (drop ?p (pending ?f))))"
      using False pend by (simp add: crlf_lines.simps [of "pending ?f"] Let_def split: prod.split)
    moreover from lines_sent_trans [OF e1(2) e'(2)]
    have "lines_sent cs (take (?p - 2) (pending ?f) # fst (crlf_lines (drop ?p (pending ?f)))) e e'" by simp
    ultimately show ?thesis using e1(1) e'(1,3) at False by (subst client_read_loop.simps) simp
  qed
qed

lemma read_and_store_run:
  assumes wf: "env_wf e" "cs < maxfd e" "sys_ok y" and f: "f = fds e ! cs"
    and data: "sys_recv y cs (BUF_SIZE - buf_read_len f) = Some d" "d \<noteq> []" "buf_read_len f < BUF_SIZE"
  shows "\<exists>f'. read_and_store y cs e = Some (Some (length d), put_fd cs f' e) \<and> fd_wf f'
    \<and> pending f' = pending f @ d \<and> fd_type f' = fd_type f"
proof -
  have at: "bfd_at e cs = Some f" "fd_wf f" using bfd_at_wf [OF wf(1,2)] f by auto
  then have len: "length (buf_read f) = BUF_SIZE + 1" by (simp add: fd_wf_def)
  have d: "length d \<le> BUF_SIZE - buf_read_len f" using wf(3) data(1) by (auto simp: sys_ok_def)
  let ?n = "buf_read_len f" and ?k = "buf_read_len f + length d"
  let ?b = "take ?n (buf_read f) @ d @ drop ?k (buf_read f)"
  have "ft_memcpy (0, ?n) (1, 0) (length d) [buf_read f, d] = Some [?b, d]"
    using memcpy_other_object [of 0 "[buf_read f, d]" ?n "length d" 1 0] d len data(3)
    by (simp add: ft_memcpy_def)
  moreover have "length ?b = BUF_SIZE + 1" using d len data(3) by simp
  moreover from this have "fd_wf (f\<lparr>buf_read := ?b[?k := NUL], buf_read_len := ?k\<rparr>)"
    using d data(3) by (intro fd_wf_read(2) [OF at(2)]) auto
  moreover have "take ?k (?b[?k := NUL]) = pending f @ d" using d len data(3) by (simp add: pending_def)
  ultimately show ?thesis using at(1) data d
    by (intro exI [of _ "f\<lparr>buf_read := ?b[?k := NUL], buf_read_len := ?k\<rparr>"])
      (auto simp: read_and_store_def pending_def store_def)
qed

lemma client_read_data:
  assumes "env_wf e" "cs < maxfd e" "sys_ok y"
    "sys_recv y cs (BUF_SIZE - buf_read_len (fds e ! cs)) = Some d" "d \<noteq> []" "buf_read_len (fds e ! cs) < BUF_SIZE"
  shows "\<exists>e'. client_read y cs e = Some e' \<and> lines_sent cs (fst (crlf_lines (pending (fds e ! cs) @ d))) e e'
    \<and> pending (fds e' ! cs) = snd (crlf_lines (pending (fds e ! cs) @ d))"
proof -
  from read_and_store_run [OF assms(1-3) refl assms(4-6)] obtain f' where
    r: "read_and_store y cs e = Some (Some (length d), put_fd cs f' e)" "fd_wf f'"
      "pending f' = pending (fds e ! cs) @ d" "fd_type f' = fd_type (fds e ! cs)" by blast
  let ?e = "put_fd cs f' e"
  have wf: "env_wf ?e" "cs < maxfd ?e" "fds ?e ! cs = f'" using r(2) assms(1,2) by (auto simp: env_wf_def [of e])
  from client_read_loop_run [OF wf(1,2) assms(3)] wf(3) r(3) obtain e' where
    e': "client_read_loop y cs ?e = Some e'" "lines_sent cs (fst (crlf_lines (pending (fds e ! cs) @ d))) ?e e'"
      "pending (fds e' ! cs) = snd (crlf_lines (pending (fds e ! cs) @ d))" by auto
  have "lines_sent cs (fst (crlf_lines (pending (fds e ! cs) @ d))) e e'"
    using e'(2) wf(3) r(4) by (auto simp: lines_sent_def put_fd_def [of cs f' e])
  with e'(1,3) r(1) show ?thesis by (simp add: client_read_def)
qed

lemma client_read_gone:
  assumes "env_wf e" "cs < maxfd e"
    "buf_read_len (fds e ! cs) = BUF_SIZE \<or> sys_recv y cs (BUF_SIZE - buf_read_len (fds e ! cs)) \<in> {None, Some []}"
  shows "\<exists>s. client_read y cs e = Some (put_out s (put_fd cs (clean_fd (fds e ! cs)) (close_fd cs e)))"
  using bfd_at_wf [OF assms(1,2)] assms(3) by (auto simp: client_read_def read_and_store_def)

section \<open>Writing\<close>

lemma c_str_long: "NUL \<notin> set (take j b) \<Longrightarrow> j \<le> length b \<Longrightarrow> j \<le> length (c_str b)"
proof (induction b arbitrary: j)
  case (Cons c b)
  then show ?case by (cases j) (auto simp: c_str_def)
qed simp

lemma take_cstr: "j \<le> length (c_str b) \<Longrightarrow> take j (c_str b) = take j b"
proof -
  assume "j \<le> length (c_str b)"
  moreover have "b = c_str b @ dropWhile (\<lambda>c. c \<noteq> NUL) b" by (simp add: c_str_def)
  ultimately show ?thesis by (metis append_Nil2 diff_is_0_eq take_0 take_append)
qed

lemma fd_wf_write:
  assumes "fd_wf f" "fd_type f = FD_SERV \<Longrightarrow> c_str b = []"
    "length b = BUF_SIZE + 1" "NUL \<in> set b" "n \<le> length (c_str b)"
  shows "fd_wf (f\<lparr>buf_write := b, buf_write_len := n\<rparr>)"
  using assms by (cases "fd_type f") (simp_all add: fd_wf_def)

lemma client_write_run:
  assumes wf: "env_wf e" "cs < maxfd e" "sys_ok y" and f: "f = fds e ! cs"
    and k: "k = sys_send y cs (take (buf_write_len f) (buf_write f))" "0 < k" and n: "0 < buf_write_len f"
  shows "\<exists>f'. client_write y cs e = Some (put_fd cs f' e) \<and> fd_wf f' \<and> fd_type f' = fd_type f
    \<and> take (buf_write_len f') (buf_write f') = drop (nat k) (take (buf_write_len f) (buf_write f))
    \<and> buf_write_len f' = buf_write_len f - nat k"
proof -
  let ?b = "buf_write f" and ?n = "buf_write_len f" and ?k = "nat k"
  have at: "bfd_at e cs = Some f" "fd_wf f" using bfd_at_wf [OF wf(1,2)] f by auto
  then have len: "length ?b = BUF_SIZE + 1" "?n \<le> length (c_str ?b)" "NUL \<in> set ?b" by (auto simp: fd_wf_def)
  with length_cstr [of ?b] have nb: "?n \<le> BUF_SIZE" by simp
  have "k \<le> int (length (take ?n ?b))" using wf(3) unfolding k(1) sys_ok_def by blast
  with k(2) nb len have kn: "?k \<le> ?n" "0 < ?k" by auto
  let ?b2 = "take (?n - ?k + 1) (drop ?k ?b) @ drop (?n - ?k + 1) ?b"
  have move: "ft_memmove (0, 0) (0, ?k) (?n - ?k + 1) [?b] = Some [?b2]"
    using memmove_same_object [of 0 "[?b]" 0 "?n - ?k + 1" ?k] kn nb len by simp
  have nul: "NUL \<in> set ?b2"
  proof -
    obtain rest where "?b = c_str ?b @ NUL # rest" using c_str_split [OF len(3)] by blast
    then have "?b ! length (c_str ?b) = NUL" "length (c_str ?b) < length ?b"
      by (metis nth_append_length, metis length_cstr len(3))
    moreover have "?n - ?k + 1 + (length (c_str ?b) - (?n - ?k + 1)) = length (c_str ?b)" using kn len by simp
    ultimately have "drop (?n - ?k + 1) ?b ! (length (c_str ?b) - (?n - ?k + 1)) = NUL"
      "length (c_str ?b) - (?n - ?k + 1) < length (drop (?n - ?k + 1) ?b)" by (simp_all only: nth_drop) (use kn len in auto)
    then have "NUL \<in> set (drop (?n - ?k + 1) ?b)" by (metis nth_mem)
    then show ?thesis by simp
  qed
  have head: "take (?n - ?k) ?b2 = drop ?k (take ?n ?b)" using kn nb len by (simp add: drop_take min_def)
  have long: "?n - ?k \<le> length (c_str ?b2)"
  proof (rule c_str_long)
    have "take ?n ?b = take ?n (c_str ?b)" using len(2) by (rule take_cstr [symmetric])
    then show "NUL \<notin> set (take (?n - ?k) ?b2)" unfolding head
      by (metis NUL_not_in_cstr in_set_dropD in_set_takeD)
  qed (use kn nb len in simp)
  have size: "length ?b2 = BUF_SIZE + 1" using kn nb len by simp
  have "fd_type f \<noteq> FD_SERV" using at(2) n by (auto simp: fd_wf_def)
  then have "fd_wf (f\<lparr>buf_write := ?b2, buf_write_len := ?n - ?k\<rparr>)"
    using fd_wf_write [OF at(2) _ size nul long] by blast
  moreover have "client_write y cs e = Some (put_fd cs (f\<lparr>buf_write := ?b2, buf_write_len := ?n - ?k\<rparr>) e)"
    using at(1) n k(2) move unfolding k(1) by (simp add: client_write_def Let_def)
  ultimately show ?thesis using head
    by (intro exI [of _ "f\<lparr>buf_write := ?b2, buf_write_len := ?n - ?k\<rparr>"] conjI) simp_all
qed

section \<open>The poll array\<close>

definition used :: "t_env \<Rightarrow> nat \<Rightarrow> bool" where
  "used e i \<longleftrightarrow> fd_type (fds e ! i) \<noteq> FD_FREE"

definition entry_of :: "t_env \<Rightarrow> nat \<Rightarrow> poll_entry" where
  "entry_of e i = \<lparr>pe_fd = i, pe_events = (if c_str (buf_write (fds e ! i)) \<noteq> [] then B_POLLIN OR B_POLLOUT else B_POLLIN),
     pe_revents = 0\<rparr>"

lemma used_poll [simp]: "used (e\<lparr>pollfds := ps\<rparr>) = used e" "entry_of (e\<lparr>pollfds := ps\<rparr>) = entry_of e"
  by (simp_all add: used_def entry_of_def fun_eq_iff)

lemma init_fd_loop_run:
  "env_wf e \<Longrightarrow> i \<le> maxfd e \<Longrightarrow> length (pollfds e) + length (filter (used e) [i..<maxfd e]) \<le> MAX_CLIENTS + 1 \<Longrightarrow>
     init_fd_loop i e = Some (e\<lparr>pollfds := pollfds e @ map (entry_of e) (filter (used e) [i..<maxfd e])\<rparr>)"
proof (induction "maxfd e - i" arbitrary: i e)
  case 0
  then show ?case by (subst init_fd_loop.simps) simp
next
  case (Suc n)
  then have i: "i < maxfd e" "[i..<maxfd e] = i # [Suc i..<maxfd e]" by (simp_all add: upt_conv_Cons)
  have f: "bfd_at e i = Some (fds e ! i)" "fd_wf (fds e ! i)" using bfd_at_wf Suc.prems(1) i(1) by auto
  show ?case
  proof (cases "used e i")
    case True
    let ?e = "e\<lparr>pollfds := pollfds e @ [entry_of e i]\<rparr>"
    have "c_string [buf_write (fds e ! i)] (0, 0) (c_str (buf_write (fds e ! i)))"
      using f(2) c_string_buffer [of 0 "[buf_write (fds e ! i)]"] by (simp add: fd_wf_def)
    then have "init_fd_loop i e = init_fd_loop (i + 1) ?e"
      using True f i Suc.prems(3) by (subst init_fd_loop.simps) (simp add: used_def entry_of_def)
    also have "\<dots> = Some (?e\<lparr>pollfds := pollfds ?e @ map (entry_of ?e) (filter (used ?e) [i + 1..<maxfd ?e])\<rparr>)"
      using Suc.hyps(2) Suc.prems True i by (intro Suc.hyps(1)) (auto simp: env_wf_def)
    finally show ?thesis using True i(2) by simp
  next
    case False
    then have "init_fd_loop i e = init_fd_loop (i + 1) e"
      using f i by (subst init_fd_loop.simps) (simp add: used_def)
    also have "\<dots> = Some (e\<lparr>pollfds := pollfds e @ map (entry_of e) (filter (used e) [i + 1..<maxfd e])\<rparr>)"
      using Suc.hyps(2) Suc.prems False i by (intro Suc.hyps(1)) auto
    finally show ?thesis using False i(2) by simp
  qed
qed

lemma init_fd_run:
  "env_wf e \<Longrightarrow> length (in_use e) \<le> MAX_CLIENTS + 1 \<Longrightarrow>
     init_fd e = Some (e\<lparr>pollfds := map (entry_of e) (in_use e)\<rparr>)"
  using init_fd_loop_run [of "e\<lparr>pollfds := []\<rparr>" 0]
  by (simp add: init_fd_def in_use_def used_def [abs_def] env_wf_def)

text \<open>With more descriptors in use the loop never ends.\<close>

lemma init_fd_loop_fits:
  "init_fd_loop i e = Some e' \<Longrightarrow> length (pollfds e) \<le> MAX_CLIENTS + 1 \<Longrightarrow>
     length (pollfds e) + length (filter (used e) [i..<maxfd e]) \<le> MAX_CLIENTS + 1"
proof (induction rule: init_fd_loop.raw_induct [rotated, consumes 1])
  case (1 loop i e e')
  show ?case
  proof (cases "i < maxfd e")
    case True
    note i = True
    then have upt: "[i..<maxfd e] = i # [Suc i..<maxfd e]" by (simp add: upt_conv_Cons)
    from 1(2) i obtain f where f: "bfd_at e i = Some f" by (auto split: bind_splits)
    then have used: "used e i \<longleftrightarrow> fd_type f \<noteq> FD_FREE" by (auto simp: used_def bfd_at_def split: if_splits)
    show ?thesis
    proof (cases "used e i")
      case True
      show ?thesis
      proof (cases "MAX_CLIENTS + 1 \<le> length (pollfds e)")
        case full: True
        then have "loop i e = Some e'" using 1(2) i f used True by simp
        with 1(1,3) show ?thesis by blast
      next
        case False
        with 1(2) i f used True obtain p where "loop (i + 1) (e\<lparr>pollfds := pollfds e @ [p]\<rparr>) = Some e'"
          by (auto split: bind_splits)
        with 1(1) False have "length (pollfds e @ [p]) + length (filter (used e) [i + 1..<maxfd e]) \<le> MAX_CLIENTS + 1"
          by fastforce
        with True upt show ?thesis by simp
      qed
    next
      case False
      with 1(2) i f used have "loop (i + 1) e = Some e'" by simp
      with 1(1,3) False upt show ?thesis by fastforce
    qed
  qed (use 1(3) in simp)
qed

section \<open>Dispatch\<close>

definition flag_in :: "poll_entry \<Rightarrow> bool" where
  "flag_in p \<longleftrightarrow> pe_revents p AND B_POLLIN \<noteq> 0"

definition flag_out :: "poll_entry \<Rightarrow> bool" where
  "flag_out p \<longleftrightarrow> pe_revents p AND B_POLLOUT \<noteq> 0"

text \<open>The read handler keeps the descriptor open.\<close>

definition stays_open :: "sys \<Rightarrow> nat \<Rightarrow> t_fd \<Rightarrow> bool" where
  "stays_open y cs f \<longleftrightarrow> buf_read_len f < BUF_SIZE \<and>
     (case sys_recv y cs (BUF_SIZE - buf_read_len f) of None \<Rightarrow> False | Some d \<Rightarrow> d \<noteq> [])"

definition entry_ok :: "sys \<Rightarrow> t_env \<Rightarrow> poll_entry \<Rightarrow> bool" where
  "entry_ok y e p \<longleftrightarrow> pe_fd p < maxfd e \<and> fd_type (fds e ! pe_fd p) \<noteq> FD_FREE
     \<and> (flag_out p \<longrightarrow> fd_type (fds e ! pe_fd p) = FD_CLIENT)
     \<and> (flag_in p \<and> flag_out p \<longrightarrow> stays_open y (pe_fd p) (fds e ! pe_fd p))"

definition accepts_free :: "sys \<Rightarrow> t_env \<Rightarrow> bool" where
  "accepts_free y e \<longleftrightarrow> sys_accept y = - 1 \<or>
     (0 \<le> sys_accept y \<and> nat (sys_accept y) < maxfd e \<and> fd_type (fds e ! nat (sys_accept y)) = FD_FREE)"

text \<open>The table outside some entries, as far as the other entries of the turn depend on it.\<close>

definition untouched :: "nat set \<Rightarrow> t_env \<Rightarrow> t_env \<Rightarrow> bool" where
  "untouched A e e' \<longleftrightarrow> env_wf e' \<and> maxfd e' = maxfd e \<and> (\<forall>i < maxfd e. i \<notin> A \<longrightarrow>
     fd_type (fds e' ! i) = fd_type (fds e ! i) \<and> buf_read_len (fds e' ! i) = buf_read_len (fds e ! i))"

lemma untouched_put: "env_wf e \<Longrightarrow> fd_wf f \<Longrightarrow> untouched {cs} e (put_fd cs f e)"
  by (auto simp: untouched_def)

lemma untouched_out [simp]: "untouched A e (put_out s e') = untouched A e e'" "untouched A e (close_fd i e') = untouched A e e'"
  "untouched A (put_out s e) e' = untouched A e e'" "untouched A (close_fd i e) e' = untouched A e e'"
  by (simp_all add: untouched_def)

lemma untouched_trans: "untouched A e e' \<Longrightarrow> untouched A e' e'' \<Longrightarrow> untouched A e e''"
  by (simp add: untouched_def)

lemma fold_deliver_simps [simp]:
  "fd_type (fold (\<lambda>l. deliver s (g l) i) ls f) = fd_type f"
  "buf_read_len (fold (\<lambda>l. deliver s (g l) i) ls f) = buf_read_len f"
  by (induction ls arbitrary: f) simp_all

lemma untouched_lines: "lines_sent cs ls e e' \<Longrightarrow> untouched {cs} e e'"
  by (auto simp: lines_sent_def untouched_def)

lemma client_read_safe:
  assumes "env_wf e" "cs < maxfd e" "sys_ok y"
  shows "\<exists>e'. client_read y cs e = Some e' \<and> untouched {cs} e e'
    \<and> (stays_open y cs (fds e ! cs) \<longrightarrow> fd_type (fds e' ! cs) = fd_type (fds e ! cs))"
proof (cases "stays_open y cs (fds e ! cs)")
  case True
  then obtain d where "sys_recv y cs (BUF_SIZE - buf_read_len (fds e ! cs)) = Some d" "d \<noteq> []"
    "buf_read_len (fds e ! cs) < BUF_SIZE" by (auto simp: stays_open_def split: option.splits)
  from client_read_data [OF assms this] obtain e' where "client_read y cs e = Some e'"
    "lines_sent cs (fst (crlf_lines (pending (fds e ! cs) @ d))) e e'" by blast
  then show ?thesis using untouched_lines [of cs _ e e'] by (auto simp: lines_sent_def)
next
  case False
  have wf: "fd_wf (fds e ! cs)" using bfd_at_wf assms by auto
  then have "buf_read_len (fds e ! cs) \<le> BUF_SIZE" by (simp add: fd_wf_def)
  with False have "buf_read_len (fds e ! cs) = BUF_SIZE
      \<or> sys_recv y cs (BUF_SIZE - buf_read_len (fds e ! cs)) \<in> {None, Some []}"
    by (auto simp: stays_open_def split: option.splits)
  from client_read_gone [OF assms(1,2) this] obtain s where
    "client_read y cs e = Some (put_out s (put_fd cs (clean_fd (fds e ! cs)) (close_fd cs e)))" by blast
  moreover have "untouched {cs} (close_fd cs e) (put_fd cs (clean_fd (fds e ! cs)) (close_fd cs e))"
    using assms(1) wf by (intro untouched_put fd_wf_clean) simp_all
  ultimately show ?thesis using False by auto
qed

lemma client_write_safe:
  assumes "env_wf e" "cs < maxfd e" "sys_ok y"
  shows "\<exists>e'. client_write y cs e = Some e' \<and> untouched {cs} e e'"
proof -
  let ?f = "fds e ! cs"
  let ?k = "sys_send y cs (take (buf_write_len ?f) (buf_write ?f))"
  have at: "bfd_at e cs = Some ?f" "fd_wf ?f" using bfd_at_wf assms by auto
  consider "buf_write_len ?f = 0" | "0 < buf_write_len ?f" "0 < ?k" | "0 < buf_write_len ?f" "?k \<le> 0" by linarith
  then show ?thesis
  proof cases
    case 1
    with at assms(1) show ?thesis by (auto simp: client_write_def untouched_def)
  next
    case 2
    from client_write_run [OF assms refl refl 2(2,1)] show ?thesis using untouched_put [OF assms(1)] by blast
  next
    case 3
    with at have "client_write y cs e = Some (put_fd cs (clean_fd ?f) (close_fd cs e))"
      by (simp add: client_write_def Let_def)
    moreover have "untouched {cs} (close_fd cs e) (put_fd cs (clean_fd ?f) (close_fd cs e))"
      using assms(1) at(2) by (intro untouched_put fd_wf_clean) simp_all
    ultimately show ?thesis by auto
  qed
qed

lemma fd_wf_client:
  "fd_wf f \<Longrightarrow> fd_wf ((clean_fd f)\<lparr>fd_type := FD_CLIENT, fct_read := Some Fct_client_read, fct_write := Some Fct_client_write\<rparr>)"
  by (simp add: fd_wf_def clean_fd_def)

lemma srv_accept_safe:
  assumes "env_wf e" "accepts_free y e"
  shows "(sys_accept y = - 1 \<and> srv_accept y s e = Some (Inl 1)) \<or>
    (sys_accept y \<noteq> - 1 \<and> (\<exists>e'. srv_accept y s e = Some (Inr e') \<and> untouched {nat (sys_accept y)} e e'))"
proof (cases "sys_accept y = - 1")
  case False
  with assms have acc: "nat (sys_accept y) < maxfd e" by (simp add: accepts_free_def)
  from bfd_at_wf [OF assms(1) acc] have f: "bfd_at e (nat (sys_accept y)) = Some (fds e ! nat (sys_accept y))"
    "fd_wf (fds e ! nat (sys_accept y))" by auto
  have "untouched {nat (sys_accept y)} (put_out t e) (put_fd (nat (sys_accept y)) ((clean_fd (fds e ! nat (sys_accept y)))
      \<lparr>fd_type := FD_CLIENT, fct_read := Some Fct_client_read, fct_write := Some Fct_client_write\<rparr>) (put_out t e))" for t
    using assms(1) fd_wf_client [OF f(2)] by (intro untouched_put) simp_all
  with False f(1) show ?thesis by (auto simp: srv_accept_def x_int_def)
qed (simp add: srv_accept_def x_int_def)

text \<open>The entries a turn may touch: the entry's own, and the accepted one for the listening socket.\<close>

definition touches :: "sys \<Rightarrow> t_env \<Rightarrow> poll_entry \<Rightarrow> nat set" where
  "touches y e p = (if fd_type (fds e ! pe_fd p) \<noteq> FD_SERV then {pe_fd p}
     else if sys_accept y = - 1 then {} else {nat (sys_accept y)})"

lemma check_entry_safe:
  assumes "env_wf e" "sys_ok y" "entry_ok y e p" "fd_type (fds e ! pe_fd p) = FD_SERV \<longrightarrow> accepts_free y e"
  shows "(sys_accept y = - 1 \<and> check_entry y p e = Some (Inl 1)) \<or>
    (\<exists>e'. check_entry y p e = Some (Inr e') \<and> untouched (touches y e p) e e')"
proof -
  let ?fd = "pe_fd p"
  have at: "?fd < maxfd e" "bfd_at e ?fd = Some (fds e ! ?fd)" "fd_wf (fds e ! ?fd)"
    using assms(3) bfd_at_wf [OF assms(1)] by (auto simp: entry_ok_def)
  have same: "untouched A e e" for A using assms(1) by (simp add: untouched_def)
  show ?thesis
  proof (cases "fd_type (fds e ! ?fd)")
    case FD_FREE
    then show ?thesis using assms(3) by (simp add: entry_ok_def)
  next
    case FD_SERV
    with assms(3) have "pe_revents p AND B_POLLOUT = 0" by (auto simp: entry_ok_def flag_out_def)
    moreover have "fct_read (fds e ! ?fd) = Some Fct_srv_accept" using FD_SERV at(3) by (simp add: fd_wf_def)
    ultimately show ?thesis using srv_accept_safe [OF assms(1), of y ?fd] assms(4) FD_SERV at(2) same
      by (cases "pe_revents p AND B_POLLIN = 0") (auto simp: check_entry_def and_then_def call_fct_def touches_def)
  next
    case FD_CLIENT
    have fct: "fct_read f = Some Fct_client_read" "fct_write f = Some Fct_client_write"
      if "fd_wf f" "fd_type f = FD_CLIENT" for f using that by (simp_all add: fd_wf_def)
    obtain e1 where e1: "(if pe_revents p AND B_POLLIN \<noteq> 0
        then do { f \<leftarrow> bfd_at e ?fd; call_fct y (fct_read f) ?fd e } else Some (Inr e)) = Some (Inr e1)"
      "untouched {?fd} e e1" "flag_out p \<Longrightarrow> fd_type (fds e1 ! ?fd) = FD_CLIENT"
    proof (cases "flag_in p")
      case True
      from client_read_safe [OF assms(1) at(1) assms(2)] obtain e1 where "client_read y ?fd e = Some e1"
        "untouched {?fd} e e1" "stays_open y ?fd (fds e ! ?fd) \<longrightarrow> fd_type (fds e1 ! ?fd) = FD_CLIENT"
        using FD_CLIENT by auto
      with that [of e1] True assms(3) fct(1) [OF at(3) FD_CLIENT] at(2) show ?thesis
        by (simp add: call_fct_def flag_in_def entry_ok_def)
    next
      case False
      with that [of e] FD_CLIENT same show ?thesis by (simp add: flag_in_def)
    qed
    have wf1: "env_wf e1" "?fd < maxfd e1" using e1(2) at(1) by (auto simp: untouched_def)
    show ?thesis
    proof (cases "flag_out p")
      case True
      from client_write_safe [OF wf1 assms(2)] obtain e2 where "client_write y ?fd e1 = Some e2" "untouched {?fd} e1 e2" by blast
      with True e1 fct(2) [of "fds e1 ! ?fd"] bfd_at_wf [OF wf1] FD_CLIENT show ?thesis
        by (auto simp: check_entry_def and_then_def call_fct_def flag_out_def touches_def intro: untouched_trans)
    next
      case False
      with e1 FD_CLIENT show ?thesis by (auto simp: check_entry_def and_then_def flag_out_def touches_def)
    qed
  qed
qed

lemma check_entries_safe:
  "env_wf e \<Longrightarrow> sys_ok y \<Longrightarrow> \<forall>p \<in> set ps. entry_ok y e p \<Longrightarrow> distinct (map pe_fd ps) \<Longrightarrow>
     length (filter (\<lambda>p. fd_type (fds e ! pe_fd p) = FD_SERV) ps) \<le> 1 \<Longrightarrow>
     (\<exists>p \<in> set ps. fd_type (fds e ! pe_fd p) = FD_SERV) \<longrightarrow> accepts_free y e \<Longrightarrow>
     (sys_accept y = - 1 \<and> check_entries y ps e = Some (Inl 1)) \<or>
     (\<exists>e'. check_entries y ps e = Some (Inr e') \<and> env_wf e' \<and> maxfd e' = maxfd e)"
proof (induction ps arbitrary: e)
  case (Cons p ps)
  have "(sys_accept y = - 1 \<and> check_entry y p e = Some (Inl 1)) \<or>
      (\<exists>e'. check_entry y p e = Some (Inr e') \<and> untouched (touches y e p) e e')"
    using Cons.prems by (intro check_entry_safe) auto
  then show ?case
  proof (elim disjE exE conjE)
    fix e1 assume e1: "check_entry y p e = Some (Inr e1)" "untouched (touches y e p) e e1"
    have other: "pe_fd q < maxfd e" "pe_fd q \<notin> touches y e p" if "q \<in> set ps" for q
    proof -
      show "pe_fd q < maxfd e" using that Cons.prems(3) by (simp add: entry_ok_def)
      have "fd_type (fds e ! pe_fd q) \<noteq> FD_FREE" using that Cons.prems(3) by (simp add: entry_ok_def)
      moreover have "pe_fd q \<noteq> pe_fd p" using imageI [OF that, of pe_fd] Cons.prems(4) by auto
      ultimately show "pe_fd q \<notin> touches y e p" using Cons.prems(6) by (auto simp: touches_def accepts_free_def)
    qed
    have same: "fd_type (fds e1 ! pe_fd q) = fd_type (fds e ! pe_fd q)"
        "buf_read_len (fds e1 ! pe_fd q) = buf_read_len (fds e ! pe_fd q)" if "q \<in> set ps" for q
      using e1(2) other [OF that] by (simp_all add: untouched_def)
    have filt: "filter (\<lambda>p. fd_type (fds e1 ! pe_fd p) = FD_SERV) ps = filter (\<lambda>p. fd_type (fds e ! pe_fd p) = FD_SERV) ps"
      using same(1) by (auto intro: filter_cong)
    have "(sys_accept y = - 1 \<and> check_entries y ps e1 = Some (Inl 1)) \<or>
        (\<exists>e'. check_entries y ps e1 = Some (Inr e') \<and> env_wf e' \<and> maxfd e' = maxfd e1)"
    proof (rule Cons.IH)
      show "\<forall>q \<in> set ps. entry_ok y e1 q"
        using Cons.prems(3) same e1(2) by (auto simp: entry_ok_def stays_open_def untouched_def)
      show "(\<exists>q \<in> set ps. fd_type (fds e1 ! pe_fd q) = FD_SERV) \<longrightarrow> accepts_free y e1"
      proof (intro impI)
        assume ex: "\<exists>q \<in> set ps. fd_type (fds e1 ! pe_fd q) = FD_SERV"
        then obtain q where q: "q \<in> set ps" "fd_type (fds e ! pe_fd q) = FD_SERV" using same(1) by auto
        then have "q \<in> set (filter (\<lambda>p. fd_type (fds e ! pe_fd p) = FD_SERV) ps)" by simp
        then have "0 < length (filter (\<lambda>p. fd_type (fds e ! pe_fd p) = FD_SERV) ps)" by (rule length_pos_if_in_set)
        then have serv: "fd_type (fds e ! pe_fd p) \<noteq> FD_SERV" using Cons.prems(5) by (simp split: if_splits)
        have acc: "accepts_free y e" using Cons.prems(6) q by auto
        have "fd_type (fds e ! pe_fd p) \<noteq> FD_FREE" using Cons.prems(3) by (simp add: entry_ok_def)
        with serv acc e1(2) show "accepts_free y e1"
          by (auto simp: accepts_free_def untouched_def touches_def)
      qed
    qed (use Cons.prems e1(2) filt in \<open>auto simp: untouched_def split: if_splits\<close>)
    with e1 show ?thesis by (auto simp: and_then_def untouched_def)
  qed (simp add: and_then_def)
qed simp

text \<open>What \<open>poll\<close> reports is what was asked for.\<close>

definition poll_ok :: "sys \<Rightarrow> t_env \<Rightarrow> bool" where
  "poll_ok y e \<longleftrightarrow> (\<forall>i < maxfd e. sys_poll y i AND B_POLLOUT \<noteq> 0 \<longrightarrow> c_str (buf_write (fds e ! i)) \<noteq> [])"

definition no_close_and_write :: "sys \<Rightarrow> t_env \<Rightarrow> bool" where
  "no_close_and_write y e \<longleftrightarrow> (\<forall>i < maxfd e. fd_type (fds e ! i) = FD_CLIENT \<and> sys_poll y i AND B_POLLIN \<noteq> 0
     \<and> sys_poll y i AND B_POLLOUT \<noteq> 0 \<longrightarrow> stays_open y i (fds e ! i))"

lemma main_turn_safe:
  assumes "env_wf e" "sys_ok y" "length (in_use e) \<le> MAX_CLIENTS + 1" "poll_ok y e" "no_close_and_write y e"
    "length (filter (\<lambda>i. fd_type (fds e ! i) = FD_SERV) (in_use e)) \<le> 1" "accepts_free y e"
  shows "(sys_accept y = - 1 \<and> main_turn y e = Some (Inl 1)) \<or>
    (\<exists>e'. main_turn y e = Some (Inr e') \<and> env_wf e' \<and> maxfd e' = maxfd e)"
proof -
  let ?ps = "map (\<lambda>i. (entry_of e i)\<lparr>pe_revents := sys_poll y i\<rparr>) (in_use e)"
  let ?e = "e\<lparr>pollfds := ?ps\<rparr>"
  have fd: "pe_fd ((entry_of e i)\<lparr>pe_revents := sys_poll y i\<rparr>) = i" for i by (simp add: entry_of_def)
  have "main_turn y e = check_entries y ?ps ?e"
    using init_fd_run [OF assms(1,3)] by (simp add: main_turn_def check_fd_def do_select_def comp_def entry_of_def)
  moreover have "(sys_accept y = - 1 \<and> check_entries y ?ps ?e = Some (Inl 1)) \<or>
      (\<exists>e'. check_entries y ?ps ?e = Some (Inr e') \<and> env_wf e' \<and> maxfd e' = maxfd ?e)"
  proof (rule check_entries_safe)
    have client: "fd_type (fds e ! i) = FD_CLIENT"
      if "i < maxfd e" "fd_type (fds e ! i) \<noteq> FD_FREE" "sys_poll y i AND B_POLLOUT \<noteq> 0" for i
    proof -
      have "fd_wf (fds e ! i)" using bfd_at_wf assms(1) that(1) by auto
      moreover have "c_str (buf_write (fds e ! i)) \<noteq> []" using assms(4) that by (simp add: poll_ok_def)
      ultimately show ?thesis using that(2) by (cases "fd_type (fds e ! i)") (simp_all add: fd_wf_def)
    qed
    show "\<forall>p \<in> set ?ps. entry_ok y ?e p" using assms(5) client
      by (auto simp: entry_ok_def flag_in_def flag_out_def entry_of_def in_use_def no_close_and_write_def)
    show "distinct (map pe_fd ?ps)" by (simp add: comp_def fd in_use_def)
    show "length (filter (\<lambda>p. fd_type (fds ?e ! pe_fd p) = FD_SERV) ?ps) \<le> 1"
      using assms(6) by (simp add: filter_map comp_def fd)
  qed (use assms in \<open>auto simp: env_wf_def accepts_free_def\<close>)
  ultimately show ?thesis by simp
qed

section \<open>Where the server goes wrong\<close>

text \<open>A client that is closed by its read handler and also reported writable: the write handler is
  called through the pointer that was just cleared.\<close>

lemma check_entry_null_call:
  assumes "env_wf e" "pe_fd p < maxfd e" "fd_type (fds e ! pe_fd p) = FD_CLIENT" "flag_in p" "flag_out p"
    "sys_recv y (pe_fd p) (BUF_SIZE - buf_read_len (fds e ! pe_fd p)) = Some []"
  shows "check_entry y p e = None"
proof -
  have at: "bfd_at e (pe_fd p) = Some (fds e ! pe_fd p)" "fd_wf (fds e ! pe_fd p)" using bfd_at_wf assms(1,2) by auto
  from client_read_gone [OF assms(1,2)] assms(6) obtain s where
    "client_read y (pe_fd p) e = Some (put_out s (put_fd (pe_fd p) (clean_fd (fds e ! pe_fd p)) (close_fd (pe_fd p) e)))"
    by blast
  moreover have "length (fds e) = maxfd e" using assms(1) by (simp add: env_wf_def)
  ultimately show ?thesis using assms at
    by (auto simp: check_entry_def and_then_def call_fct_def flag_in_def flag_out_def fd_wf_def bfd_at_def clean_fd_def)
qed

text \<open>A descriptor that is used again keeps the unsent bytes of its last owner in front: the next
  message to the new owner sends those.\<close>

lemma srv_accept_run:
  assumes "env_wf e" "sys_accept y = int cs" "cs < maxfd e"
  shows "\<exists>e'. srv_accept y s e = Some (Inr e') \<and> env_wf e' \<and> maxfd e' = maxfd e \<and> fds e' = (fds e)[cs := (clean_fd (fds e ! cs))
    \<lparr>fd_type := FD_CLIENT, fct_read := Some Fct_client_read, fct_write := Some Fct_client_write\<rparr>]"
proof -
  let ?f = "(clean_fd (fds e ! cs))\<lparr>fd_type := FD_CLIENT, fct_read := Some Fct_client_read, fct_write := Some Fct_client_write\<rparr>"
  from bfd_at_wf [OF assms(1,3)] have f: "bfd_at e cs = Some (fds e ! cs)" "fd_wf (fds e ! cs)" by auto
  have "env_wf (put_fd cs ?f (put_out t e))" for t
    using assms(1) fd_wf_client [OF f(2)] by (auto simp: env_wf_def list_all_iff dest: set_update_subset_insert [THEN subsetD])
  with f(1) assms(2) show ?thesis by (simp add: srv_accept_def x_int_def)
qed

lemma deliver_stale:
  assumes "fd_wf f" "i \<noteq> sender" "length msg \<le> BUF_SIZE" "fd_type g = FD_CLIENT"
    and "buf_write g = buf_write f" "buf_write_len g = 0"
  shows "buf_write_len (deliver sender msg i g) = length msg"
    "take (length msg) (buf_write (deliver sender msg i g)) = take (length msg) (c_str (buf_write f) @ msg)"
proof -
  have "take n (take b x @ y) = take n x" if "n \<le> b" "n \<le> length x" for n b and x y :: string
    using that by simp
  from this [of "length msg" BUF_SIZE "c_str (buf_write f) @ msg"] assms
  show "take (length msg) (buf_write (deliver sender msg i g)) = take (length msg) (c_str (buf_write f) @ msg)"
    by (simp add: deliver_def del: take_append)
qed (use assms in \<open>simp add: deliver_def\<close>)

lemma accept_then_broadcast:
  assumes "env_wf e" "sys_ok y" "sys_accept y = int cs" "cs < maxfd e" "cs \<noteq> sender"
    and "NUL \<in> set b" "length (c_str b) \<le> BUF_SIZE - 2" "msg = c_str b @ CRLF"
  shows "\<exists>e1 e2. srv_accept y s e = Some (Inr e1) \<and> broadcast_message y sender b e1 = Some e2
    \<and> buf_write_len (fds e2 ! cs) = length msg
    \<and> take (length msg) (buf_write (fds e2 ! cs)) = take (length msg) (c_str (buf_write (fds e ! cs)) @ msg)"
proof -
  from srv_accept_run [OF assms(1,3,4), of s] obtain e1 where e1: "srv_accept y s e = Some (Inr e1)" "env_wf e1"
    "maxfd e1 = maxfd e" "fds e1 = (fds e)[cs := (clean_fd (fds e ! cs))
      \<lparr>fd_type := FD_CLIENT, fct_read := Some Fct_client_read, fct_write := Some Fct_client_write\<rparr>]" by blast
  have msg: "msg = take (BUF_SIZE - 1) (c_str b) @ CRLF" "length msg \<le> BUF_SIZE"
    using assms(7,8) by (simp_all add: BUF_SIZE_def)
  have stack: "length (sys_stack y) = BUF_SIZE + 3" using assms(2) by (simp add: sys_ok_def)
  from broadcast_message_run [OF e1(2) stack assms(6) msg(1), of sender] e1(3) assms(4) obtain e2 where
    e2: "broadcast_message y sender b e1 = Some e2" "fds e2 ! cs = deliver sender msg cs (fds e1 ! cs)" by auto
  have at: "fds e1 ! cs = (clean_fd (fds e ! cs))
      \<lparr>fd_type := FD_CLIENT, fct_read := Some Fct_client_read, fct_write := Some Fct_client_write\<rparr>"
    using e1(4) assms(1,4) by (simp add: env_wf_def)
  have wf: "fd_wf (fds e ! cs)" using bfd_at_wf [OF assms(1,4)] by simp
  note stale = deliver_stale [OF wf assms(5) msg(2), of "fds e1 ! cs"]
  from e1(1) e2 stale show ?thesis by (auto simp: at clean_fd_def)
qed

section \<open>Properties\<close>

text \<open>Tables with empty buffers, and a quiet operating system, to apply the properties to.\<close>

definition blank :: "fd_type \<Rightarrow> t_fd" where
  "blank t = \<lparr>fd_type = t,
     fct_read = (case t of FD_FREE \<Rightarrow> None | FD_SERV \<Rightarrow> Some Fct_srv_accept | FD_CLIENT \<Rightarrow> Some Fct_client_read),
     fct_write = (if t = FD_CLIENT then Some Fct_client_write else None),
     buf_read_len = 0, buf_read = replicate (BUF_SIZE + 1) NUL, buf_write_len = 0, buf_write = replicate (BUF_SIZE + 1) NUL\<rparr>"

definition desk :: "fd_type list \<Rightarrow> t_env" where
  "desk ts = \<lparr>fds = map blank ts, pollfds = [], maxfd = length ts, port = 6667, out_log = [], closed_fds = []\<rparr>"

definition still :: sys where
  "still = \<lparr>sys_accept = - 1, sys_peer = [], sys_recv = (\<lambda>_ n. Some (take n (''hi'' @ CRLF))), sys_send = (\<lambda>_ _. 0),
     sys_poll = (\<lambda>_. 0), sys_stack = replicate (BUF_SIZE + 3) NUL\<rparr>"

lemma blank_wf [simp]: "fd_wf (blank t)" "c_str (buf_write (blank t)) = []" "fd_type (blank t) = t"
  "buf_read_len (blank t) = 0" "pending (blank t) = []"
  by (auto simp: fd_wf_def blank_def c_str_def pending_def split: fd_type.splits)

lemma desk_wf [simp]: "env_wf (desk ts)" "maxfd (desk ts) = length ts" "fds (desk ts) = map blank ts"
  by (simp_all add: env_wf_def desk_def list_all_iff)

lemma still_ok [simp]: "sys_ok still"
  by (simp add: sys_ok_def still_def)

text \<open>C29: what a client sends is cut into lines at CR LF, and every line is offered, in order, to
  every other client's buffer; the unfinished rest stays in the read buffer.\<close>

theorem bircd_relays_lines:
  assumes "env_wf e" "cs < maxfd e" "sys_ok y"
    "sys_recv y cs (BUF_SIZE - buf_read_len (fds e ! cs)) = Some d" "d \<noteq> []" "buf_read_len (fds e ! cs) < BUF_SIZE"
  shows "\<exists>e'. client_read y cs e = Some e' \<and> lines_sent cs (fst (crlf_lines (pending (fds e ! cs) @ d))) e e'
    \<and> pending (fds e' ! cs) = snd (crlf_lines (pending (fds e ! cs) @ d))"
  by (rule client_read_data [OF assms])

theorem bircd_relays_lines_witness:
  "\<exists>e'. client_read still 1 (desk [FD_SERV, FD_CLIENT, FD_CLIENT]) = Some e'
     \<and> fds e' ! 2 = deliver 1 (''hi'' @ CRLF) 2 (blank FD_CLIENT)"
proof -
  let ?e = "desk [FD_SERV, FD_CLIENT, FD_CLIENT]"
  have lines: "crlf_lines (''hi'' @ CRLF) = ([''hi''], [])" by code_simp
  have msg: "line_message ''hi'' = ''hi'' @ CRLF" by code_simp
  have "sys_recv still 1 (BUF_SIZE - buf_read_len (fds ?e ! 1)) = Some (''hi'' @ CRLF)"
    by (simp add: still_def BUF_SIZE_def)
  from bircd_relays_lines [of ?e 1 still, OF _ _ _ this] obtain e' where
    "client_read still 1 ?e = Some e'" "lines_sent 1 [''hi''] ?e e'"
    using lines by (auto simp: BUF_SIZE_def)
  then show ?thesis by (auto simp: lines_sent_def msg)
qed

text \<open>C36: with more than 43 descriptors in use, \<open>init_fd\<close> does not return: \<open>continue\<close> repeats the
  iteration without advancing its index.\<close>

theorem init_fd_stuck:
  assumes "MAX_CLIENTS + 1 < length (in_use e)"
  shows "init_fd e = None"
proof (rule ccontr)
  assume "init_fd e \<noteq> None"
  then obtain e' where "init_fd_loop 0 (e\<lparr>pollfds := []\<rparr>) = Some e'" by (auto simp: init_fd_def)
  from init_fd_loop_fits [OF this] assms show False by (simp add: in_use_def used_def [abs_def])
qed

theorem init_fd_stuck_witness: "init_fd (desk (replicate 44 FD_CLIENT)) = None"
proof (rule init_fd_stuck)
  have "in_use (desk (replicate 44 FD_CLIENT)) = [0..<44]" by (simp add: in_use_def)
  then show "MAX_CLIENTS + 1 < length (in_use (desk (replicate 44 FD_CLIENT)))" by (simp add: MAX_CLIENTS_def)
qed

text \<open>C37: a client that closes its connection while the socket is writable makes \<open>check_fd\<close> call a
  null pointer: the read handler has just cleared \<open>fct_write\<close>.\<close>

theorem null_handler_called:
  assumes "env_wf e" "pe_fd p < maxfd e" "fd_type (fds e ! pe_fd p) = FD_CLIENT" "flag_in p" "flag_out p"
    "sys_recv y (pe_fd p) (BUF_SIZE - buf_read_len (fds e ! pe_fd p)) = Some []"
  shows "check_entry y p e = None"
  by (rule check_entry_null_call [OF assms])

theorem null_handler_called_witness:
  "check_entry (still\<lparr>sys_recv := (\<lambda>_ _. Some [])\<rparr>) \<lparr>pe_fd = 1, pe_events = 5, pe_revents = 5\<rparr> (desk [FD_SERV, FD_CLIENT]) = None"
  by (rule null_handler_called) (simp_all add: flag_in_def flag_out_def B_POLLIN_def B_POLLOUT_def)

text \<open>C38: a message for the next owner of a descriptor is appended to the bytes the previous owner
  left unsent, while only as many bytes as the message has are counted as waiting, and those are taken
  from the front: what \<open>client_write\<close> sends to the new owner begins with stale data.\<close>

theorem stale_bytes_delivered:
  assumes "env_wf e" "sys_ok y" "sys_accept y = int cs" "cs < maxfd e" "cs \<noteq> sender"
    and "NUL \<in> set b" "length (c_str b) \<le> BUF_SIZE - 2" "msg = c_str b @ CRLF"
  shows "\<exists>e1 e2. srv_accept y s e = Some (Inr e1) \<and> broadcast_message y sender b e1 = Some e2
    \<and> buf_write_len (fds e2 ! cs) = length msg
    \<and> take (length msg) (buf_write (fds e2 ! cs)) = take (length msg) (c_str (buf_write (fds e ! cs)) @ msg)"
  by (rule accept_then_broadcast [OF assms])

theorem stale_bytes_delivered_witness:
  "\<exists>e1 e2. srv_accept (still\<lparr>sys_accept := 2\<rparr>) 0 (put_fd 2 ((blank FD_FREE)\<lparr>buf_write := ''secret'' @ replicate 95 NUL\<rparr>)
       (desk [FD_SERV, FD_CLIENT, FD_FREE])) = Some (Inr e1)
     \<and> broadcast_message (still\<lparr>sys_accept := 2\<rparr>) 1 (''hi'' @ [NUL]) e1 = Some e2
     \<and> take 4 (buf_write (fds e2 ! 2)) = ''secr''"
proof -
  let ?f = "(blank FD_FREE)\<lparr>buf_write := ''secret'' @ replicate 95 NUL\<rparr>"
  let ?e = "put_fd 2 ?f (desk [FD_SERV, FD_CLIENT, FD_FREE])" and ?y = "still\<lparr>sys_accept := 2\<rparr>"
  have c: "c_str (buf_write ?f) = ''secret''" "c_str (''hi'' @ [NUL]) = ''hi''" by (simp_all add: c_str_def)
  have "fd_wf ?f" using blank_wf(1) [of FD_FREE] c(1) unfolding fd_wf_def by (simp add: BUF_SIZE_def)
  then have e: "env_wf ?e" by (simp add: env_wf_def list_all_iff numeral_2_eq_2)
  have y: "sys_ok ?y" "sys_accept ?y = int 2" by (simp_all add: sys_ok_def still_def)
  have at: "c_str (buf_write (fds ?e ! 2)) = ''secret''" using c(1) by simp
  from stale_bytes_delivered [OF e y, of 1 "''hi'' @ [NUL]" "''hi'' @ CRLF" 0, unfolded c(2) at]
  have "\<exists>e1 e2. srv_accept ?y 0 ?e = Some (Inr e1) \<and> broadcast_message ?y 1 (''hi'' @ [NUL]) e1 = Some e2
    \<and> buf_write_len (fds e2 ! 2) = 4 \<and> take 4 (buf_write (fds e2 ! 2)) = ''secr''"
    by (simp add: BUF_SIZE_def numeral_eq_Suc)
  then show ?thesis by blast
qed

end
