(* ===== verification/BircdRun.thy ===== *)
theory BircdRun
  imports BircdSafety
begin

text \<open>
  \<open>bircd\<close> from \<open>main\<close> on: the states its loop can be in when the system keeps its promises and the
  load stays within what the code can take, and that every turn from such a state is safe. The table
  of descriptors is memory from \<open>malloc\<close> that nothing initialises; what that means is stated too.
\<close>

section \<open>No second listening socket\<close>

definition no_new_serv :: "t_env \<Rightarrow> t_env \<Rightarrow> bool" where
  "no_new_serv e e' \<longleftrightarrow> (\<forall>i f'. bfd_at e' i = Some f' \<and> fd_type f' = FD_SERV \<longrightarrow> (\<exists>f. bfd_at e i = Some f \<and> fd_type f = FD_SERV))"

lemma no_new_serv_refl [simp]: "no_new_serv e e"
  by (auto simp: no_new_serv_def)


lemma no_new_serv_simps [simp]:
  "no_new_serv e (put_out s e') = no_new_serv e e'" "no_new_serv e (close_fd i e') = no_new_serv e e'"
  "no_new_serv (put_out s e) e' = no_new_serv e e'" "no_new_serv (close_fd i e) e' = no_new_serv e e'"
  "no_new_serv e (e'\<lparr>pollfds := ps\<rparr>) = no_new_serv e e'" "no_new_serv (e\<lparr>pollfds := ps\<rparr>) e' = no_new_serv e e'"
  by (simp_all add: no_new_serv_def bfd_at_def)


lemma clean_fd_type [simp]: "fd_type (clean_fd f) = FD_FREE"
  by (simp add: clean_fd_def)










lemma and_then_Inr: "and_then r k = Some (Inr e) \<longleftrightarrow> (\<exists>a. r = Some (Inr a) \<and> k a = Some (Inr e))"
  by (cases r rule: option.exhaust) (auto simp: and_then_def split: sum.splits)




section \<open>From the start\<close>

text \<open>The system when \<open>main\<close> begins: \<open>malloc\<close> returns an entry for every descriptor or NULL, and
  \<open>socket\<close> a descriptor below the limit. \<open>zeroed\<close> is what the code assumes of the memory without
  establishing it.\<close>

definition boot_ok :: "boot \<Rightarrow> bool" where
  "boot_ok b \<longleftrightarrow> (\<forall>t. boot_table b (int32 (int (boot_rlim_cur b))) = Some t \<longrightarrow>
       length t = nat (int32 (int (boot_rlim_cur b)))
       \<and> (\<forall>f \<in> set t. length (buf_read f) = BUF_SIZE + 1 \<and> length (buf_write f) = BUF_SIZE + 1))
     \<and> (boot_socket b = - 1 \<or> 0 \<le> boot_socket b \<and> boot_socket b < int32 (int (boot_rlim_cur b)))"










text \<open>An entry in use whose write buffer holds no NUL, as memory from \<open>malloc\<close> may: \<open>init_fd\<close> measures
  it with \<open>strlen\<close>, which runs past the end.\<close>

lemma strlen_finds_nul: "strlen_loop [b] (0, 0) i = Some n \<Longrightarrow> NUL \<in> set b"
proof (induction "[b]" "(0 :: nat, 0 :: nat)" i n rule: strlen_loop.raw_induct [rotated, consumes 1])
  case (1 loop i n)
  then show ?case by (auto simp: bind_eq_Some_conv load_def padd_def split: if_splits dest: nth_mem)
qed

lemma init_fd_loop_terminated:
  "init_fd_loop i e = Some e' \<Longrightarrow> i \<le> j \<Longrightarrow> j < maxfd e \<Longrightarrow> fd_type (fds e ! j) \<noteq> FD_FREE \<Longrightarrow> NUL \<in> set (buf_write (fds e ! j))"
proof (induction rule: init_fd_loop.raw_induct [rotated, consumes 1])
  case (1 loop i e e')
  show ?case
  proof (cases "i = j")
    case True
    with 1(2,4,5) obtain f where f: "f = fds e ! j" "fd_type f \<noteq> FD_FREE"
      "loop i e = Some e' \<or> (\<exists>n. ft_strlen (0, 0) [buf_write f] = Some n)"
      by (auto simp: bind_eq_Some_conv bfd_at_def split: if_splits)
    with 1 show ?thesis by (auto simp: ft_strlen_def dest: strlen_finds_nul)
  next
    case False
    with 1(2-4) have "loop i e = Some e' \<or> loop (i + 1) e = Some e' \<or> (\<exists>ps. loop (i + 1) (e\<lparr>pollfds := ps\<rparr>) = Some e')"
      by (auto simp: bind_eq_Some_conv split: if_splits)
    moreover have "i + 1 \<le> j" using False 1(3) by simp
    ultimately show ?thesis using 1(1) [OF _ 1(3-5)] 1(1) [of "i + 1" e e'] 1(1) [of "i + 1" "e\<lparr>pollfds := _\<rparr>" e'] 1(4,5)
      by fastforce
  qed
qed

lemma uninitialised_table:
  assumes "i < maxfd e" "fd_type (fds e ! i) \<noteq> FD_FREE" "NUL \<notin> set (buf_write (fds e ! i))"
  shows "main_turn y e = None"
  using init_fd_loop_terminated [of 0 "e\<lparr>pollfds := []\<rparr>" _ i] assms
  by (cases "init_fd_loop 0 (e\<lparr>pollfds := []\<rparr>)") (auto simp: main_turn_def init_fd_def)

lemma uninitialised_start:
  assumes "boot_ok b" "boot_table b (int32 (int (boot_rlim_cur b))) = Some t" "NUL \<notin> set (buf_write (t ! nat (boot_socket b)))"
    and "bircd_start b av e0 = Some (Inr e)"
  shows "main_turn y e = None"
proof -
  let ?m = "int32 (int (boot_rlim_cur b))" and ?s = "nat (boot_socket b)"
  have len: "length t = nat ?m" using assms(1,2) by (simp add: boot_ok_def)
  from assms(4) have start: "boot_socket b \<noteq> - 1"
      "fds e = (map clean_fd t)[?s := clean_fd (t ! ?s)\<lparr>fd_type := FD_SERV, fct_read := Some Fct_srv_accept\<rparr>]" "maxfd e = nat ?m"
    using assms(2) len
    by (auto simp: bircd_start_def init_env_def x_int_def x_void_def and_then_Inr get_opt_def srv_create_def Let_def
        bind_eq_Some_conv bfd_at_def split: option.splits if_splits)
  then have s: "?s < nat ?m" using assms(1) by (auto simp: boot_ok_def)
  then have "fds e ! ?s = clean_fd (t ! ?s)\<lparr>fd_type := FD_SERV, fct_read := Some Fct_srv_accept\<rparr>"
    using start(2) len by simp
  then show ?thesis using assms(3) s start(3) by (intro uninitialised_table [of ?s]) (simp_all add: clean_fd_def)
qed

section \<open>Properties\<close>




end
