(* ===== verification/MiniServ.thy ===== *)
theory MiniServ
  imports LibftConv Framing
begin

text \<open>
  The exam server \<open>src/bircd/exam06_miniserv/mini_serv.c\<close>. Its two buffer functions
  \<open>str_join\<close> and \<open>extract_message\<close> are modelled on the memory of \<open>CMemory\<close>; the
  handlers work on the strings the buffers hold (\<open>None\<close> for a null pointer), through
  \<open>join_value\<close> and \<open>extract_value\<close>, which the two functions are shown to implement. Every write
  into a buffer, on the stack or from \<open>malloc\<close>, is checked against the size the code gives it.
  \<open>fatal\<close> is the result \<open>Inl 1\<close>. \<open>None\<close> is a write beyond a buffer, a descriptor outside a
  \<open>fd_set\<close>, the overflow of an \<open>int\<close>, or a null pointer that is read.
\<close>

section \<open>The string functions of the C library\<close>

partial_function (option) c_strcpy :: "ptr \<Rightarrow> ptr \<Rightarrow> cmem \<Rightarrow> cmem option" where
  "c_strcpy dst src m = do {
     c \<leftarrow> load m src;
     m1 \<leftarrow> store dst c m;
     if c = NUL then Some m1 else c_strcpy (padd dst 1) (padd src 1) m1
   }"

definition c_strcat :: "ptr \<Rightarrow> ptr \<Rightarrow> cmem \<Rightarrow> cmem option" where
  "c_strcat dst src m = do { n \<leftarrow> ft_strlen dst m; c_strcpy (padd dst n) src m }"

definition c_free :: "ptr option \<Rightarrow> cmem \<Rightarrow> cmem option" where
  "c_free p m = (case p of None \<Rightarrow> Some m | Some p \<Rightarrow> free p m)"

section \<open>Buffers\<close>

definition str_join :: "allocator \<Rightarrow> ptr option \<Rightarrow> ptr \<Rightarrow> cmem \<Rightarrow> (ptr option \<times> cmem) option" where
  "str_join alloc buf add m = do {
     len \<leftarrow> (case buf of None \<Rightarrow> Some 0 | Some b \<Rightarrow> ft_strlen b m);
     n \<leftarrow> ft_strlen add m;
     case malloc alloc (len + n + 1) m of
       (None, m1) \<Rightarrow> Some (None, m1)
     | (Some newbuf, m1) \<Rightarrow> do {
         m2 \<leftarrow> store newbuf NUL m1;
         m3 \<leftarrow> (case buf of None \<Rightarrow> Some m2 | Some b \<Rightarrow> c_strcat newbuf b m2);
         m4 \<leftarrow> c_free buf m3;
         m5 \<leftarrow> c_strcat newbuf add m4;
         Some (Some newbuf, m5)
       }
   }"

text \<open>The result: the returned code, the new \<open>*buf\<close>, the new \<open>*msg\<close> and the memory.\<close>

partial_function (option) extract_loop ::
    "allocator \<Rightarrow> ptr \<Rightarrow> nat \<Rightarrow> cmem \<Rightarrow> (int \<times> ptr option \<times> ptr option \<times> cmem) option" where
  "extract_loop alloc b i m = do {
     c \<leftarrow> load m (padd b i);
     if c = NUL then Some (0, Some b, None, m)
     else if c = LF then do {
       n \<leftarrow> ft_strlen (padd b (i + 1)) m;
       (r, m1) \<leftarrow> ft_calloc alloc 1 (n + 1) m;
       case r of
         None \<Rightarrow> Some (- 1, Some b, None, m1)
       | Some newbuf \<Rightarrow> do {
           m2 \<leftarrow> c_strcpy newbuf (padd b (i + 1)) m1;
           m3 \<leftarrow> store (padd b (i + 1)) NUL m2;
           Some (1, Some newbuf, Some b, m3)
         }
     }
     else extract_loop alloc b (i + 1) m
   }"

definition extract_message ::
    "allocator \<Rightarrow> ptr option \<Rightarrow> cmem \<Rightarrow> (int \<times> ptr option \<times> ptr option \<times> cmem) option" where
  "extract_message alloc buf m = (case buf of
     None \<Rightarrow> Some (0, None, None, m)
   | Some b \<Rightarrow> extract_loop alloc b 0 m)"

text \<open>The same on the strings.\<close>

definition join_value :: "string option \<Rightarrow> string \<Rightarrow> string" where
  "join_value buf add = (case buf of None \<Rightarrow> [] | Some b \<Rightarrow> b) @ add"

definition extract_value :: "string \<Rightarrow> (string \<times> string) option" where
  "extract_value s = (if LF \<in> set s
     then Some (takeWhile (\<lambda>c. c \<noteq> LF) s @ [LF], tl (dropWhile (\<lambda>c. c \<noteq> LF) s)) else None)"

section \<open>State and handlers\<close>

definition FD_SETSIZE :: nat where "FD_SETSIZE = 1024"

record ms_state =
  g_sockfd :: nat
  g_active :: "nat \<Rightarrow> bool"
  g_maxfd :: nat
  g_ids :: "nat \<Rightarrow> int"
  g_next_id :: int
  g_rbuf :: "nat \<Rightarrow> string option"
  g_wbuf :: "nat \<Rightarrow> string option"
  ms_closed :: "nat list"

text \<open>\<open>ms_malloc n\<close>: an allocation of \<open>n\<close> bytes succeeds.\<close>

record ms_sys =
  ms_malloc :: "nat \<Rightarrow> bool"
  ms_accept :: int
  ms_recv :: "nat \<Rightarrow> string option"
  ms_send :: "nat \<Rightarrow> string \<Rightarrow> int"
  ms_select :: "(nat \<Rightarrow> bool) \<Rightarrow> (nat \<Rightarrow> bool) \<Rightarrow> ((nat \<Rightarrow> bool) \<times> (nat \<Rightarrow> bool)) option"

type_synonym 'a ms_run = "(int + 'a) option"

definition ms_fatal :: "'a ms_run" where
  "ms_fatal = Some (Inl 1)"

definition ms_bind :: "'a ms_run \<Rightarrow> ('a \<Rightarrow> 'b ms_run) \<Rightarrow> 'b ms_run" where
  "ms_bind r k = do { x \<leftarrow> r; case x of Inl code \<Rightarrow> Some (Inl code) | Inr a \<Rightarrow> k a }"

definition isset :: "ms_state \<Rightarrow> nat \<Rightarrow> bool option" where
  "isset s fd = (if fd < FD_SETSIZE then Some (g_active s fd) else None)"

text \<open>Writing a string and its terminator into an object of \<open>room\<close> bytes; a length that is stored in
  an \<open>int\<close>; and \<open>str_join\<close> on strings, where the inner \<open>None\<close> is the null pointer it returns.\<close>

definition c_put :: "nat \<Rightarrow> string \<Rightarrow> string option" where
  "c_put room text = (if length text < room then Some text else None)"

definition int_len :: "string \<Rightarrow> nat option" where
  "int_len s = (if int (length s) \<le> INT_MAX then Some (length s) else None)"

definition join_strings :: "ms_sys \<Rightarrow> string option \<Rightarrow> string \<Rightarrow> string option option" where
  "join_strings y buf add = do {
     len \<leftarrow> (case buf of None \<Rightarrow> Some 0 | Some b \<Rightarrow> int_len b);
     let room = len + length add + 1;
     if ms_malloc y room then do { newbuf \<leftarrow> c_put room (join_value buf add); Some (Some newbuf) }
     else Some None
   }"

primrec send_all_loop :: "ms_sys \<Rightarrow> nat \<Rightarrow> string \<Rightarrow> nat list \<Rightarrow> ms_state \<Rightarrow> ms_state ms_run" where
  "send_all_loop y except msg [] s = Some (Inr s)"
| "send_all_loop y except msg (fd # fds) s = do {
     a \<leftarrow> isset s fd;
     if a \<and> fd \<noteq> except \<and> fd \<noteq> g_sockfd s then
       do {
         r \<leftarrow> join_strings y (g_wbuf s fd) msg;
         case r of None \<Rightarrow> ms_fatal
         | Some w \<Rightarrow> send_all_loop y except msg fds (s\<lparr>g_wbuf := (g_wbuf s)(fd := Some w)\<rparr>)
       }
     else send_all_loop y except msg fds s
   }"

definition send_all :: "ms_sys \<Rightarrow> nat \<Rightarrow> string \<Rightarrow> ms_state \<Rightarrow> ms_state ms_run" where
  "send_all y except msg s = send_all_loop y except msg [0..<g_maxfd s + 1] s"

definition arrived_text :: "int \<Rightarrow> string" where
  "arrived_text i = ''server: client '' @ int_to_string i @ '' just arrived'' @ [LF]"

definition left_text :: "int \<Rightarrow> string" where
  "left_text i = ''server: client '' @ int_to_string i @ '' just left'' @ [LF]"

definition accept_client :: "ms_sys \<Rightarrow> ms_state \<Rightarrow> ms_state ms_run" where
  "accept_client y s =
     (if ms_accept y < 0 then Some (Inr s)
      else (let connfd = nat (ms_accept y) in
        if \<not> connfd < FD_SETSIZE then None
        else if g_next_id s = INT_MAX then None
        else (let s1 = s\<lparr>g_ids := (g_ids s)(connfd := g_next_id s), g_next_id := g_next_id s + 1,
                g_active := (g_active s)(connfd := True),
                g_maxfd := (if g_maxfd s < connfd then connfd else g_maxfd s)\<rparr>
          in do { msg \<leftarrow> c_put 64 (arrived_text (g_ids s1 connfd)); send_all y connfd msg s1 })))"

definition line_text :: "int \<Rightarrow> string \<Rightarrow> string" where
  "line_text i line = ''client '' @ int_to_string i @ '': '' @ line"

text \<open>The size of the buffer for \<open>line_text\<close>: \<open>sizeof("client %d: ")\<close> is 12.\<close>

definition line_room :: "string \<Rightarrow> nat" where
  "line_room line = length line + 12 + 32"

partial_function (option) message_loop :: "ms_sys \<Rightarrow> nat \<Rightarrow> ms_state \<Rightarrow> ms_state ms_run" where
  "message_loop y fd s = (case g_rbuf s fd of
     None \<Rightarrow> Some (Inr s)
   | Some buf \<Rightarrow> Option.bind (int_len buf) (\<lambda>_. case extract_value buf of
       None \<Rightarrow> Some (Inr s)
     | Some (line, rest) \<Rightarrow>
         (if \<not> ms_malloc y (length rest + 1) then ms_fatal
          else Option.bind (c_put (length rest + 1) rest) (\<lambda>newbuf.
            if \<not> ms_malloc y (line_room line) then ms_fatal
            else Option.bind (c_put (line_room line) (line_text (g_ids s fd) line)) (\<lambda>out.
              Option.bind (send_all y fd out (s\<lparr>g_rbuf := (g_rbuf s)(fd := Some newbuf)\<rparr>)) (\<lambda>r.
                case r of Inl code \<Rightarrow> Some (Inl code) | Inr s1 \<Rightarrow> message_loop y fd s1))))))"

text \<open>\<open>buf\<close> has 4097 bytes and \<open>msg\<close> 64.\<close>

definition handle_client_ms :: "ms_sys \<Rightarrow> nat \<Rightarrow> ms_state \<Rightarrow> ms_state ms_run" where
  "handle_client_ms y fd s = (case ms_recv y fd of
     None \<Rightarrow> do {
       msg \<leftarrow> c_put 64 (left_text (g_ids s fd));
       send_all y fd msg
         (s\<lparr>g_rbuf := (g_rbuf s)(fd := None), g_wbuf := (g_wbuf s)(fd := None),
            g_active := (g_active s)(fd := False), ms_closed := ms_closed s @ [fd]\<rparr>)
     }
   | Some bytes \<Rightarrow> do {
       buf \<leftarrow> c_put 4097 bytes;
       r \<leftarrow> join_strings y (g_rbuf s fd) (c_str buf);
       case r of None \<Rightarrow> ms_fatal
       | Some rbuf \<Rightarrow> message_loop y fd (s\<lparr>g_rbuf := (g_rbuf s)(fd := Some rbuf)\<rparr>)
     })"

definition flush_client :: "ms_sys \<Rightarrow> nat \<Rightarrow> ms_state \<Rightarrow> ms_state ms_run" where
  "flush_client y fd s = do {
     w \<leftarrow> g_wbuf s fd;
     len \<leftarrow> int_len w;
     let n = ms_send y fd w;
     if n \<le> 0 then Some (Inr s)
     else if nat n = len then Some (Inr (s\<lparr>g_wbuf := (g_wbuf s)(fd := None)\<rparr>))
     else if len < nat n then None
     else if \<not> ms_malloc y (len - nat n + 1) then ms_fatal
     else do {
       rest \<leftarrow> c_put (len - nat n + 1) (drop (nat n) w);
       Some (Inr (s\<lparr>g_wbuf := (g_wbuf s)(fd := Some rest)\<rparr>))
     }
   }"

text \<open>\<open>main\<close> before its loop: its arguments and the results of \<open>socket\<close>, \<open>bind\<close> (which depends on the
  port) and \<open>listen\<close>. Every failure ends with status 1.\<close>

definition ms_start :: "string list \<Rightarrow> int \<Rightarrow> (int \<Rightarrow> int) \<Rightarrow> int \<Rightarrow> ms_state ms_run" where
  "ms_start argv sock bind_res listen_res =
     (if length argv < 2 then Some (Inl 1)
      else (let portnbr = c_atoi (c_str (argv ! 1)) in
        if sock = - 1 then ms_fatal
        else if bind_res (portnbr mod 65536) \<noteq> 0 then ms_fatal
        else if listen_res \<noteq> 0 then ms_fatal
        else if \<not> nat sock < FD_SETSIZE then None
        else Some (Inr \<lparr>g_sockfd = nat sock, g_active = (\<lambda>fd. fd = nat sock), g_maxfd = nat sock, g_ids = (\<lambda>_. 0),
          g_next_id = 0, g_rbuf = (\<lambda>_. None), g_wbuf = (\<lambda>_. None), ms_closed = []\<rparr>)))"

text \<open>One turn of the loop in \<open>main\<close>. The bound \<open>g_maxfd\<close> is read again for every descriptor.\<close>

definition ms_visit :: "ms_sys \<Rightarrow> (nat \<Rightarrow> bool) \<Rightarrow> (nat \<Rightarrow> bool) \<Rightarrow> nat \<Rightarrow> ms_state \<Rightarrow> ms_state ms_run" where
  "ms_visit y rfds wfds fd s = ms_bind
     (if rfds fd then (if fd = g_sockfd s then accept_client y s else handle_client_ms y fd s) else Some (Inr s))
     (\<lambda>s1. do { a \<leftarrow> isset s1 fd; if wfds fd \<and> a then flush_client y fd s1 else Some (Inr s1) })"

partial_function (option) ms_scan ::
    "ms_sys \<Rightarrow> (nat \<Rightarrow> bool) \<Rightarrow> (nat \<Rightarrow> bool) \<Rightarrow> nat \<Rightarrow> ms_state \<Rightarrow> ms_state ms_run" where
  "ms_scan y rfds wfds fd s =
     (if fd \<le> g_maxfd s then do {
        r \<leftarrow> ms_visit y rfds wfds fd s;
        case r of Inl code \<Rightarrow> Some (Inl code) | Inr s1 \<Rightarrow> ms_scan y rfds wfds (fd + 1) s1
      } else Some (Inr s))"

definition ms_turn :: "ms_sys \<Rightarrow> ms_state \<Rightarrow> ms_state ms_run" where
  "ms_turn y s = (case ms_select y (g_active s) (\<lambda>fd. fd \<le> g_maxfd s \<and> g_active s fd \<and> g_wbuf s fd \<noteq> None) of
     None \<Rightarrow> ms_fatal
   | Some (rfds, wfds) \<Rightarrow> ms_scan y rfds wfds 0 s)"

text \<open>The loop, for the turns the environment decides, and the whole of \<open>main\<close>.\<close>

primrec ms_loop :: "ms_sys list \<Rightarrow> ms_state \<Rightarrow> ms_state ms_run" where
  "ms_loop [] s = Some (Inr s)"
| "ms_loop (y # ys) s = ms_bind (ms_turn y s) (ms_loop ys)"

definition ms_main :: "string list \<Rightarrow> int \<Rightarrow> (int \<Rightarrow> int) \<Rightarrow> int \<Rightarrow> ms_sys list \<Rightarrow> ms_state ms_run" where
  "ms_main argv sock bind_res listen_res ys = ms_bind (ms_start argv sock bind_res listen_res) (ms_loop ys)"

section \<open>The buffer functions implement their values\<close>

lemma c_strcpy_run:
  assumes "c_string m src s" "b \<noteq> fst src" "b < length m" "d + length s < length (m ! b)"
  shows "c_strcpy (b, d) src m = Some (m[b := take d (m ! b) @ s @ NUL # drop (Suc (d + length s)) (m ! b)])"
  using assms
proof (induction s arbitrary: m src d)
  case Nil
  then show ?case by (subst c_strcpy.simps) (simp add: upd_conv_take_nth_drop)
next
  case (Cons c s)
  let ?m = "m[b := (m ! b)[d := c]]"
  have "c_strcpy (b, d) src m = c_strcpy (b, d + 1) (padd src 1) ?m"
    using Cons.prems by (subst c_strcpy.simps) simp
  also have "\<dots> = Some (?m[b := take (d + 1) (?m ! b) @ s @ NUL # drop (Suc (d + 1 + length s)) (?m ! b)])"
    using Cons.prems by (intro Cons.IH) (auto simp: c_string_other)
  also have "take (d + 1) (?m ! b) @ s @ NUL # drop (Suc (d + 1 + length s)) (?m ! b)
      = take d (m ! b) @ (c # s) @ NUL # drop (Suc (d + length (c # s))) (m ! b)"
    using Cons.prems by (simp add: take_Suc_conv_app_nth)
  finally show ?case by simp
qed

text \<open>Appending to the string \<open>t\<close> in the last object.\<close>

lemma c_strcat_last:
  assumes "c_string m p s" "NUL \<notin> set t" "length z = length s"
  shows "c_strcat (length m, 0) p (m @ [t @ NUL # z @ rest]) = Some (m @ [t @ s @ NUL # rest])"
proof -
  let ?m = "m @ [t @ NUL # z @ rest]"
  have "c_string ?m (length m, 0) t" using assms(2) by (intro c_string_bytes) auto
  then have "c_strcat (length m, 0) p ?m = c_strcpy (length m, length t) p ?m" by (simp add: c_strcat_def)
  also have "\<dots> = Some (?m[length m := take (length t) (?m ! length m) @ s @ NUL # drop (Suc (length t + length s)) (?m ! length m)])"
    using assms c_string_object [OF assms(1)] by (intro c_strcpy_run) auto
  finally show ?thesis using assms(3) by simp
qed

lemma split_object: "length b = n + k \<Longrightarrow> \<exists>z rest. b = z @ rest \<and> length z = n \<and> length rest = k"
  by (rule exI [of _ "take n b"], rule exI [of _ "drop n b"]) simp

lemma str_join_new:
  assumes "malloc_spec alloc" "c_string m q t"
  shows "str_join alloc None q m = Some (case alloc (length m) (length t + 1) of
      None \<Rightarrow> (None, m) | Some _ \<Rightarrow> (Some (length m, 0), m @ [join_value None t @ [NUL]]))"
proof (cases rule: malloc_cases [OF assms(1), of "length t + 1" m])
  case 1
  then show ?thesis using assms(2) by (simp add: str_join_def)
next
  case (2 b)
  then obtain c z where b: "b = c # z" "length z = length t" by (cases b) auto
  have "c_strcat (length m, 0) q (m @ [[] @ NUL # z @ []]) = Some (m @ [[] @ t @ NUL # []])"
    using assms(2) b(2) by (intro c_strcat_last) auto
  with 2 b assms(2) show ?thesis by (simp add: str_join_def c_free_def store_def join_value_def)
qed

lemma str_join_old:
  assumes "malloc_spec alloc" "c_string m q t" "c_string m (p, 0) s" "p \<noteq> fst q"
  shows "str_join alloc (Some (p, 0)) q m = Some (case alloc (length m) (length s + length t + 1) of
      None \<Rightarrow> (None, m) | Some _ \<Rightarrow> (Some (length m, 0), m[p := []] @ [join_value (Some s) t @ [NUL]]))"
proof (cases rule: malloc_cases [OF assms(1), of "length s + length t + 1" m])
  case 1
  then show ?thesis using assms(2,3) by (simp add: str_join_def)
next
  case (2 b)
  then obtain c zs where "b = c # zs" "length zs = length s + length t" by (cases b) auto
  with split_object [of zs "length s" "length t"] obtain z r where
    b: "b = c # z @ r" "length z = length s" "length r = length t" by auto
  have p: "p < length m" "m ! p \<noteq> []" using c_string_object [OF assms(3)] by auto
  have "c_strcat (length m, 0) (p, 0) (m @ [[] @ NUL # z @ r]) = Some (m @ [[] @ s @ NUL # r])"
    using assms(3) b(2) by (intro c_strcat_last) auto
  moreover have "c_string (m[p := []]) q t" using assms(2,4) by (simp add: c_string_other)
  then have "c_strcat (length (m[p := []]), 0) q (m[p := []] @ [s @ NUL # r @ []]) = Some (m[p := []] @ [s @ t @ NUL # []])"
    using c_string_no_NUL [OF assms(3)] b(3) by (intro c_strcat_last) auto
  moreover have "free (p, 0) (m @ [s @ NUL # r]) = Some (m[p := []] @ [s @ NUL # r])"
    using p by (simp add: free_def nth_append list_update_append)
  ultimately show ?thesis using 2 b assms(2,3)
    by (simp add: str_join_def c_free_def store_def join_value_def)
qed

lemma extract_loop_none:
  "c_string m (padd b i) s \<Longrightarrow> LF \<notin> set s \<Longrightarrow> extract_loop alloc b i m = Some (0, Some b, None, m)"
  by (induction s arbitrary: i; subst extract_loop.simps) auto

lemma extract_loop_skip:
  "c_string m (padd b i) (t @ LF # s) \<Longrightarrow> LF \<notin> set t \<Longrightarrow> extract_loop alloc b i m = extract_loop alloc b (i + length t) m"
proof (induction t arbitrary: i)
  case (Cons c t)
  then have "extract_loop alloc b i m = extract_loop alloc b (i + 1) m" by (subst extract_loop.simps) auto
  with Cons.IH [of "i + 1"] Cons.prems show ?case by simp
qed simp

lemma extract_message_line:
  assumes "malloc_spec alloc" "c_string m (b, 0) (t @ LF # s)" "LF \<notin> set t" "length s < SIZE_T_MAX"
  shows "extract_message alloc (Some (b, 0)) m = Some (case alloc (length m) (length s + 1) of
      None \<Rightarrow> (- 1, Some (b, 0), None, m)
    | Some _ \<Rightarrow> (1, Some (length m, 0), Some (b, 0), m[b := (m ! b)[length t + 1 := NUL]] @ [s @ [NUL]]))"
proof -
  have at: "load m (padd (b, 0) (length t)) = Some LF" using load_c_string [OF assms(2), of "length t"] by simp
  have rest: "c_string m (padd (b, 0) (length t + 1)) s" using c_string_suffix [OF assms(2), of "length t + 1"] by simp
  have "ft_calloc alloc 1 (length s + 1) m = Some (case alloc (length m) (1 * (length s + 1)) of
      None \<Rightarrow> (None, m) | Some _ \<Rightarrow> (Some (length m, 0), m @ [replicate (1 * (length s + 1)) NUL]))"
    using assms(1,4) by (intro ft_calloc_run) auto
  moreover have "c_strcpy (length m, 0) (padd (b, 0) (length t + 1)) (m @ [replicate (length s + 1) NUL])
      = Some (m @ [s @ [NUL]])"
    using rest c_string_object [OF assms(2)] by (subst c_strcpy_run [where s = s]) auto
  moreover have "b < length m" "length t + 1 < length (m ! b)" using c_string_object [OF assms(2)] by auto
  then have "store (padd (b, 0) (length t + 1)) NUL (m @ [s @ [NUL]])
      = Some (m[b := (m ! b)[length t + 1 := NUL]] @ [s @ [NUL]])"
    by (simp add: store_def nth_append list_update_append)
  ultimately have "extract_loop alloc (b, 0) (length t) m = Some (case alloc (length m) (length s + 1) of
      None \<Rightarrow> (- 1, Some (b, 0), None, m)
    | Some _ \<Rightarrow> (1, Some (length m, 0), Some (b, 0), m[b := (m ! b)[length t + 1 := NUL]] @ [s @ [NUL]]))"
    using at rest by (subst extract_loop.simps) (simp split: option.splits)
  then show ?thesis using extract_loop_skip [of m "(b, 0)" 0 t s alloc] assms(2,3) by (simp add: extract_message_def)
qed

section \<open>Broadcasting\<close>

definition receives :: "ms_state \<Rightarrow> nat \<Rightarrow> nat \<Rightarrow> bool" where
  "receives s except fd \<longleftrightarrow> fd \<le> g_maxfd s \<and> g_active s fd \<and> fd \<noteq> except \<and> fd \<noteq> g_sockfd s"

definition queue :: "string list \<Rightarrow> string option \<Rightarrow> string option" where
  "queue msgs w = fold (\<lambda>msg w. Some (join_value w msg)) msgs w"

lemma queue_simps [simp]: "queue [] w = w" "queue (m # ms) w = queue ms (Some (join_value w m))"
    "queue (ms @ ms') w = queue ms' (queue ms w)"
  by (simp_all add: queue_def)

lemma queue_content: "msgs \<noteq> [] \<Longrightarrow> queue msgs w = Some (join_value w (concat msgs))"
proof (induction msgs arbitrary: w)
  case (Cons m ms)
  show ?case
  proof (cases "ms = []")
    case False
    from Cons.IH [OF False, of "Some (join_value w m)"] show ?thesis by (simp add: join_value_def)
  qed simp
qed simp

definition queued :: "ms_state \<Rightarrow> nat \<Rightarrow> string list \<Rightarrow> ms_state" where
  "queued s except msgs = s\<lparr>g_wbuf := \<lambda>fd. if receives s except fd then queue msgs (g_wbuf s fd) else g_wbuf s fd\<rparr>"

lemma queued_simps [simp]: "queued s x [] = s" "queued (queued s x ms) x ms' = queued s x (ms @ ms')"
  by (auto simp: queued_def receives_def intro!: ms_state.equality)

text \<open>\<open>malloc\<close> gives every size an \<open>int\<close> can hold, and no buffer outgrows it.\<close>

definition ample :: "ms_sys \<Rightarrow> bool" where
  "ample y \<longleftrightarrow> (\<forall>n. int n \<le> INT_MAX \<longrightarrow> ms_malloc y n)"

definition sized :: "string \<Rightarrow> bool" where
  "sized b \<longleftrightarrow> int (length b) < INT_MAX"

definition roomy :: "ms_state \<Rightarrow> nat \<Rightarrow> string list \<Rightarrow> bool" where
  "roomy s except msgs \<longleftrightarrow> (\<forall>fd. receives s except fd \<longrightarrow> sized (join_value (g_wbuf s fd) (concat msgs)))"

lemma join_strings_run: "ample y \<Longrightarrow> sized (join_value buf add) \<Longrightarrow> join_strings y buf add = Some (Some (join_value buf add))"
  by (cases buf) (auto simp: join_strings_def ample_def sized_def int_len_def c_put_def join_value_def)

lemma roomy_first: "roomy s x (m # ms) \<Longrightarrow> roomy s x [m]"
  by (fastforce simp: roomy_def sized_def join_value_def)

lemma roomy_rest: "roomy s x (m # ms) \<Longrightarrow> roomy (queued s x [m]) x ms"
  by (auto simp: roomy_def queued_def receives_def join_value_def)

lemma roomy_append: "roomy s x (ms @ ms') \<Longrightarrow> roomy s x ms \<and> roomy (queued s x ms) x ms'"
proof (induction ms arbitrary: s)
  case Nil
  then show ?case by (auto simp: roomy_def sized_def join_value_def split: option.splits)
next
  case (Cons m ms)
  have first: "roomy s x (m # ms)" using Cons.prems by (fastforce simp: roomy_def sized_def join_value_def)
  from Cons.IH [OF roomy_rest [of s x m "ms @ ms'"]] Cons.prems have "roomy (queued (queued s x [m]) x ms) x ms'" by simp
  with first show ?case by simp
qed

lemma send_all_loop_run:
  "ample y \<Longrightarrow> \<forall>fd \<in> set fds. fd < FD_SETSIZE \<Longrightarrow> distinct fds \<Longrightarrow>
     \<forall>fd \<in> set fds. g_active s fd \<and> fd \<noteq> except \<and> fd \<noteq> g_sockfd s \<longrightarrow> sized (join_value (g_wbuf s fd) msg) \<Longrightarrow>
     send_all_loop y except msg fds s = Some (Inr (s\<lparr>g_wbuf := \<lambda>fd.
       if fd \<in> set fds \<and> g_active s fd \<and> fd \<noteq> except \<and> fd \<noteq> g_sockfd s
       then Some (join_value (g_wbuf s fd) msg) else g_wbuf s fd\<rparr>))"
  by (induction fds arbitrary: s) (auto simp: isset_def join_strings_run intro!: ms_state.equality)

lemma send_all_run:
  "ample y \<Longrightarrow> g_maxfd s < FD_SETSIZE \<Longrightarrow> roomy s except [msg] \<Longrightarrow>
     send_all y except msg s = Some (Inr (queued s except [msg]))"
  by (auto simp: send_all_def send_all_loop_run queued_def receives_def roomy_def less_Suc_eq_le intro!: ms_state.equality)

section \<open>Lines\<close>

lemma extract_value_eq: "LF \<notin> set t \<Longrightarrow> extract_value (t @ LF # s) = Some (t @ [LF], s)"
  by (induction t) (auto simp: extract_value_def)

lemma extract_value_cases:
  obtains "LF \<notin> set s" "extract_value s = None"
  | t r where "s = t @ LF # r" "LF \<notin> set t" "extract_value s = Some (t @ [LF], r)"
  using extract_value_eq split_list_first [of LF s] by (cases "LF \<in> set s") (auto simp: extract_value_def)

lemma extract_value_shorter: "extract_value s = Some (l, r) \<Longrightarrow> length r < length s"
  by (cases s rule: extract_value_cases) auto

function ms_lines :: "string \<Rightarrow> string list \<times> string" where
  "ms_lines s = (case extract_value s of
     None \<Rightarrow> ([], s)
   | Some (line, rest) \<Rightarrow> (line # fst (ms_lines rest), snd (ms_lines rest)))"
  by auto

termination by (relation "measure length") (auto dest: extract_value_shorter)

declare ms_lines.simps [simp del]

lemma ms_lines_none: "LF \<notin> set s \<Longrightarrow> ms_lines s = ([], s)"
  by (subst ms_lines.simps) (simp add: extract_value_def)

lemma ms_lines_line: "LF \<notin> set t \<Longrightarrow> ms_lines (t @ LF # s) = ((t @ [LF]) # fst (ms_lines s), snd (ms_lines s))"
  by (subst ms_lines.simps) (simp add: extract_value_eq)

interpretation ms: line_cutter ms_lines "\<lambda>t. t @ [LF]"
  by unfold_locales (simp_all add: ms_lines_none ms_lines_line)

lemma ms_lines_concat: "concat (fst (ms_lines s)) @ snd (ms_lines s) = s"
proof (induction s rule: ms_lines.induct)
  case (1 s)
  show ?case by (cases s rule: extract_value_cases) (use 1 in \<open>auto simp: ms_lines_line ms_lines_none\<close>)
qed

lemma line_text_fits: "is_int i \<Longrightarrow> c_put (line_room line) (line_text i line) = Some (line_text i line)"
  using length_int_to_string [of i] by (simp add: c_put_def line_text_def line_room_def)

lemma server_text_fits:
  "is_int i \<Longrightarrow> c_put 64 (arrived_text i) = Some (arrived_text i)"
  "is_int i \<Longrightarrow> c_put 64 (left_text i) = Some (left_text i)"
  using length_int_to_string [of i] by (simp_all add: c_put_def arrived_text_def left_text_def)

lemma message_loop_step:
  assumes "g_rbuf s fd = Some (t @ LF # r)" "LF \<notin> set t" "is_int (g_ids s fd)" "int (length (t @ LF # r)) \<le> INT_MAX"
  shows "message_loop y fd s = (if \<not> ms_malloc y (length r + 1) then ms_fatal
    else if \<not> ms_malloc y (line_room (t @ [LF])) then ms_fatal
    else Option.bind (send_all y fd (line_text (g_ids s fd) (t @ [LF])) (s\<lparr>g_rbuf := (g_rbuf s)(fd := Some r)\<rparr>))
      (\<lambda>r. case r of Inl code \<Rightarrow> Some (Inl code) | Inr s1 \<Rightarrow> message_loop y fd s1))"
proof -
  have "int_len (t @ LF # r) = Some (length (t @ LF # r))" using assms(4) by (simp add: int_len_def)
  moreover have "c_put (length r + 1) r = Some r" by (simp add: c_put_def)
  ultimately show ?thesis using assms
    by (subst message_loop.simps) (simp add: extract_value_eq line_text_fits)
qed

lemma message_loop_end:
  "g_rbuf s fd = Some buf \<Longrightarrow> LF \<notin> set buf \<Longrightarrow> int (length buf) \<le> INT_MAX \<Longrightarrow> message_loop y fd s = Some (Inr s)"
  by (subst message_loop.simps) (simp add: extract_value_def int_len_def)

lemma message_loop_run:
  "ample y \<Longrightarrow> g_maxfd s < FD_SETSIZE \<Longrightarrow> g_rbuf s fd = Some buf \<Longrightarrow> is_int (g_ids s fd) \<Longrightarrow> int (length buf) + 44 \<le> INT_MAX \<Longrightarrow>
     roomy s fd (map (line_text (g_ids s fd)) (fst (ms_lines buf))) \<Longrightarrow>
     message_loop y fd s = Some (Inr (queued (s\<lparr>g_rbuf := (g_rbuf s)(fd := Some (snd (ms_lines buf)))\<rparr>) fd
       (map (line_text (g_ids s fd)) (fst (ms_lines buf)))))"
proof (induction buf arbitrary: s rule: ms_lines.induct)
  case (1 buf)
  show ?case
  proof (cases buf rule: first_line_cases)
    case 1
    moreover have "s\<lparr>g_rbuf := (g_rbuf s)(fd := Some buf)\<rparr> = s" using "1.prems"(3) by (simp add: fun_upd_idem)
    ultimately show ?thesis using "1.prems" message_loop_end [of s fd buf y] by (simp add: ms_lines_none del: fun_upd_apply)
  next
    case (2 t r)
    let ?m = "line_text (g_ids s fd) (t @ [LF])" and ?ms = "map (line_text (g_ids s fd)) (fst (ms_lines r))"
    let ?s = "s\<lparr>g_rbuf := (g_rbuf s)(fd := Some r)\<rparr>"
    let ?s1 = "queued ?s fd [?m]"
    have s1: "g_maxfd ?s1 = g_maxfd s" "g_ids ?s1 = g_ids s" "g_rbuf ?s1 = (g_rbuf s)(fd := Some r)"
      by (simp_all add: queued_def)
    have room: "roomy ?s fd (?m # ?ms)"
      using "1.prems"(6) 2 unfolding roomy_def receives_def by (simp add: ms_lines_line)
    have send: "send_all y fd ?m ?s = Some (Inr ?s1)"
      using "1.prems"(1,2) roomy_first [OF room] by (intro send_all_run) auto
    have "message_loop y fd s = message_loop y fd ?s1"
      using message_loop_step [of s fd t r y] "1.prems" 2 send by (simp add: ample_def line_room_def)
    also have "\<dots> = Some (Inr (queued (?s1\<lparr>g_rbuf := (g_rbuf ?s1)(fd := Some (snd (ms_lines r)))\<rparr>) fd
        (map (line_text (g_ids ?s1 fd)) (fst (ms_lines r)))))"
    proof (rule "1.IH")
      show "extract_value buf = Some (t @ [LF], r)" "(t @ [LF], r) = (t @ [LF], r)" using 2 by (simp_all add: extract_value_eq)
    qed (use "1.prems" s1 2 roomy_rest [OF room] in auto)
    also have "?s1\<lparr>g_rbuf := (g_rbuf ?s1)(fd := Some (snd (ms_lines r)))\<rparr>
        = queued (s\<lparr>g_rbuf := (g_rbuf s)(fd := Some (snd (ms_lines r)))\<rparr>) fd [?m]"
      by (rule ms_state.equality) (auto simp: queued_def receives_def)
    finally show ?thesis unfolding s1(2) 2(1) ms_lines_line [OF 2(2)] by (simp del: fun_upd_apply)
  qed
qed

text \<open>The bytes of a read, and the sizes that the lines they complete need.\<close>

definition read_fits :: "ms_state \<Rightarrow> nat \<Rightarrow> string \<Rightarrow> bool" where
  "read_fits s fd d \<longleftrightarrow> NUL \<notin> set d \<and> length d \<le> 4096 \<and> is_int (g_ids s fd)
     \<and> int (length (join_value (g_rbuf s fd) d)) + 44 \<le> INT_MAX
     \<and> roomy s fd (map (line_text (g_ids s fd)) (fst (ms_lines (join_value (g_rbuf s fd) d))))"

lemma handle_client_data:
  assumes "ample y" "g_maxfd s < FD_SETSIZE" "ms_recv y fd = Some d" "read_fits s fd d"
    "ls = ms_lines (join_value (g_rbuf s fd) d)"
  shows "handle_client_ms y fd s = Some (Inr (queued (s\<lparr>g_rbuf := (g_rbuf s)(fd := Some (snd ls))\<rparr>) fd
    (map (line_text (g_ids s fd)) (fst ls))))"
proof -
  let ?b = "join_value (g_rbuf s fd) d"
  note fits = assms(4) [unfolded read_fits_def]
  have d: "c_str d = d" using fits by (auto simp: c_str_def takeWhile_eq_all_conv)
  have "join_strings y (g_rbuf s fd) d = Some (Some ?b)"
    using fits by (intro join_strings_run [OF assms(1)]) (simp add: sized_def)
  moreover have "c_put 4097 d = Some d" using fits by (simp add: c_put_def)
  moreover have "message_loop y fd (s\<lparr>g_rbuf := (g_rbuf s)(fd := Some ?b)\<rparr>)
      = Some (Inr (queued (s\<lparr>g_rbuf := (g_rbuf s)(fd := Some (snd ls))\<rparr>) fd (map (line_text (g_ids s fd)) (fst ls))))"
    using message_loop_run [of y "s\<lparr>g_rbuf := (g_rbuf s)(fd := Some ?b)\<rparr>" fd ?b] assms fits
    by (simp add: roomy_def receives_def)
  ultimately show ?thesis using assms(3) d by (simp add: handle_client_ms_def)
qed

section \<open>Properties\<close>

text \<open>C31: how the stream of a client is cut into reads does not matter: two reads have the effect of
  one read of their concatenation, on the lines relayed to the others and on the unfinished line
  kept. This holds of data without NUL bytes (at which the code drops the rest of a read), as long as
  \<open>malloc\<close> succeeds and no buffer outgrows an \<open>int\<close>.\<close>

theorem chunks_do_not_matter:
  assumes "ample y" "g_maxfd s < FD_SETSIZE" "read_fits s fd (d1 @ d2)"
  shows "ms_bind (handle_client_ms (y\<lparr>ms_recv := \<lambda>_. Some d1\<rparr>) fd s) (handle_client_ms (y\<lparr>ms_recv := \<lambda>_. Some d2\<rparr>) fd)
    = handle_client_ms (y\<lparr>ms_recv := \<lambda>_. Some (d1 @ d2)\<rparr>) fd s"
proof -
  let ?b = "join_value (g_rbuf s fd) d1"
  let ?l1 = "ms_lines ?b" and ?l2 = "ms_lines (snd (ms_lines ?b) @ d2)"
  let ?m1 = "map (line_text (g_ids s fd)) (fst ?l1)" and ?m2 = "map (line_text (g_ids s fd)) (fst ?l2)"
  let ?s1 = "queued (s\<lparr>g_rbuf := (g_rbuf s)(fd := Some (snd ?l1))\<rparr>) fd ?m1"
  have ample: "ample (y\<lparr>ms_recv := r\<rparr>)" for r using assms(1) by (simp add: ample_def)
  have all: "ms_lines (join_value (g_rbuf s fd) (d1 @ d2)) = (fst ?l1 @ fst ?l2, snd ?l2)"
    using ms.cut_append [of ?b d2] by (simp add: join_value_def)
  note fits = assms(3) [unfolded read_fits_def all, simplified]
  have room: "roomy s fd ?m1" "roomy (queued s fd ?m1) fd ?m2"
    using fits roomy_append [of s fd ?m1 ?m2] by auto
  have fits1: "read_fits s fd d1" using fits room(1) by (auto simp: read_fits_def join_value_def)
  have short: "length (snd ?l1) \<le> length ?b" using arg_cong [OF ms_lines_concat [of ?b], of length] by simp
  have fits2: "read_fits ?s1 fd d2"
    using fits room(2) short by (auto simp: read_fits_def queued_def join_value_def roomy_def receives_def)
  have one: "handle_client_ms (y\<lparr>ms_recv := \<lambda>_. Some d1\<rparr>) fd s = Some (Inr ?s1)"
    using ample assms(2) fits1 by (intro handle_client_data) auto
  have two: "handle_client_ms (y\<lparr>ms_recv := \<lambda>_. Some d2\<rparr>) fd ?s1
      = Some (Inr (queued (?s1\<lparr>g_rbuf := (g_rbuf ?s1)(fd := Some (snd ?l2))\<rparr>) fd (map (line_text (g_ids ?s1 fd)) (fst ?l2))))"
    using ample assms(2) fits2 by (intro handle_client_data) (auto simp: queued_def join_value_def)
  have "handle_client_ms (y\<lparr>ms_recv := \<lambda>_. Some (d1 @ d2)\<rparr>) fd s
      = Some (Inr (queued (s\<lparr>g_rbuf := (g_rbuf s)(fd := Some (snd ?l2))\<rparr>) fd (map (line_text (g_ids s fd)) (fst ?l1 @ fst ?l2))))"
    using handle_client_data [of "y\<lparr>ms_recv := \<lambda>_. Some (d1 @ d2)\<rparr>" s fd "d1 @ d2", OF ample _ _ assms(3) all [symmetric]] assms(2)
    by simp
  moreover have "queued (?s1\<lparr>g_rbuf := (g_rbuf ?s1)(fd := Some (snd ?l2))\<rparr>) fd (map (line_text (g_ids ?s1 fd)) (fst ?l2))
      = queued (s\<lparr>g_rbuf := (g_rbuf s)(fd := Some (snd ?l2))\<rparr>) fd (map (line_text (g_ids s fd)) (fst ?l1 @ fst ?l2))"
    by (rule ms_state.equality) (auto simp: queued_def receives_def)
  ultimately show ?thesis unfolding one ms_bind_def using two by simp
qed

definition ms_plenty :: ms_sys where
  "ms_plenty = \<lparr>ms_malloc = (\<lambda>n. int n \<le> INT_MAX), ms_accept = - 1, ms_recv = (\<lambda>_. None), ms_send = (\<lambda>_ _. 0),
     ms_select = (\<lambda>_ _. None)\<rparr>"

definition ms_room :: ms_state where
  "ms_room = \<lparr>g_sockfd = 3, g_active = (\<lambda>fd. fd \<in> {3, 4, 5}), g_maxfd = 5, g_ids = (\<lambda>fd. if fd = 5 then 1 else 0), g_next_id = 2,
     g_rbuf = (\<lambda>_. None), g_wbuf = (\<lambda>_. None), ms_closed = []\<rparr>"

theorem chunks_do_not_matter_witness:
  "ms_bind (handle_client_ms (ms_plenty\<lparr>ms_recv := \<lambda>_. Some ''he''\<rparr>) 4 ms_room)
      (handle_client_ms (ms_plenty\<lparr>ms_recv := \<lambda>_. Some (''llo'' @ [LF])\<rparr>) 4)
    = handle_client_ms (ms_plenty\<lparr>ms_recv := \<lambda>_. Some (''hello'' @ [LF])\<rparr>) 4 ms_room"
proof -
  have lines: "ms_lines (''hello'' @ [LF]) = ([''hello'' @ [LF]], [])"
    using ms_lines_line [of "''hello''" "[]"] by (simp add: ms_lines_none)
  have line: "line_text 0 (''hello'' @ [LF]) = ''client 0: hello'' @ [LF]" by code_simp
  have "read_fits ms_room 4 (''he'' @ ''llo'' @ [LF])"
    unfolding read_fits_def roomy_def sized_def
    by (simp add: ms_room_def join_value_def lines [simplified] line [simplified] INT_MAX_def)
  from chunks_do_not_matter [OF _ _ this, of ms_plenty] show ?thesis
    by (simp add: ample_def ms_plenty_def ms_room_def FD_SETSIZE_def)
qed

end
