(* ===== verification/MiniServSafety.thy ===== *)
theory MiniServSafety
  imports MiniServ
begin

text \<open>
  That \<open>mini_serv\<close> stays inside its buffers and descriptor sets: an invariant of its globals
  between two turns of the loop, kept by every turn that does not end the process. What the system
  calls promise is \<open>ms_sys_ok\<close>; the limits within which the code is safe are \<open>ms_limits\<close>.
\<close>

section \<open>Invariant and environment\<close>

text \<open>All descriptors fit into an \<open>fd_set\<close> and lie below \<open>g_maxfd\<close>; a descriptor that is not
  connected owns no buffer, so its next owner starts afresh; no complete line waits in a read buffer;
  the length of every buffer and every identifier is an \<open>int\<close>.\<close>

definition outputs_sized :: "ms_state \<Rightarrow> bool" where
  "outputs_sized s \<longleftrightarrow> (\<forall>fd b. g_wbuf s fd = Some b \<longrightarrow> sized b)"

definition ms_inv :: "ms_state \<Rightarrow> bool" where
  "ms_inv s \<longleftrightarrow> g_maxfd s < FD_SETSIZE
     \<and> (\<forall>fd. g_active s fd \<longrightarrow> fd \<le> g_maxfd s)
     \<and> (\<forall>fd. \<not> g_active s fd \<or> fd = g_sockfd s \<longrightarrow> g_rbuf s fd = None \<and> g_wbuf s fd = None)
     \<and> (\<forall>fd b. g_rbuf s fd = Some b \<longrightarrow> LF \<notin> set b \<and> sized b)
     \<and> outputs_sized s
     \<and> (\<forall>fd. is_int (g_ids s fd)) \<and> 0 \<le> g_next_id s \<and> g_next_id s \<le> INT_MAX"

text \<open>\<open>select\<close> returns subsets of the sets it is given; \<open>accept\<close> returns a descriptor that is not
  open; \<open>recv\<close> stores at most the 4096 bytes it is asked for, and \<open>send\<close> does not report more than
  it is given.\<close>

definition ms_sys_ok :: "ms_sys \<Rightarrow> ms_state \<Rightarrow> bool" where
  "ms_sys_ok y s \<longleftrightarrow>
     (\<forall>rd wr rd' wr' fd. ms_select y rd wr = Some (rd', wr') \<longrightarrow> (rd' fd \<longrightarrow> rd fd) \<and> (wr' fd \<longrightarrow> wr fd))
     \<and> (0 \<le> ms_accept y \<longrightarrow> \<not> g_active s (nat (ms_accept y)))
     \<and> (\<forall>fd bytes. ms_recv y fd = Some bytes \<longrightarrow> length bytes \<le> 4096)
     \<and> (\<forall>fd text. ms_send y fd text \<le> int (length text))"

text \<open>What the code relies on without a check: the accepted descriptor fits into an \<open>fd_set\<close>, fewer
  than \<open>INT_MAX\<close> clients have been accepted, and no object is larger than an \<open>int\<close> can say.\<close>

definition ms_limits :: "ms_sys \<Rightarrow> ms_state \<Rightarrow> bool" where
  "ms_limits y s \<longleftrightarrow> nat (ms_accept y) < FD_SETSIZE \<and> g_next_id s < INT_MAX
     \<and> (\<forall>n. ms_malloc y n \<longrightarrow> int n \<le> INT_MAX)"

text \<open>The part of it that concerns every handler.\<close>

definition io_fits :: "ms_sys \<Rightarrow> bool" where
  "io_fits y \<longleftrightarrow> nat (ms_accept y) < FD_SETSIZE \<and> (\<forall>n. ms_malloc y n \<longrightarrow> int n \<le> INT_MAX)
     \<and> (\<forall>fd bytes. ms_recv y fd = Some bytes \<longrightarrow> length bytes \<le> 4096)
     \<and> (\<forall>fd text. ms_send y fd text \<le> int (length text))"

text \<open>The call returns, by \<open>fatal\<close> or in a state with \<open>Q\<close>.\<close>

definition ms_returns :: "'a ms_run \<Rightarrow> ('a \<Rightarrow> bool) \<Rightarrow> bool" where
  "ms_returns r Q \<longleftrightarrow> (case r of None \<Rightarrow> False | Some (Inl code) \<Rightarrow> code = 1 | Some (Inr s) \<Rightarrow> Q s)"

lemma ms_returns_simps [simp]:
  "ms_returns (Some (Inr s)) Q \<longleftrightarrow> Q s" "ms_returns ms_fatal Q" "\<not> ms_returns None Q"
  by (simp_all add: ms_returns_def ms_fatal_def)

lemma ms_returns_mono: "ms_returns r Q \<Longrightarrow> (\<And>s. Q s \<Longrightarrow> R s) \<Longrightarrow> ms_returns r R"
  by (auto simp: ms_returns_def split: option.splits sum.splits)

lemma ms_returns_bind: "ms_returns r Q \<Longrightarrow> (\<And>s. Q s \<Longrightarrow> ms_returns (k s) R) \<Longrightarrow> ms_returns (ms_bind r k) R"
  unfolding ms_returns_def ms_bind_def by (cases r rule: option.exhaust) (auto split: sum.splits)

lemma ms_returns_continue:
  "ms_returns r Q \<Longrightarrow> (\<And>s. Q s \<Longrightarrow> ms_returns (k s) R) \<Longrightarrow>
     ms_returns (Option.bind r (\<lambda>x. case x of Inl code \<Rightarrow> Some (Inl code) | Inr s \<Rightarrow> k s)) R"
  using ms_returns_bind [of r Q k R] by (simp add: ms_bind_def)

section \<open>The handlers\<close>

text \<open>\<open>send_all\<close> only adds output, and only for connected clients.\<close>

definition more_output :: "ms_state \<Rightarrow> ms_state \<Rightarrow> bool" where
  "more_output s s' \<longleftrightarrow> (\<exists>w. s' = s\<lparr>g_wbuf := w\<rparr>
     \<and> (\<forall>fd. w fd = g_wbuf s fd \<or> g_active s fd \<and> fd \<noteq> g_sockfd s \<and> (\<exists>b. w fd = Some b \<and> sized b)))"

lemma more_outputI:
  "(\<And>fd. w fd = g_wbuf s fd \<or> g_active s fd \<and> fd \<noteq> g_sockfd s \<and> (\<exists>b. w fd = Some b \<and> sized b)) \<Longrightarrow> more_output s (s\<lparr>g_wbuf := w\<rparr>)"
  unfolding more_output_def by blast

lemma more_outputE:
  assumes "more_output s s'"
  obtains w where "s' = s\<lparr>g_wbuf := w\<rparr>"
    "\<And>fd. w fd = g_wbuf s fd \<or> g_active s fd \<and> fd \<noteq> g_sockfd s \<and> (\<exists>b. w fd = Some b \<and> sized b)"
  using assms unfolding more_output_def by blast

lemma more_output_refl [simp]: "more_output s s"
  using more_outputI [of "g_wbuf s" s] by simp

lemma more_output_trans [trans]:
  assumes "more_output s s1" "more_output s1 s2"
  shows "more_output s s2"
proof -
  from assms obtain w w' where w: "s1 = s\<lparr>g_wbuf := w\<rparr>" "s2 = s1\<lparr>g_wbuf := w'\<rparr>"
    "\<And>fd. w fd = g_wbuf s fd \<or> g_active s fd \<and> fd \<noteq> g_sockfd s \<and> (\<exists>b. w fd = Some b \<and> sized b)"
    "\<And>fd. w' fd = g_wbuf s1 fd \<or> g_active s1 fd \<and> fd \<noteq> g_sockfd s1 \<and> (\<exists>b. w' fd = Some b \<and> sized b)"
    by (elim more_outputE) blast
  have "w' fd = g_wbuf s fd \<or> g_active s fd \<and> fd \<noteq> g_sockfd s \<and> (\<exists>b. w' fd = Some b \<and> sized b)" for fd
    using w(3,4) [of fd] w(1) by auto
  then show ?thesis using more_outputI [of w' s] w(1,2) by simp
qed

lemma more_output_same:
  assumes "more_output s s'"
  shows "g_sockfd s' = g_sockfd s" "g_active s' = g_active s" "g_maxfd s' = g_maxfd s" "g_rbuf s' = g_rbuf s"
    "g_ids s' = g_ids s" "g_next_id s' = g_next_id s"
    "g_wbuf s fd \<noteq> None \<Longrightarrow> g_wbuf s' fd \<noteq> None"
    "\<not> g_active s fd \<or> fd = g_sockfd s \<Longrightarrow> g_wbuf s' fd = g_wbuf s fd"
    "outputs_sized s \<Longrightarrow> outputs_sized s'"
  using assms by (auto simp: outputs_sized_def elim!: more_outputE) (metis option.distinct(1) option.inject)+

lemma more_output_inv: "ms_inv s \<Longrightarrow> more_output s s' \<Longrightarrow> ms_inv s'"
  using more_output_same [of s s'] unfolding ms_inv_def by metis

lemma more_output_rbuf:
  assumes "more_output (s\<lparr>g_rbuf := q\<rparr>) s'"
  shows "more_output (s\<lparr>g_rbuf := r\<rparr>) (s'\<lparr>g_rbuf := r\<rparr>)"
proof -
  from assms obtain w where w: "s' = s\<lparr>g_rbuf := q, g_wbuf := w\<rparr>"
    "\<And>fd. w fd = g_wbuf s fd \<or> g_active s fd \<and> fd \<noteq> g_sockfd s \<and> (\<exists>b. w fd = Some b \<and> sized b)" by (elim more_outputE) simp
  have "s'\<lparr>g_rbuf := r\<rparr> = s\<lparr>g_rbuf := r, g_wbuf := w\<rparr>" by (simp add: w(1))
  with more_outputI [of w "s\<lparr>g_rbuf := r\<rparr>"] w(2) show ?thesis by simp
qed

lemma join_strings_returns:
  assumes "io_fits y" "\<And>b. buf = Some b \<Longrightarrow> sized b"
  obtains "join_strings y buf add = Some None"
  | "join_strings y buf add = Some (Some (join_value buf add))" "sized (join_value buf add)"
proof -
  have "\<forall>n. ms_malloc y n \<longrightarrow> int n \<le> INT_MAX" using assms(1) by (simp add: io_fits_def)
  then have "int (length (join_value buf add) + 1) \<le> INT_MAX" if "ms_malloc y (length (join_value buf add) + 1)"
    using that by blast
  with assms(2) that show thesis
    by (cases "ms_malloc y (length (join_value buf add) + 1)"; cases buf)
      (auto simp: join_strings_def int_len_def c_put_def join_value_def sized_def)
qed

lemma send_all_loop_returns:
  "io_fits y \<Longrightarrow> outputs_sized s \<Longrightarrow> \<forall>fd \<in> set fds. fd < FD_SETSIZE \<Longrightarrow>
     ms_returns (send_all_loop y except msg fds s) (more_output s)"
proof (induction fds arbitrary: s)
  case (Cons fd fds)
  let ?s = "s\<lparr>g_wbuf := (g_wbuf s)(fd := Some (join_value (g_wbuf s fd) msg))\<rparr>"
  have join: "\<And>b. g_wbuf s fd = Some b \<Longrightarrow> sized b" using Cons.prems(2) by (simp add: outputs_sized_def)
  have "ms_returns (send_all_loop y except msg fds ?s) (more_output s)"
    if "g_active s fd" "fd \<noteq> g_sockfd s" "sized (join_value (g_wbuf s fd) msg)"
  proof -
    have more: "more_output s ?s" using that by (intro more_outputI) auto
    show ?thesis using Cons.prems more_output_same(9) [OF more] more
      by (intro ms_returns_mono [OF Cons.IH]) (auto intro: more_output_trans)
  qed
  with Cons show ?case
    by (cases rule: join_strings_returns [OF Cons.prems(1) join, where add = msg]) (auto simp: isset_def)
qed simp

lemma send_all_returns:
  "io_fits y \<Longrightarrow> outputs_sized s \<Longrightarrow> g_maxfd s < FD_SETSIZE \<Longrightarrow> ms_returns (send_all y except msg s) (more_output s)"
  unfolding send_all_def by (intro send_all_loop_returns) auto

lemma message_loop_returns:
  "io_fits y \<Longrightarrow> outputs_sized s \<Longrightarrow> g_maxfd s < FD_SETSIZE \<Longrightarrow> is_int (g_ids s fd) \<Longrightarrow> g_rbuf s fd = Some buf \<Longrightarrow> sized buf \<Longrightarrow>
     ms_returns (message_loop y fd s)
       (\<lambda>s'. \<exists>b. LF \<notin> set b \<and> sized b \<and> more_output (s\<lparr>g_rbuf := (g_rbuf s)(fd := Some b)\<rparr>) s')"
proof (induction buf arbitrary: s rule: ms_lines.induct)
  case (1 buf)
  have short: "int (length buf) \<le> INT_MAX" using "1.prems"(6) by (simp add: sized_def)
  show ?case
  proof (cases buf rule: first_line_cases)
    case 1
    moreover have "s\<lparr>g_rbuf := (g_rbuf s)(fd := Some buf)\<rparr> = s" using "1.prems"(5) by (simp add: fun_upd_idem)
    then have "more_output (s\<lparr>g_rbuf := (g_rbuf s)(fd := Some buf)\<rparr>) s" by (simp del: fun_upd_apply)
    ultimately show ?thesis using "1.prems"(5,6) short message_loop_end [of s fd buf y]
      by (auto intro!: exI [of _ buf] simp del: fun_upd_apply)
  next
    case (2 t r)
    let ?s = "s\<lparr>g_rbuf := (g_rbuf s)(fd := Some r)\<rparr>"
    have later: "ms_returns (message_loop y fd s1)
        (\<lambda>s'. \<exists>b. LF \<notin> set b \<and> sized b \<and> more_output (s\<lparr>g_rbuf := (g_rbuf s)(fd := Some b)\<rparr>) s')"
      if s1: "more_output ?s s1" for s1
    proof -
      note same = more_output_same [OF s1]
      have "more_output (s\<lparr>g_rbuf := (g_rbuf s)(fd := Some b)\<rparr>) (s1\<lparr>g_rbuf := (g_rbuf s1)(fd := Some b)\<rparr>)" for b
        using more_output_rbuf [OF s1] same(4) by simp
      moreover have "ms_returns (message_loop y fd s1)
          (\<lambda>s'. \<exists>b. LF \<notin> set b \<and> sized b \<and> more_output (s1\<lparr>g_rbuf := (g_rbuf s1)(fd := Some b)\<rparr>) s')"
      proof (rule "1.IH" [of "(t @ [LF], r)" "t @ [LF]" r])
        show "outputs_sized s1" using same(9) "1.prems"(2) by (simp add: outputs_sized_def)
        show "sized r" using "1.prems"(6) 2(1) by (simp add: sized_def)
      qed (use "1.prems" same 2 in \<open>simp_all add: extract_value_eq\<close>)
      ultimately show ?thesis by (elim ms_returns_mono) (blast intro: more_output_trans)
    qed
    have "ms_returns (send_all y fd (line_text (g_ids s fd) (t @ [LF])) ?s) (more_output ?s)"
      using "1.prems"(1-3) by (intro send_all_returns) (simp_all add: outputs_sized_def)
    note sent = ms_returns_continue [where k = "message_loop y fd", OF this later]
    have step: "message_loop y fd s = (if \<not> ms_malloc y (length r + 1) then ms_fatal
      else if \<not> ms_malloc y (line_room (t @ [LF])) then ms_fatal
      else Option.bind (send_all y fd (line_text (g_ids s fd) (t @ [LF])) ?s)
        (\<lambda>x. case x of Inl code \<Rightarrow> Some (Inl code) | Inr s1 \<Rightarrow> message_loop y fd s1))"
      using "1.prems"(4,5) short 2 by (intro message_loop_step) auto
    show ?thesis unfolding step by (simp only: ms_returns_simps sent split: if_split) simp
  qed
qed

text \<open>What a visit of \<open>fd\<close> leaves for the descriptors still to be visited.\<close>

definition advance :: "nat \<Rightarrow> ms_state \<Rightarrow> ms_state \<Rightarrow> bool" where
  "advance fd s s' \<longleftrightarrow> ms_inv s' \<and> g_sockfd s' = g_sockfd s
     \<and> (\<forall>e > fd. (g_active s e \<longrightarrow> g_active s' e) \<and> (g_wbuf s e \<noteq> None \<longrightarrow> g_wbuf s' e \<noteq> None))
     \<and> (fd \<noteq> g_sockfd s \<longrightarrow> g_next_id s' = g_next_id s \<and> (\<forall>e. g_active s' e \<longrightarrow> g_active s e))"

text \<open>Until its output is flushed, a connected descriptor keeps it.\<close>

definition advance_read :: "nat \<Rightarrow> ms_state \<Rightarrow> ms_state \<Rightarrow> bool" where
  "advance_read fd s s' \<longleftrightarrow> advance fd s s' \<and> (g_active s' fd \<longrightarrow> g_wbuf s fd \<noteq> None \<longrightarrow> g_wbuf s' fd \<noteq> None)"

lemma handle_client_returns:
  assumes "ms_inv s" "g_active s fd" "fd \<noteq> g_sockfd s" "io_fits y"
  shows "ms_returns (handle_client_ms y fd s) (advance_read fd s)"
proof (cases "ms_recv y fd")
  case None
  let ?s = "s\<lparr>g_rbuf := (g_rbuf s)(fd := None), g_wbuf := (g_wbuf s)(fd := None),
    g_active := (g_active s)(fd := False), ms_closed := ms_closed s @ [fd]\<rparr>"
  have inv: "ms_inv ?s" using assms unfolding ms_inv_def outputs_sized_def by auto
  have "advance_read fd s s'" if out: "more_output ?s s'" for s'
    using more_output_inv [OF inv out] more_output_same [OF out]
    by (auto simp: advance_read_def advance_def)
  moreover have "handle_client_ms y fd s = send_all y fd (left_text (g_ids s fd)) ?s"
    using None assms(1) by (simp add: handle_client_ms_def server_text_fits ms_inv_def)
  moreover have "g_maxfd ?s < FD_SETSIZE" "outputs_sized ?s" using inv by (simp_all add: ms_inv_def)
  ultimately show ?thesis using send_all_returns [OF assms(4), of ?s] by (metis (no_types, lifting) ms_returns_mono)
next
  case (Some bytes)
  let ?buf = "join_value (g_rbuf s fd) (c_str bytes)"
  let ?s = "s\<lparr>g_rbuf := (g_rbuf s)(fd := Some ?buf)\<rparr>"
  have "length bytes \<le> 4096" using assms(4) Some unfolding io_fits_def by blast
  then have bytes: "c_put 4097 bytes = Some bytes" by (simp add: c_put_def)
  have "advance_read fd s s'" if b: "LF \<notin> set b" "sized b" and out: "more_output (s\<lparr>g_rbuf := (g_rbuf s)(fd := Some b)\<rparr>) s'" for b s'
  proof -
    have inv: "ms_inv (s\<lparr>g_rbuf := (g_rbuf s)(fd := Some b)\<rparr>)" using assms b unfolding ms_inv_def outputs_sized_def by auto
    show ?thesis using more_output_inv [OF inv out] more_output_same [OF out]
      by (auto simp: advance_read_def advance_def)
  qed
  then have loop: "ms_returns (message_loop y fd ?s) (advance_read fd s)" if "sized ?buf"
    using message_loop_returns [OF assms(4), of ?s fd ?buf] assms(1) that
    by (auto simp: ms_inv_def outputs_sized_def intro: ms_returns_mono)
  have old: "\<And>b. g_rbuf s fd = Some b \<Longrightarrow> sized b" using assms(1) by (simp add: ms_inv_def)
  show ?thesis
    by (cases rule: join_strings_returns [OF assms(4) old, where add = "c_str bytes"])
      (auto simp: handle_client_ms_def Some bytes loop)
qed

lemma accept_client_returns:
  assumes "ms_inv s" "0 \<le> ms_accept y \<Longrightarrow> \<not> g_active s (nat (ms_accept y)) \<and> g_next_id s < INT_MAX" "io_fits y" "fd = g_sockfd s"
  shows "ms_returns (accept_client y s) (advance_read fd s)"
proof (cases "ms_accept y < 0")
  case True
  with assms(1) show ?thesis by (simp add: accept_client_def advance_read_def advance_def)
next
  case False
  let ?c = "nat (ms_accept y)"
  let ?s = "s\<lparr>g_ids := (g_ids s)(?c := g_next_id s), g_next_id := g_next_id s + 1,
    g_active := (g_active s)(?c := True), g_maxfd := (if g_maxfd s < ?c then ?c else g_maxfd s)\<rparr>"
  have c: "?c < FD_SETSIZE" "\<not> g_active s ?c" "g_next_id s < INT_MAX" "is_int (g_next_id s)"
    using assms(1-3) False by (auto simp: io_fits_def ms_inv_def INT_MAX_def)
  have inv: "ms_inv ?s"
    using assms(1) c unfolding ms_inv_def outputs_sized_def by (auto simp: not_less intro: le_trans)
  have "advance_read fd s s'" if out: "more_output ?s s'" for s'
    using more_output_inv [OF inv out] more_output_same [OF out] assms(4)
    by (auto simp: advance_read_def advance_def)
  moreover have "accept_client y s = send_all y ?c (arrived_text (g_next_id s)) ?s"
    using False c by (simp add: accept_client_def Let_def server_text_fits)
  moreover have "g_maxfd ?s < FD_SETSIZE" "outputs_sized ?s" using inv by (simp_all add: ms_inv_def)
  ultimately show ?thesis using send_all_returns [OF assms(3), of ?s] by (metis (no_types, lifting) ms_returns_mono)
qed

lemma flush_client_returns:
  assumes "ms_inv s" "g_wbuf s fd \<noteq> None" "io_fits y"
  shows "ms_returns (flush_client y fd s) (advance fd s)"
proof -
  from assms(2) obtain w where w: "g_wbuf s fd = Some w" by auto
  with assms(1) have fd: "g_active s fd" "fd \<noteq> g_sockfd s" unfolding ms_inv_def by (metis option.distinct(1))+
  have size: "sized w" using assms(1) w by (simp add: ms_inv_def outputs_sized_def)
  have "advance fd s (s\<lparr>g_wbuf := (g_wbuf s)(fd := q)\<rparr>)" if "\<And>b. q = Some b \<Longrightarrow> sized b" for q
    using assms(1) fd that by (auto simp: advance_def ms_inv_def outputs_sized_def)
  moreover have "sized (drop n w)" for n using size by (simp add: sized_def)
  moreover have "advance fd s s" using assms(1) by (simp add: advance_def)
  moreover have "ms_send y fd w \<le> int (length w)" using assms(3) by (simp add: io_fits_def)
  moreover have "int_len w = Some (length w)" using size by (simp add: int_len_def sized_def)
  ultimately show ?thesis using w by (auto simp: flush_client_def Let_def c_put_def)
qed

lemma advance_trans: "advance fd s s1 \<Longrightarrow> advance fd s1 s2 \<Longrightarrow> advance fd s s2"
  unfolding advance_def by auto

section \<open>The loop\<close>

definition scanning :: "ms_sys \<Rightarrow> (nat \<Rightarrow> bool) \<Rightarrow> (nat \<Rightarrow> bool) \<Rightarrow> nat \<Rightarrow> ms_state \<Rightarrow> bool" where
  "scanning y rfds wfds fd s \<longleftrightarrow> ms_inv s
     \<and> (\<forall>e \<ge> fd. (rfds e \<longrightarrow> g_active s e) \<and> (wfds e \<longrightarrow> g_wbuf s e \<noteq> None))
     \<and> (fd \<le> g_sockfd s \<longrightarrow> 0 \<le> ms_accept y \<longrightarrow> \<not> g_active s (nat (ms_accept y)) \<and> g_next_id s < INT_MAX)"

lemma scanning_advance: "scanning y rfds wfds fd s \<Longrightarrow> advance fd s s' \<Longrightarrow> scanning y rfds wfds (fd + 1) s'"
  unfolding scanning_def advance_def by (auto simp: Suc_le_eq)

lemma ms_visit_returns:
  assumes "scanning y rfds wfds fd s" "io_fits y" "fd \<le> g_maxfd s"
  shows "ms_returns (ms_visit y rfds wfds fd s) (advance fd s)"
  unfolding ms_visit_def
proof (rule ms_returns_bind)
  note s = assms(1) [unfolded scanning_def]
  show "ms_returns (if rfds fd then if fd = g_sockfd s then accept_client y s else handle_client_ms y fd s
      else Some (Inr s)) (advance_read fd s)"
    using s assms(2) accept_client_returns [of s y fd] handle_client_returns [of s fd y]
    by (auto simp: advance_read_def advance_def)
next
  fix s1 assume s1: "advance_read fd s s1"
  then have inv: "ms_inv s1" "advance fd s s1" by (simp_all add: advance_read_def advance_def)
  have "fd < FD_SETSIZE" using assms(1,3) by (simp add: scanning_def ms_inv_def)
  moreover have "g_wbuf s1 fd \<noteq> None" if "wfds fd" "g_active s1 fd"
    using assms(1) s1 that by (auto simp: scanning_def advance_read_def)
  ultimately show "ms_returns (Option.bind (isset s1 fd)
      (\<lambda>a. if wfds fd \<and> a then flush_client y fd s1 else Some (Inr s1))) (advance fd s)"
    using inv ms_returns_mono [OF flush_client_returns [OF inv(1) _ assms(2), of fd]] advance_trans
    by (auto simp: isset_def)
qed

lemma ms_scan_returns:
  "scanning y rfds wfds fd s \<Longrightarrow> io_fits y \<Longrightarrow> ms_returns (ms_scan y rfds wfds fd s) ms_inv"
proof (induction "FD_SETSIZE - fd" arbitrary: fd s rule: less_induct)
  case less
  show ?case
  proof (cases "fd \<le> g_maxfd s")
    case True
    have "ms_returns (ms_scan y rfds wfds (fd + 1) s1) ms_inv" if "advance fd s s1" for s1
      using True less.prems that
      by (intro less.hyps scanning_advance) (auto simp: scanning_def ms_inv_def)
    from ms_returns_continue [where k = "ms_scan y rfds wfds (fd + 1)", OF ms_visit_returns [OF less.prems True] this]
      True show ?thesis by (subst ms_scan.simps) simp
  next
    case False
    with less.prems(1) show ?thesis by (subst ms_scan.simps) (simp add: scanning_def)
  qed
qed

lemma ms_turn_returns:
  assumes "ms_inv s" "ms_sys_ok y s" "ms_limits y s"
  shows "ms_returns (ms_turn y s) ms_inv"
proof (cases "ms_select y (g_active s) (\<lambda>fd. fd \<le> g_maxfd s \<and> g_active s fd \<and> g_wbuf s fd \<noteq> None)")
  case (Some sets)
  obtain rfds wfds where sets: "sets = (rfds, wfds)" by (cases sets)
  have "scanning y rfds wfds 0 s"
    using assms Some sets unfolding ms_sys_ok_def ms_limits_def scanning_def by blast
  moreover have "io_fits y" using assms(2,3) by (simp add: ms_sys_ok_def ms_limits_def io_fits_def)
  ultimately have "ms_returns (ms_scan y rfds wfds 0 s) ms_inv" by (rule ms_scan_returns)
  with Some sets show ?thesis by (simp add: ms_turn_def)
qed (simp add: ms_turn_def)

lemma ms_start_returns:
  "nat sock < FD_SETSIZE \<Longrightarrow> ms_returns (ms_start argv sock bind_res listen_res) ms_inv"
  by (auto simp: ms_start_def ms_inv_def outputs_sized_def INT_MAX_def Let_def ms_returns_def ms_fatal_def)

section \<open>Properties\<close>

text \<open>C30: within its limits (descriptors below \<open>FD_SETSIZE\<close>, fewer than \<open>INT_MAX\<close> clients so far, no
  object larger than an \<open>int\<close> can say), \<open>mini_serv\<close> writes every text and every read inside the buffer
  it is given, puts only valid descriptors into its sets, overflows no \<open>int\<close> and reads no null buffer:
  \<open>main\<close> reaches its loop in a good state, and every turn from a good state ends in a good state or
  exits with status 1.\<close>

theorem mini_serv_safe:
  assumes "nat sock < FD_SETSIZE" "ms_inv s" "ms_sys_ok y s" "ms_limits y s"
  shows "ms_returns (ms_start argv sock bind_res listen_res) ms_inv \<and> ms_returns (ms_turn y s) ms_inv"
  using ms_start_returns [OF assms(1)] ms_turn_returns [OF assms(2-4)] by blast

theorem mini_serv_safe_witness:
  "ms_returns (ms_start [''mini_serv'', ''8081''] 3 (\<lambda>_. 0) 0) ms_inv
   \<and> ms_returns (ms_turn (ms_plenty\<lparr>ms_select := (\<lambda>rd wr. Some (rd, wr)), ms_recv := (\<lambda>_. Some (''hi'' @ [LF]))\<rparr>) ms_room) ms_inv"
proof (rule mini_serv_safe)
  show "ms_inv ms_room" by (auto simp: ms_inv_def outputs_sized_def ms_room_def FD_SETSIZE_def INT_MAX_def)
qed (simp_all add: ms_sys_ok_def ms_limits_def ms_plenty_def ms_room_def FD_SETSIZE_def INT_MAX_def)

end
