(* ===== verification/LibftSplit.thy ===== *)
theory LibftSplit
  imports LibftStr
begin

text \<open>
  \<open>ft_split\<close> (\<open>src/bircd/libft/ft_split.c\<close>) with its helpers, and its specification: the
  non-empty runs of characters other than the separator. When an allocation fails in the middle,
  everything allocated so far is given back.
\<close>

section \<open>Splitting\<close>

partial_function (option) token_len_loop :: "cmem \<Rightarrow> ptr \<Rightarrow> char \<Rightarrow> nat \<Rightarrow> nat option" where
  "token_len_loop m str sep token_len = do {
     c \<leftarrow> load m str;
     if c \<noteq> NUL \<and> c \<noteq> sep then token_len_loop m (padd str 1) sep (token_len + 1) else Some token_len
   }"

definition get_token_len :: "cmem \<Rightarrow> ptr \<Rightarrow> char \<Rightarrow> nat option" where
  "get_token_len m str sep = token_len_loop m str sep 0"

partial_function (option) array_size_loop :: "cmem \<Rightarrow> ptr \<Rightarrow> char \<Rightarrow> nat \<Rightarrow> nat option" where
  "array_size_loop m s sep array_size = do {
     c \<leftarrow> load m s;
     if c \<noteq> NUL then do {
       k \<leftarrow> get_token_len m s sep;
       if 0 < k then array_size_loop m (padd s k) sep (array_size + 1)
       else array_size_loop m (padd s 1) sep array_size
     }
     else Some array_size
   }"

definition get_array_size :: "cmem \<Rightarrow> ptr \<Rightarrow> char \<Rightarrow> nat option" where
  "get_array_size m s sep = array_size_loop m s sep 1"

text \<open>
  The array of pointers is an object of 8 bytes per entry; its entries are kept beside the memory
  as the list \<open>arr\<close>, \<open>None\<close> for a null pointer. Freeing stops at the first null entry.
\<close>

fun free_entries :: "ptr option list \<Rightarrow> cmem \<Rightarrow> cmem option" where
  "free_entries [] m = None"
| "free_entries (None # arr) m = Some m"
| "free_entries (Some p # arr) m = do { m1 \<leftarrow> free p m; free_entries arr m1 }"

definition ft_all_free :: "ptr \<Rightarrow> ptr option list \<Rightarrow> cmem \<Rightarrow> cmem option" where
  "ft_all_free septed_arr arr m = do { m1 \<leftarrow> free_entries arr m; free septed_arr m1 }"

type_synonym ptr_array = "ptr \<times> ptr option list"

partial_function (option) split_loop ::
    "allocator \<Rightarrow> char \<Rightarrow> ptr \<Rightarrow> ptr option list \<Rightarrow> ptr \<Rightarrow> nat \<Rightarrow> cmem \<Rightarrow> (ptr_array option \<times> cmem) option" where
  "split_loop alloc sep septed_arr arr s i m = do {
     c \<leftarrow> load m s;
     if c \<noteq> NUL then do {
       k \<leftarrow> get_token_len m s sep;
       if 0 < k then do {
         (r, m1) \<leftarrow> ft_substr alloc (Some s) 0 k m;
         if i < length arr then
           (case r of
              None \<Rightarrow> do { m2 \<leftarrow> ft_all_free septed_arr (arr[i := None]) m1; Some (None, m2) }
            | Some p \<Rightarrow> split_loop alloc sep septed_arr (arr[i := Some p]) (padd s k) (i + 1) m1)
         else None
       }
       else split_loop alloc sep septed_arr arr (padd s 1) i m
     }
     else Some (Some (septed_arr, arr), m)
   }"

definition ft_split :: "allocator \<Rightarrow> ptr option \<Rightarrow> char \<Rightarrow> cmem \<Rightarrow> (ptr_array option \<times> cmem) option" where
  "ft_split alloc s c m = (case s of
     None \<Rightarrow> Some (None, m)
   | Some s \<Rightarrow> do {
       n \<leftarrow> get_array_size m s c;
       (r, m1) \<leftarrow> ft_calloc alloc n 8 m;
       case r of
         None \<Rightarrow> Some (None, m1)
       | Some p \<Rightarrow> split_loop alloc c p (replicate n None) s 0 m1
     })"


section \<open>Specification\<close>

function tokens :: "char \<Rightarrow> string \<Rightarrow> string list" where
  "tokens sep s = (case s of
     [] \<Rightarrow> []
   | c # s' \<Rightarrow> (if c = sep then tokens sep s'
       else takeWhile (\<lambda>d. d \<noteq> sep) s # tokens sep (dropWhile (\<lambda>d. d \<noteq> sep) s)))"
  by auto
termination
  by (relation "measure (\<lambda>(sep, s). length s)") (auto simp: le_imp_less_Suc length_dropWhile_le)

declare tokens.simps [simp del]

lemma tokens_simps [simp]:
  "tokens sep [] = []" "tokens sep (sep # s) = tokens sep s"
  "c \<noteq> sep \<Longrightarrow> tokens sep (c # s) = takeWhile (\<lambda>d. d \<noteq> sep) (c # s) # tokens sep (dropWhile (\<lambda>d. d \<noteq> sep) (c # s))"
  by (simp_all add: tokens.simps [of sep "[]"] tokens.simps [of sep "_ # _"])

lemma tokens_wf: "t \<in> set (tokens sep s) \<Longrightarrow> t \<noteq> [] \<and> sep \<notin> set t"
proof (induction sep s rule: tokens.induct)
  case (1 sep s)
  then show ?case
    by (cases s) (auto simp: tokens.simps [of sep "_ # _"] dest: set_takeWhileD split: if_splits)
qed

lemma tokens_concat: "concat (tokens sep s) = filter (\<lambda>d. d \<noteq> sep) s"
proof (induction sep s rule: tokens.induct)
  case (1 sep s)
  show ?case
  proof (cases s)
    case (Cons c s')
    show ?thesis
    proof (cases "c = sep")
      case False
      have "filter (\<lambda>d. d \<noteq> sep) s = takeWhile (\<lambda>d. d \<noteq> sep) s @ filter (\<lambda>d. d \<noteq> sep) (dropWhile (\<lambda>d. d \<noteq> sep) s)"
        by (metis (no_types, lifting) filter_True filter_append set_takeWhileD takeWhile_dropWhile_id)
      with 1 False Cons show ?thesis by simp
    qed (use 1 Cons in simp)
  qed simp
qed

section \<open>Token lengths and the array size\<close>

lemma token_len_run:
  "c_string m p s \<Longrightarrow> token_len_loop m p sep k = Some (k + length (takeWhile (\<lambda>d. d \<noteq> sep) s))"
  by (induction s arbitrary: p k; subst token_len_loop.simps) simp_all

lemma get_token_len_string [simp]:
  "c_string m p s \<Longrightarrow> get_token_len m p sep = Some (length (takeWhile (\<lambda>d. d \<noteq> sep) s))"
  by (simp add: get_token_len_def token_len_run)

lemma c_string_after_token:
  "c_string m p s \<Longrightarrow> c_string m (padd p (length (takeWhile P s))) (dropWhile P s)"
  unfolding dropWhile_eq_drop by (intro c_string_suffix length_takeWhile_le)

lemma array_size_run: "c_string m p s \<Longrightarrow> array_size_loop m p sep k = Some (k + length (tokens sep s))"
proof (induction sep s arbitrary: p k rule: tokens.induct)
  case (1 sep s)
  show ?case
  proof (cases s)
    case Nil
    with 1 show ?thesis by (subst array_size_loop.simps) simp
  next
    case (Cons c s')
    show ?thesis
    proof (cases "c = sep")
      case True
      with Cons "1.prems" have s': "c_string m (padd p 1) s'" "load m p = Some c" "c \<noteq> NUL" by auto
      have "get_token_len m p sep = Some 0" using get_token_len_string [OF "1.prems", of sep] Cons True by simp
      with s' "1.IH"(1) [OF Cons True s'(1)] show ?thesis using Cons True by (subst array_size_loop.simps) simp
    next
      case False
      let ?k = "length (takeWhile (\<lambda>d. d \<noteq> sep) s)"
      have "0 < ?k" using Cons False by simp
      moreover have "load m p = Some c" "c \<noteq> NUL" using "1.prems" Cons by auto
      moreover note "1.IH"(2) [OF Cons False c_string_after_token [OF "1.prems"]]
      ultimately show ?thesis using get_token_len_string [OF "1.prems", of sep] Cons False
        by (subst array_size_loop.simps) simp
    qed
  qed
qed

lemma length_tokens: "length (tokens sep s) \<le> length s"
proof (induction sep s rule: tokens.induct)
  case (1 sep s)
  then show ?case
  proof (cases s)
    case (Cons c s')
    with 1 show ?thesis
      using length_dropWhile_le [of "\<lambda>d. d \<noteq> sep" s'] by (cases "c = sep") fastforce+
  qed simp
qed

section \<open>The loop\<close>

text \<open>The entries filled so far: consecutive new objects from number \<open>k\<close> on.\<close>

primrec entries :: "nat \<Rightarrow> nat \<Rightarrow> ptr option list" where
  "entries k 0 = []"
| "entries k (Suc n) = Some (k, 0) # entries (Suc k) n"

primrec allocs :: "allocator \<Rightarrow> nat \<Rightarrow> string list \<Rightarrow> bool" where
  "allocs alloc k [] = True"
| "allocs alloc k (t # ts) \<longleftrightarrow> alloc k (length t + 1) \<noteq> None \<and> allocs alloc (Suc k) ts"

lemma length_entries [simp]: "length (entries k n) = n"
  by (induction n arbitrary: k) auto

lemma entries_snoc: "entries k n @ [Some (k + n, 0)] = entries k (Suc n)"
  by (induction n arbitrary: k) (simp, metis add_Suc add_Suc_right append_Cons entries.simps(2))

lemma free_entries_run:
  "[] \<notin> set bs \<Longrightarrow> free_entries (entries (length m) (length bs) @ None # arr) (m @ bs)
     = Some (m @ replicate (length bs) [])"
proof (induction bs arbitrary: m)
  case (Cons b bs)
  from Cons.IH [of "m @ [[]]"] Cons.prems show ?case by (auto simp: free_def nth_append)
qed simp

lemma ft_all_free_run:
  "[] \<notin> set bs \<Longrightarrow> z \<noteq> [] \<Longrightarrow>
     ft_all_free (length m, 0) (entries (Suc (length m)) (length bs) @ None # arr) (m @ z # bs)
     = Some (m @ replicate (Suc (length bs)) [])"
  using free_entries_run [of bs "m @ [z]" arr] by (simp add: ft_all_free_def free_def nth_append list_update_append)

definition terminated :: "string list \<Rightarrow> char list list" where
  "terminated ts = map (\<lambda>t. t @ [NUL]) ts"

lemma terminated_simps [simp]: "[] \<notin> set (terminated ts)" "length (terminated ts) = length ts"
    "terminated (ts @ us) = terminated ts @ terminated us" "terminated [t] = [t @ [NUL]]" "terminated [] = []"
  by (auto simp: terminated_def)

lemma split_run:
  assumes "malloc_spec alloc" "z \<noteq> []" "c_string m p s" "length s < SIZE_T_MAX"
  shows "\<exists>j. split_loop alloc sep (length m, 0) (entries (Suc (length m)) (length ts) @
        replicate (length (tokens sep s) + 1) None) p (length ts) (m @ z # terminated ts)
      = Some (if allocs alloc (Suc (length m) + length ts) (tokens sep s)
          then (Some ((length m, 0), entries (Suc (length m)) (length (ts @ tokens sep s)) @ [None]),
                m @ z # terminated (ts @ tokens sep s))
          else (None, m @ replicate j []))"
  using assms(3,4)
proof (induction sep s arbitrary: p ts rule: tokens.induct)
  case (1 sep s)
  have str: "c_string (m @ z # terminated ts) p s" using "1.prems" by simp
  show ?case
  proof (cases s)
    case Nil
    with str show ?thesis by (subst split_loop.simps) simp
  next
    case (Cons c s')
    have c: "load (m @ z # terminated ts) p = Some c" "c \<noteq> NUL" using str Cons by auto
    show ?thesis
    proof (cases "c = sep")
      case True
      have "get_token_len (m @ z # terminated ts) p sep = Some 0"
        using get_token_len_string [OF str, of sep] Cons True by simp
      moreover have str': "c_string m (padd p 1) s'" "length s' < SIZE_T_MAX" using "1.prems" Cons by simp_all
      have toks: "tokens sep s = tokens sep s'" using Cons True by simp
      have "\<exists>j. split_loop alloc sep (length m, 0) (entries (Suc (length m)) (length ts) @
          replicate (length (tokens sep s) + 1) None) (padd p 1) (length ts) (m @ z # terminated ts)
        = Some (if allocs alloc (Suc (length m) + length ts) (tokens sep s)
            then (Some ((length m, 0), entries (Suc (length m)) (length (ts @ tokens sep s)) @ [None]),
                  m @ z # terminated (ts @ tokens sep s))
            else (None, m @ replicate j []))"
        using "1.IH"(1) [OF Cons True str', of ts] unfolding toks .
      ultimately show ?thesis using c by (subst split_loop.simps) (simp del: replicate_Suc)
    next
      case False
      let ?t = "takeWhile (\<lambda>d. d \<noteq> sep) s" and ?r = "dropWhile (\<lambda>d. d \<noteq> sep) s"
      have toks: "tokens sep s = ?t # tokens sep ?r" "0 < length ?t" using Cons False by auto
      have len: "get_token_len (m @ z # terminated ts) p sep = Some (length ?t)" using str by simp
      have "take (length ?t) s = ?t" by (rule takeWhile_eq_take [symmetric])
      with ft_substr_string [OF assms(1) str, of 0 "length ?t"] "1.prems"
      have sub: "ft_substr alloc (Some p) 0 (length ?t) (m @ z # terminated ts) = Some (
          case alloc (Suc (length m) + length ts) (length ?t + 1) of
            None \<Rightarrow> (None, m @ z # terminated ts)
          | Some _ \<Rightarrow> (Some (Suc (length m) + length ts, 0), m @ z # terminated (ts @ [?t])))"
        by (simp split: option.split)
      show ?thesis
      proof (cases "alloc (Suc (length m) + length ts) (length ?t + 1)")
        case None
        from ft_all_free_run [of "terminated ts" z m "replicate (length (tokens sep ?r) + 1) None"] assms(2)
        have "ft_all_free (length m, 0) (entries (Suc (length m)) (length ts) @ None #
            replicate (length (tokens sep ?r) + 1) None) (m @ z # terminated ts)
          = Some (m @ replicate (Suc (length ts)) [])" by simp
        with None sub len c toks show ?thesis
          by (subst split_loop.simps) (auto simp: list_update_append intro!: exI [of _ "Suc (length ts)"])
      next
        case (Some b)
        have "c_string m (padd p (length ?t)) ?r" using "1.prems" c_string_after_token by blast
        moreover have "length ?r < SIZE_T_MAX" using "1.prems" length_dropWhile_le order_le_less_trans by blast
        ultimately obtain j where IH: "split_loop alloc sep (length m, 0) (entries (Suc (length m)) (length (ts @ [?t])) @
            replicate (length (tokens sep ?r) + 1) None) (padd p (length ?t)) (length (ts @ [?t])) (m @ z # terminated (ts @ [?t]))
          = Some (if allocs alloc (Suc (length m) + length (ts @ [?t])) (tokens sep ?r)
              then (Some ((length m, 0), entries (Suc (length m)) (length ((ts @ [?t]) @ tokens sep ?r)) @ [None]),
                    m @ z # terminated ((ts @ [?t]) @ tokens sep ?r))
              else (None, m @ replicate j []))"
          using "1.IH"(2) [OF Cons False] by blast
        have upd: "(entries (Suc (length m)) (length ts) @ replicate (length (tokens sep s) + 1) None)
              [length ts := Some (Suc (length m) + length ts, 0)]
            = entries (Suc (length m)) (length (ts @ [?t])) @ replicate (length (tokens sep ?r) + 1) None"
          using toks entries_snoc [of "Suc (length m)" "length ts"]
          by (simp add: list_update_append del: entries.simps)
        have "split_loop alloc sep (length m, 0) (entries (Suc (length m)) (length ts) @
            replicate (length (tokens sep s) + 1) None) p (length ts) (m @ z # terminated ts)
          = split_loop alloc sep (length m, 0) (entries (Suc (length m)) (length (ts @ [?t])) @
            replicate (length (tokens sep ?r) + 1) None) (padd p (length ?t)) (length (ts @ [?t])) (m @ z # terminated (ts @ [?t]))"
          using Some sub len c toks(2) unfolding upd [symmetric]
          by (subst split_loop.simps) (simp del: replicate_Suc entries.simps)
        also note IH
        also have "(ts @ [?t]) @ tokens sep ?r = ts @ tokens sep s" using toks(1) by simp
        also have "allocs alloc (Suc (length m) + length (ts @ [?t])) (tokens sep ?r)
            = allocs alloc (Suc (length m) + length ts) (tokens sep s)"
          using Some toks(1) by simp
        finally show ?thesis by blast
      qed
    qed
  qed
qed

lemma ft_split_string:
  assumes "malloc_spec alloc" "c_string m p s" "length s < SIZE_T_MAX div 8"
  shows "\<exists>j. ft_split alloc (Some p) sep m = Some (
      if alloc (length m) ((length (tokens sep s) + 1) * 8) \<noteq> None \<and> allocs alloc (Suc (length m)) (tokens sep s)
      then (Some ((length m, 0), entries (Suc (length m)) (length (tokens sep s)) @ [None]),
            m @ replicate ((length (tokens sep s) + 1) * 8) NUL # terminated (tokens sep s))
      else (None, m @ replicate j []))"
proof -
  let ?n = "1 + length (tokens sep s)"
  have "get_array_size m p sep = Some ?n" using assms(2) by (simp add: get_array_size_def array_size_run)
  moreover have "?n * 8 \<le> SIZE_T_MAX" 
  proof -
    have "?n \<le> SIZE_T_MAX div 8" using assms(3) length_tokens [of sep s] by linarith
    then show ?thesis by (simp only: less_eq_div_iff_mult_less_eq)
  qed
  with assms(1) have "ft_calloc alloc ?n 8 m = Some (case alloc (length m) (?n * 8) of
      None \<Rightarrow> (None, m) | Some _ \<Rightarrow> (Some (length m, 0), m @ [replicate (?n * 8) NUL]))"
    by (intro ft_calloc_run) auto
  moreover have "\<exists>j. split_loop alloc sep (length m, 0) (entries (Suc (length m)) (length ([] :: string list)) @
        replicate (length (tokens sep s) + 1) None) p (length ([] :: string list)) (m @ replicate (?n * 8) NUL # terminated [])
      = Some (if allocs alloc (Suc (length m) + length ([] :: string list)) (tokens sep s)
          then (Some ((length m, 0), entries (Suc (length m)) (length ([] @ tokens sep s)) @ [None]),
                m @ replicate (?n * 8) NUL # terminated ([] @ tokens sep s))
          else (None, m @ replicate j []))"
    by (rule split_run [OF assms(1) _ assms(2)]) (use assms(3) in auto)
  ultimately show ?thesis
    by (cases "alloc (length m) (?n * 8)")
      (auto simp: ft_split_def algebra_simps simp del: replicate_Suc intro: exI [of _ 0])
qed

section \<open>Properties\<close>

text \<open>C33: \<open>ft_split\<close> returns a NULL-terminated array of fresh strings, the maximal runs without the
  separator, in order; if any allocation fails it returns NULL with everything it had allocated
  released.\<close>

theorem split_tokens:
  assumes "malloc_spec alloc" "c_string m p s" "length s < SIZE_T_MAX div 8"
  shows "\<exists>j. ft_split alloc (Some p) sep m = Some (
      if alloc (length m) ((length (tokens sep s) + 1) * 8) \<noteq> None \<and> allocs alloc (Suc (length m)) (tokens sep s)
      then (Some ((length m, 0), entries (Suc (length m)) (length (tokens sep s)) @ [None]),
            m @ replicate ((length (tokens sep s) + 1) * 8) NUL # terminated (tokens sep s))
      else (None, m @ replicate j []))"
  by (rule ft_split_string [OF assms])

theorem split_tokens_witness:
  "ft_split plenty (Some (0, 0)) (CHR '','') ['',a,,b'' @ [NUL]]
     = Some (Some ((1, 0), [Some (2, 0), Some (3, 0), None]),
         ['',a,,b'' @ [NUL], replicate 24 NUL, ''a'' @ [NUL], ''b'' @ [NUL]])"
proof -
  have "tokens (CHR '','') '',a,,b'' = [''a'', ''b'']" by (simp add: tokens.simps)
  with split_tokens [of plenty "['',a,,b'' @ [NUL]]" "(0, 0)" "'',a,,b''" "CHR '',''"] show ?thesis
    by (simp add: SIZE_T_MAX_def load_def terminated_def)
qed

end
