(* ===== verification/LibftList.thy ===== *)
theory LibftList
  imports Prelude
begin

text \<open>
  The linked lists of \<open>libft\<close> (\<open>libft.h\<close>, \<open>ft_lst*.c\<close>). Nodes live in a heap, a partial
  function from addresses; \<open>malloc\<close> is a parameter that picks an unused address or fails; the
  callbacks act on a state of the caller. Dereferencing a null or freed node is \<open>None\<close>.
  \<open>is_list h p ns\<close> says that the nodes \<open>ns\<close>, addresses with contents, hang off \<open>p\<close>.
\<close>

record 'a t_list =
  content :: 'a
  nxt :: "nat option"

type_synonym 'a node_heap = "nat \<Rightarrow> 'a t_list option"
type_synonym 'a node_alloc = "'a node_heap \<Rightarrow> nat option"

definition node_alloc_spec :: "'a node_alloc \<Rightarrow> bool" where
  "node_alloc_spec alloc \<longleftrightarrow> (\<forall>h a. alloc h = Some a \<longrightarrow> h a = None)"

section \<open>Operations\<close>

definition ft_lstnew :: "'a node_alloc \<Rightarrow> 'a \<Rightarrow> 'a node_heap \<Rightarrow> nat option \<times> 'a node_heap" where
  "ft_lstnew alloc c h = (case alloc h of
     None \<Rightarrow> (None, h)
   | Some a \<Rightarrow> (Some a, h(a \<mapsto> \<lparr>content = c, nxt = None\<rparr>)))"

text \<open>\<open>lst\<close> is the address of a head pointer: \<open>None\<close> when null, else the head it holds; the
  new head is returned in the same form.\<close>

definition ft_lstadd_front :: "nat option option \<Rightarrow> nat option \<Rightarrow> 'a node_heap
    \<Rightarrow> (nat option option \<times> 'a node_heap) option" where
  "ft_lstadd_front lst new h = (case lst of
     None \<Rightarrow> Some (None, h)
   | Some head \<Rightarrow> do {
       a \<leftarrow> new;
       nd \<leftarrow> h a;
       Some (Some (Some a), h(a \<mapsto> nd\<lparr>nxt := head\<rparr>))
     })"

partial_function (option) lstsize_loop :: "'a node_heap \<Rightarrow> nat option \<Rightarrow> int \<Rightarrow> int option" where
  "lstsize_loop h lst sz = (case lst of
     None \<Rightarrow> Some sz
   | Some a \<Rightarrow> do { nd \<leftarrow> h a; lstsize_loop h (nxt nd) (sz + 1) })"

definition ft_lstsize :: "nat option \<Rightarrow> 'a node_heap \<Rightarrow> int option" where
  "ft_lstsize lst h = lstsize_loop h lst 0"

partial_function (option) lstlast_loop :: "'a node_heap \<Rightarrow> nat \<Rightarrow> nat option" where
  "lstlast_loop h a = do {
     nd \<leftarrow> h a;
     case nxt nd of None \<Rightarrow> Some a | Some b \<Rightarrow> lstlast_loop h b
   }"

definition ft_lstlast :: "nat option \<Rightarrow> 'a node_heap \<Rightarrow> nat option option" where
  "ft_lstlast lst h = (case lst of
     None \<Rightarrow> Some None
   | Some a \<Rightarrow> do { b \<leftarrow> lstlast_loop h a; Some (Some b) })"

definition ft_lstadd_back :: "nat option option \<Rightarrow> nat option \<Rightarrow> 'a node_heap
    \<Rightarrow> (nat option option \<times> 'a node_heap) option" where
  "ft_lstadd_back lst new h = (case lst of
     None \<Rightarrow> Some (None, h)
   | Some None \<Rightarrow> Some (Some new, h)
   | Some head \<Rightarrow> do {
       last_node \<leftarrow> ft_lstlast head h;
       a \<leftarrow> last_node;
       nd \<leftarrow> h a;
       Some (Some head, h(a \<mapsto> nd\<lparr>nxt := new\<rparr>))
     })"

definition ft_lstdelone :: "nat option \<Rightarrow> ('a \<Rightarrow> 's \<Rightarrow> 's) option \<Rightarrow> 'a node_heap \<Rightarrow> 's
    \<Rightarrow> ('a node_heap \<times> 's) option" where
  "ft_lstdelone lst del h s = (case (lst, del) of
     (Some a, Some del) \<Rightarrow> do { nd \<leftarrow> h a; Some (h(a := None), del (content nd) s) }
   | _ \<Rightarrow> Some (h, s))"

partial_function (option) lstclear_loop :: "('a \<Rightarrow> 's \<Rightarrow> 's) \<Rightarrow> nat option \<Rightarrow> 'a node_heap \<Rightarrow> 's
    \<Rightarrow> (nat option \<times> 'a node_heap \<times> 's) option" where
  "lstclear_loop del lst h s = (case lst of
     None \<Rightarrow> Some (None, h, s)
   | Some a \<Rightarrow> do {
       nd \<leftarrow> h a;
       (h1, s1) \<leftarrow> ft_lstdelone (Some a) (Some del) h s;
       lstclear_loop del (nxt nd) h1 s1
     })"

definition ft_lstclear :: "nat option option \<Rightarrow> ('a \<Rightarrow> 's \<Rightarrow> 's) option \<Rightarrow> 'a node_heap \<Rightarrow> 's
    \<Rightarrow> (nat option option \<times> 'a node_heap \<times> 's) option" where
  "ft_lstclear lst del h s = (case (lst, del) of
     (Some head, Some del) \<Rightarrow> do { (p, h1, s1) \<leftarrow> lstclear_loop del head h s; Some (Some p, h1, s1) }
   | _ \<Rightarrow> Some (lst, h, s))"

partial_function (option) ft_lstiter :: "('a \<Rightarrow> 's \<Rightarrow> 's) \<Rightarrow> nat option \<Rightarrow> 'a node_heap \<Rightarrow> 's \<Rightarrow> 's option" where
  "ft_lstiter f lst h s = (case lst of
     None \<Rightarrow> Some s
   | Some a \<Rightarrow> do { nd \<leftarrow> h a; ft_lstiter f (nxt nd) h (f (content nd) s) })"

partial_function (option) lstmap_loop :: "'a node_alloc \<Rightarrow> ('a \<Rightarrow> 's \<Rightarrow> 'a \<times> 's) \<Rightarrow> ('a \<Rightarrow> 's \<Rightarrow> 's)
    \<Rightarrow> nat \<Rightarrow> nat \<Rightarrow> nat option \<Rightarrow> 'a node_heap \<Rightarrow> 's \<Rightarrow> (nat option \<times> 'a node_heap \<times> 's) option" where
  "lstmap_loop alloc f del mp current_node lst h s = (case lst of
     None \<Rightarrow> Some (Some mp, h, s)
   | Some a \<Rightarrow> do {
       nd \<leftarrow> h a;
       let (c, s1) = f (content nd) s;
       let (r, h1) = ft_lstnew alloc c h;
       cur \<leftarrow> h1 current_node;
       let h2 = h1(current_node \<mapsto> cur\<lparr>nxt := r\<rparr>);
       case r of
         None \<Rightarrow> do { (_, h3, s2) \<leftarrow> ft_lstclear (Some (Some mp)) (Some del) h2 s1; Some (None, h3, s2) }
       | Some b \<Rightarrow> do { nd2 \<leftarrow> h2 a; lstmap_loop alloc f del mp b (nxt nd2) h2 s1 }
     })"

definition ft_lstmap :: "'a node_alloc \<Rightarrow> nat option \<Rightarrow> ('a \<Rightarrow> 's \<Rightarrow> 'a \<times> 's) option \<Rightarrow> ('a \<Rightarrow> 's \<Rightarrow> 's) option
    \<Rightarrow> 'a node_heap \<Rightarrow> 's \<Rightarrow> (nat option \<times> 'a node_heap \<times> 's) option" where
  "ft_lstmap alloc lst f del h s = (case (lst, f, del) of
     (Some a, Some f, Some del) \<Rightarrow> do {
       nd \<leftarrow> h a;
       let (c, s1) = f (content nd) s;
       case ft_lstnew alloc c h of
         (None, h1) \<Rightarrow> Some (None, h1, s1)
       | (Some mp, h1) \<Rightarrow> do { nd1 \<leftarrow> h1 a; lstmap_loop alloc f del mp mp (nxt nd1) h1 s1 }
     }
   | _ \<Rightarrow> Some (None, h, s))"

section \<open>Lists in the heap\<close>

primrec list_at :: "'a node_heap \<Rightarrow> nat option \<Rightarrow> (nat \<times> 'a) list \<Rightarrow> bool" where
  "list_at h p [] \<longleftrightarrow> p = None"
| "list_at h p (n # ns) \<longleftrightarrow> p = Some (fst n) \<and>
     (case h (fst n) of None \<Rightarrow> False | Some nd \<Rightarrow> content nd = snd n \<and> list_at h (nxt nd) ns)"

definition is_list :: "'a node_heap \<Rightarrow> nat option \<Rightarrow> (nat \<times> 'a) list \<Rightarrow> bool" where
  "is_list h p ns \<longleftrightarrow> list_at h p ns \<and> distinct (map fst ns)"

lemma list_at_cong: "(\<And>a. a \<in> fst ` set ns \<Longrightarrow> h a = h' a) \<Longrightarrow> list_at h p ns = list_at h' p ns"
  by (induction ns arbitrary: p) (auto split: option.splits)

lemma list_at_upd [simp]: "a \<notin> fst ` set ns \<Longrightarrow> list_at (h(a := x)) p ns = list_at h p ns"
  by (rule list_at_cong) auto

lemma list_at_dom: "list_at h p ns \<Longrightarrow> n \<in> set ns \<Longrightarrow> h (fst n) \<noteq> None"
  by (induction ns arbitrary: p) (auto split: option.splits)

lemma lstsize_run: "list_at h p ns \<Longrightarrow> lstsize_loop h p k = Some (k + int (length ns))"
  by (induction ns arbitrary: p k; subst lstsize_loop.simps) (auto split: option.splits)

lemma ft_lstsize_list: "is_list h p ns \<Longrightarrow> ft_lstsize p h = Some (int (length ns))"
  using lstsize_run [of h p ns 0] by (simp add: ft_lstsize_def is_list_def)

lemma ft_lstiter_list: "is_list h p ns \<Longrightarrow> ft_lstiter f p h s = Some (fold f (map snd ns) s)"
  unfolding is_list_def
proof (elim conjE)
  show "list_at h p ns \<Longrightarrow> ft_lstiter f p h s = Some (fold f (map snd ns) s)"
    by (induction ns arbitrary: p s; subst ft_lstiter.simps) (auto split: option.splits)
qed

lemma lstlast_run: "list_at h (Some a) (n # ns) \<Longrightarrow> lstlast_loop h a = Some (fst (last (n # ns)))"
proof (induction ns arbitrary: a n)
  case Nil
  then show ?case by (subst lstlast_loop.simps) (auto split: option.splits)
next
  case (Cons n' ns)
  then obtain nd where nd: "h a = Some nd" "nxt nd = Some (fst n')" "list_at h (Some (fst n')) (n' # ns)"
    by (auto split: option.splits)
  from Cons.IH [OF nd(3)] nd show ?case by (subst lstlast_loop.simps) simp
qed

lemma ft_lstadd_front_list:
  "is_list h p ns \<Longrightarrow> h a = Some nd \<Longrightarrow> a \<notin> fst ` set ns \<Longrightarrow>
     \<exists>h'. ft_lstadd_front (Some p) (Some a) h = Some (Some (Some a), h') \<and> is_list h' (Some a) ((a, content nd) # ns)"
  by (auto simp: ft_lstadd_front_def is_list_def)

text \<open>Appending: only the last link changes.\<close>

lemma list_at_append:
  "list_at h p (ns @ [l]) \<Longrightarrow> distinct (map fst (ns @ [l])) \<Longrightarrow> h (fst l) = Some nd \<Longrightarrow> list_at h q ms \<Longrightarrow>
     fst l \<notin> fst ` set ms \<Longrightarrow> list_at (h(fst l \<mapsto> nd\<lparr>nxt := q\<rparr>)) p (ns @ l # ms)"
  by (induction ns arbitrary: p) (auto split: option.splits)

lemma ft_lstadd_back_list:
  assumes "is_list h p ns" "is_list h q ms" "fst ` set ns \<inter> fst ` set ms = {}"
  shows "\<exists>p' h'. ft_lstadd_back (Some p) q h = Some (Some p', h') \<and> is_list h' p' (ns @ ms)"
proof (cases ns rule: rev_cases)
  case Nil
  with assms show ?thesis by (auto simp: ft_lstadd_back_def is_list_def)
next
  case (snoc ks l)
  obtain n ns' where ns: "ns = n # ns'" using snoc by (metis append_is_Nil_conv neq_Nil_conv list.simps(3))
  with assms have p: "p = Some (fst n)" by (simp add: is_list_def)
  have "list_at h (Some (fst n)) (n # ns')" using assms(1) ns by (simp add: is_list_def)
  from lstlast_run [OF this] have "lstlast_loop h (fst n) = Some (fst l)" using ns snoc by (metis last_snoc)
  moreover obtain nd where nd: "h (fst l) = Some nd"
    using list_at_dom [of h p ns l] assms(1) snoc by (auto simp: is_list_def)
  moreover have "list_at (h(fst l \<mapsto> nd\<lparr>nxt := q\<rparr>)) p (ks @ l # ms)"
    using assms snoc nd by (intro list_at_append) (auto simp: is_list_def)
  ultimately show ?thesis using assms snoc p
    by (auto simp: ft_lstadd_back_def ft_lstlast_def is_list_def)
qed

text \<open>Clearing frees exactly the nodes of the list, in order.\<close>

lemma lstclear_run:
  "list_at h p ns \<Longrightarrow> distinct (map fst ns) \<Longrightarrow>
     lstclear_loop del p h s = Some (None, (\<lambda>a. if a \<in> fst ` set ns then None else h a), fold del (map snd ns) s)"
proof (induction ns arbitrary: p h s)
  case Nil
  then show ?case by (subst lstclear_loop.simps) simp
next
  case (Cons n ns)
  then obtain nd where nd: "p = Some (fst n)" "h (fst n) = Some nd" "content nd = snd n" "list_at h (nxt nd) ns"
    by (auto split: option.splits)
  have "lstclear_loop del (nxt nd) (h(fst n := None)) (del (snd n) s) = Some (None,
      (\<lambda>a. if a \<in> fst ` set ns then None else (h(fst n := None)) a), fold del (map snd ns) (del (snd n) s))"
    using Cons.prems nd by (intro Cons.IH) (simp_all del: fun_upd_apply)
  with nd show ?case by (subst lstclear_loop.simps) (auto simp: ft_lstdelone_def fun_eq_iff)
qed

lemma ft_lstclear_list:
  "is_list h p ns \<Longrightarrow> ft_lstclear (Some p) (Some del) h s
     = Some (Some None, (\<lambda>a. if a \<in> fst ` set ns then None else h a), fold del (map snd ns) s)"
  using lstclear_run [of h p ns del s] by (simp add: ft_lstclear_def is_list_def)

section \<open>Mapping\<close>

text \<open>The results of the callback in order, with its effects.\<close>

primrec map_contents :: "('a \<Rightarrow> 's \<Rightarrow> 'a \<times> 's) \<Rightarrow> 'a list \<Rightarrow> 's \<Rightarrow> 'a list \<times> 's" where
  "map_contents f [] s = ([], s)"
| "map_contents f (x # xs) s = (let (y, s1) = f x s; (ys, s2) = map_contents f xs s1 in (y # ys, s2))"

text \<open>The heap \<open>h\<close> is the heap \<open>h0\<close> with a new list beside it.\<close>

definition beside :: "'a node_heap \<Rightarrow> 'a node_heap \<Rightarrow> nat option \<Rightarrow> (nat \<times> 'a) list \<Rightarrow> bool" where
  "beside h0 h p ms \<longleftrightarrow> is_list h p ms \<and> fst ` set ms \<inter> dom h0 = {} \<and> (\<forall>a. a \<notin> fst ` set ms \<longrightarrow> h a = h0 a)"

lemma beside_old: "beside h0 h p ms \<Longrightarrow> h0 a = Some nd \<Longrightarrow> h a = Some nd"
  unfolding beside_def by (metis disjoint_iff domI)

lemma beside_list: "beside h0 h p ms \<Longrightarrow> list_at h0 q ns \<Longrightarrow> list_at h q ns"
  by (induction ns arbitrary: q) (auto split: option.splits dest: beside_old)

lemma beside_clear:
  "beside h0 h (Some mp) ms \<Longrightarrow> \<exists>s'. ft_lstclear (Some (Some mp)) (Some del) h s = Some (Some None, h0, s')"
proof -
  assume b: "beside h0 h (Some mp) ms"
  then have "(\<lambda>a. if a \<in> fst ` set ms then None else h a) = h0"
    unfolding beside_def by (intro ext) (metis disjoint_iff domIff)
  with b ft_lstclear_list [of h "Some mp" ms del s] show ?thesis by (simp add: beside_def)
qed

lemma beside_last:
  assumes "beside h0 h p (ks @ [l])"
  obtains nd where "h (fst l) = Some nd" "nxt nd = None" "content nd = snd l"
proof -
  have "list_at h q (ks @ [l]) \<Longrightarrow> \<exists>nd. h (fst l) = Some nd \<and> nxt nd = None \<and> content nd = snd l" for q
    by (induction ks arbitrary: q) (auto split: option.splits)
  moreover have "list_at h p (ks @ [l])" using assms by (simp add: beside_def is_list_def)
  ultimately show ?thesis using that by blast
qed

lemma beside_snoc:
  assumes "beside h0 h p (ks @ [l])" "h b = None" "h (fst l) = Some nd"
  shows "beside h0 (h(b \<mapsto> \<lparr>content = c, nxt = None\<rparr>, fst l \<mapsto> nd\<lparr>nxt := Some b\<rparr>)) p ((ks @ [l]) @ [(b, c)])"
proof -
  let ?h = "h(b \<mapsto> \<lparr>content = c, nxt = None\<rparr>)"
  have new: "b \<notin> fst ` set (ks @ [l])"
    using assms(1,2) list_at_dom [of h p "ks @ [l]"] by (fastforce simp: beside_def is_list_def)
  then have "h0 b = None" using assms(1,2) by (simp add: beside_def)
  have "list_at (?h(fst l \<mapsto> nd\<lparr>nxt := Some b\<rparr>)) p (ks @ l # [(b, c)])"
    using assms new by (intro list_at_append) (auto simp: beside_def is_list_def)
  with assms(1) new \<open>h0 b = None\<close> show ?thesis by (auto simp: beside_def is_list_def)
qed

lemma lstmap_run:
  assumes "node_alloc_spec alloc" "list_at h0 lst ns" "beside h0 h (Some mp) (ks @ [l])"
  shows "\<exists>q h' s'. lstmap_loop alloc f del mp (fst l) lst h s = Some (q, h', s') \<and>
    (q = None \<and> h' = h0 \<or> (\<exists>ms. beside h0 h' q (ks @ l # ms)
       \<and> map_contents f (map snd ns) s = (map snd ms, s')))"
  using assms(2,3)
proof (induction ns arbitrary: lst h ks l s)
  case Nil
  then show ?case by (subst lstmap_loop.simps) (auto intro: exI [of _ "[]"])
next
  case (Cons n ns)
  obtain cur where cur: "h (fst l) = Some cur" "nxt cur = None" using beside_last [OF Cons.prems(2)] by metis
  obtain nd where nd: "lst = Some (fst n)" "h0 (fst n) = Some nd" "content nd = snd n" "list_at h0 (nxt nd) ns"
    using Cons.prems(1) by (auto split: option.splits)
  note hn = beside_old [OF Cons.prems(2) nd(2)]
  obtain c s1 where f: "f (snd n) s = (c, s1)" by force
  show ?case
  proof (cases "alloc h")
    case None
    have "cur\<lparr>nxt := None\<rparr> = cur" using cur(2) by simp
    then have "h(fst l \<mapsto> cur\<lparr>nxt := None\<rparr>) = h" using cur(1) by (simp add: fun_upd_idem)
    with beside_clear [OF Cons.prems(2), of del s1] show ?thesis
      using nd hn f None cur by (subst lstmap_loop.simps) (auto simp: ft_lstnew_def)
  next
    case (Some b)
    then have "h b = None" using assms(1) by (simp add: node_alloc_spec_def)
    let ?h = "h(b \<mapsto> \<lparr>content = c, nxt = None\<rparr>, fst l \<mapsto> cur\<lparr>nxt := Some b\<rparr>)"
    have bes: "beside h0 ?h (Some mp) ((ks @ [l]) @ [(b, c)])"
      using Cons.prems(2) \<open>h b = None\<close> cur(1) by (rule beside_snoc)
    have "fst l \<noteq> b" using cur \<open>h b = None\<close> by auto
    then have "lstmap_loop alloc f del mp (fst l) lst h s = lstmap_loop alloc f del mp b (nxt nd) ?h s1"
      using nd hn f Some cur beside_old [OF bes nd(2)]
      by (subst lstmap_loop.simps) (simp add: ft_lstnew_def del: fun_upd_apply, simp)
    moreover from Cons.IH [OF nd(4) bes, of s1] obtain q h' s' where
      "lstmap_loop alloc f del mp b (nxt nd) ?h s1 = Some (q, h', s')"
      "q = None \<and> h' = h0 \<or> (\<exists>ms. beside h0 h' q ((ks @ [l]) @ (b, c) # ms)
         \<and> map_contents f (map snd ns) s1 = (map snd ms, s'))" unfolding fst_conv by blast
    ultimately show ?thesis using f by (auto intro: exI [of _ "(b, c) # _"])
  qed
qed

lemma ft_lstmap_list:
  assumes "node_alloc_spec alloc" "is_list h p ns" "ns \<noteq> []"
  shows "\<exists>q h' s'. ft_lstmap alloc p (Some f) (Some del) h s = Some (q, h', s') \<and>
    (q = None \<and> h' = h \<or> (\<exists>ms. beside h h' q ms \<and> map_contents f (map snd ns) s = (map snd ms, s')))"
proof -
  obtain n ns' where ns: "ns = n # ns'" using assms(3) by (cases ns) auto
  obtain nd where nd: "p = Some (fst n)" "h (fst n) = Some nd" "content nd = snd n" "list_at h (nxt nd) ns'"
    using assms(2) ns by (auto simp: is_list_def split: option.splits)
  obtain c s1 where f: "f (snd n) s = (c, s1)" by force
  show ?thesis
  proof (cases "alloc h")
    case None
    with nd f show ?thesis by (simp add: ft_lstmap_def ft_lstnew_def)
  next
    case (Some b)
    then have "h b = None" using assms(1) by (simp add: node_alloc_spec_def)
    let ?h = "h(b \<mapsto> \<lparr>content = c, nxt = None\<rparr>)"
    have "beside h ?h (Some b) ([] @ [(b, c)])" using \<open>h b = None\<close> by (auto simp: beside_def is_list_def)
    from lstmap_run [OF assms(1) nd(4) this, of f del s1] obtain q h' s' where
      "lstmap_loop alloc f del b b (nxt nd) ?h s1 = Some (q, h', s')"
      "q = None \<and> h' = h \<or> (\<exists>ms. beside h h' q ((b, c) # ms) \<and> map_contents f (map snd ns') s1 = (map snd ms, s'))"
      unfolding fst_conv append_Nil by blast
    moreover have "?h (fst n) = Some nd" using nd(2) \<open>h b = None\<close> by auto
    ultimately show ?thesis using nd f Some ns
      by (auto simp: ft_lstmap_def ft_lstnew_def simp del: fun_upd_apply intro: exI [of _ "(b, c) # _"])
  qed
qed

section \<open>Properties\<close>

text \<open>C35: \<open>ft_lstmap\<close> leaves the given list as it is and returns a new list, beside it, of the values
  of the function applied in order; or it returns NULL with the heap as it was, every node of the
  unfinished copy having been released.\<close>

theorem lstmap_copies:
  assumes "node_alloc_spec alloc" "is_list h p ns" "ns \<noteq> []"
  shows "\<exists>q h' s'. ft_lstmap alloc p (Some f) (Some del) h s = Some (q, h', s') \<and>
    (q = None \<and> h' = h \<or> (\<exists>ms. beside h h' q ms \<and> map_contents f (map snd ns) s = (map snd ms, s')))"
  by (rule ft_lstmap_list [OF assms])

definition one_node :: "nat node_alloc" where
  "one_node h = (if h 8 = None then Some 8 else None)"

theorem lstmap_copies_witness:
  "\<exists>q h' s'. ft_lstmap one_node (Some 7) (Some (\<lambda>x s. (x + 1, s))) (Some (\<lambda>x s. s))
     [7 \<mapsto> \<lparr>content = 3, nxt = None\<rparr>] (0 :: nat) = Some (q, h', s') \<and>
    (q = None \<and> h' = [7 \<mapsto> \<lparr>content = 3, nxt = None\<rparr>] \<or> (\<exists>ms. beside [7 \<mapsto> \<lparr>content = 3, nxt = None\<rparr>] h' q ms
       \<and> map_contents (\<lambda>x s. (x + 1, s)) (map snd [(7 :: nat, 3)]) 0 = (map snd ms, s')))"
  by (rule lstmap_copies) (simp_all add: node_alloc_spec_def one_node_def is_list_def)

end
