(* ===== verification/Bonus.thy ===== *)
theory Bonus
  imports ChannelCommands Framing "HOL-Library.Word"
begin

unbundle bit_operations_syntax

text \<open>
  The bonus bot (\<open>src/bonus\<close>): the line buffer, the formatter of client commands, the bot
  itself and the argument checks of \<open>main\<close>. The bot uses the parser of the
  server (\<open>IrcMessage\<close>). An exception is \<open>Inl\<close> with its text; system calls are parameters.
\<close>

section \<open>Line buffer\<close>

record line_buffer =
  lb_buffer :: string
  lb_lines :: "string list"

definition new_LineBuffer :: line_buffer where
  "new_LineBuffer = \<lparr>lb_buffer = [], lb_lines = []\<rparr>"

definition strip_last_cr :: "string \<Rightarrow> string" where
  "strip_last_cr line = (if line \<noteq> [] \<and> line ! (length line - 1) = CR then take (length line - 1) line else line)"

function lb_split :: "line_buffer \<Rightarrow> line_buffer" where
  "lb_split b = (if LF \<in> set (lb_buffer b)
     then (let lineEnd = length (takeWhile (\<lambda>c. c \<noteq> LF) (lb_buffer b)) in
       lb_split (b\<lparr>lb_lines := lb_lines b @ [strip_last_cr (take lineEnd (lb_buffer b))],
                   lb_buffer := drop (lineEnd + 1) (lb_buffer b)\<rparr>))
     else b)"
  by auto
termination by (relation "measure (\<lambda>b. length (lb_buffer b))") (auto simp: in_set_conv_nth)

declare lb_split.simps [simp del]

definition lb_append :: "string \<Rightarrow> line_buffer \<Rightarrow> line_buffer" where
  "lb_append data b = lb_split (b\<lparr>lb_buffer := lb_buffer b @ data\<rparr>)"

definition hasLine :: "line_buffer \<Rightarrow> bool" where
  "hasLine b \<longleftrightarrow> lb_lines b \<noteq> []"

definition lb_popLine :: "line_buffer \<Rightarrow> string \<times> line_buffer" where
  "lb_popLine b = (case lb_lines b of [] \<Rightarrow> ([], b) | l # ls \<Rightarrow> (l, b\<lparr>lb_lines := ls\<rparr>))"

section \<open>Formatter\<close>

definition fmt_pass :: "string \<Rightarrow> string" where
  "fmt_pass password = ''PASS '' @ password @ CRLF"

definition fmt_nick :: "string \<Rightarrow> string" where
  "fmt_nick nickname = ''NICK '' @ nickname @ CRLF"

definition fmt_user :: "string \<Rightarrow> string \<Rightarrow> string" where
  "fmt_user username realname = ''USER '' @ username @ '' 0 * :'' @ realname @ CRLF"

definition fmt_pong :: "string \<Rightarrow> string" where
  "fmt_pong token = ''PONG :'' @ token @ CRLF"

definition fmt_join :: "string \<Rightarrow> string" where
  "fmt_join channel = ''JOIN '' @ channel @ CRLF"

definition commandWithTrailing :: "string \<Rightarrow> string \<Rightarrow> string \<Rightarrow> string" where
  "commandWithTrailing command target trailing = command @ '' '' @ target @ '' :'' @ trailing @ CRLF"

definition fmt_privmsg :: "string \<Rightarrow> string \<Rightarrow> string" where
  "fmt_privmsg target trailing = commandWithTrailing ''PRIVMSG'' target trailing"

definition fmt_quit :: "string \<Rightarrow> string" where
  "fmt_quit message = ''QUIT :'' @ message @ CRLF"

section \<open>Bot\<close>

record bot =
  bot_host :: string
  bot_port :: string
  bot_password :: string
  bot_channel :: string
  bot_nickname :: string
  bot_fd :: int
  bot_running :: bool
  bot_joined :: bool
  bot_lineBuffer :: line_buffer
  bot_outbox :: "string list"

definition new_Bot :: "string \<Rightarrow> string \<Rightarrow> string \<Rightarrow> string \<Rightarrow> string \<Rightarrow> bot" where
  "new_Bot host port password channel nickname =
     \<lparr>bot_host = host, bot_port = port, bot_password = password, bot_channel = channel, bot_nickname = nickname,
      bot_fd = - 1, bot_running = True, bot_joined = False, bot_lineBuffer = new_LineBuffer, bot_outbox = []\<rparr>"

definition enqueue :: "string \<Rightarrow> bot \<Rightarrow> bot" where
  "enqueue line b = b\<lparr>bot_outbox := bot_outbox b @ [line]\<rparr>"

definition enqueueRegistration :: "bot \<Rightarrow> bot" where
  "enqueueRegistration b =
     (let b1 = (if bot_password b \<noteq> [] then enqueue (fmt_pass (bot_password b)) b else b);
          b2 = enqueue (fmt_nick (bot_nickname b)) b1
      in enqueue (fmt_user (bot_nickname b) ''ft_irc bonus bot'') b2)"

text \<open>The addresses \<open>getaddrinfo\<close> returned, each with the results of \<open>socket\<close> and
  \<open>connect\<close>; the last \<open>_fd\<close> is kept.\<close>

fun connect_loop :: "(int \<times> bool) list \<Rightarrow> int \<Rightarrow> int" where
  "connect_loop [] fd = fd"
| "connect_loop ((sock, connected) # rest) fd =
     (if sock < 0 then connect_loop rest sock
      else if connected then sock
      else connect_loop rest (- 1))"

definition connectToServer :: "(int \<times> bool) list option \<Rightarrow> bool \<Rightarrow> bot \<Rightarrow> string + bot" where
  "connectToServer addrs nonblocking b = (case addrs of
     None \<Rightarrow> Inl ''getaddrinfo failed''
   | Some as \<Rightarrow> (let fd = connect_loop as (bot_fd b) in
       if fd < 0 then Inl ''could not connect to IRC server''
       else if \<not> nonblocking then Inl ''fcntl(O_NONBLOCK) failed''
       else Inr (b\<lparr>bot_fd := fd\<rparr>)))"

text \<open>\<open>now\<close> is the formatted local time, \<open>None\<close> when \<open>localtime\<close> or \<open>strftime\<close> fail.\<close>

definition currentTimeText :: "string option \<Rightarrow> string" where
  "currentTimeText now = (case now of None \<Rightarrow> ''time unavailable'' | Some t \<Rightarrow> t)"

definition buildCommandReply :: "string option \<Rightarrow> string \<Rightarrow> bot \<Rightarrow> string \<times> bot" where
  "buildCommandReply now cmd b =
     (if cmd = ''!help'' then (''commands: !help !ping !echo <text> !time !quit'', b)
      else if cmd = ''!ping'' then (''pong'', b)
      else if take 6 cmd = ''!echo '' then (drop 6 cmd, b)
      else if cmd = ''!time'' then (currentTimeText now, b)
      else if cmd = ''!quit'' then (''bye'', (enqueue (fmt_quit ''bonus bot shutting down'') b)\<lparr>bot_running := False\<rparr>)
      else (''unknown command; try !help'', b))"

definition senderNick :: "string \<Rightarrow> string" where
  "senderNick prefix =
     (if CHR ''!'' \<in> set prefix then takeWhile (\<lambda>c. c \<noteq> CHR ''!'') prefix
      else if CHR ''@'' \<in> set prefix then takeWhile (\<lambda>c. c \<noteq> CHR ''@'') prefix
      else prefix)"

definition bot_replyTarget :: "message \<Rightarrow> string" where
  "bot_replyTarget m = (let target = getSingleParam m 0 in
     if target \<noteq> [] \<and> (target ! 0 = CHR ''#'' \<or> target ! 0 = CHR ''&'') then target
     else senderNick (msg_prefix m))"

definition sendReply :: "message \<Rightarrow> string \<Rightarrow> bot \<Rightarrow> bot" where
  "sendReply m reply b = (if reply \<noteq> [] then enqueue (fmt_privmsg (bot_replyTarget m) reply) b else b)"

definition bot_handlePrivmsg :: "string option \<Rightarrow> message \<Rightarrow> bot \<Rightarrow> bot" where
  "bot_handlePrivmsg now m b =
     (if \<not> hasParam m 1 then b
      else (let cmd = getSingleParam m 1 in
        if cmd = [] \<or> cmd ! 0 \<noteq> CHR ''!'' then b
        else (let (reply, b1) = buildCommandReply now cmd b in sendReply m reply b1)))"

definition handleMessage :: "string option \<Rightarrow> message \<Rightarrow> bot \<Rightarrow> bot" where
  "handleMessage now m b =
     (if msg_command m = ''PING'' \<and> hasParam m 0 then enqueue (fmt_pong (getSingleParam m 0)) b
      else if msg_command m = ''001'' \<and> \<not> bot_joined b then (enqueue (fmt_join (bot_channel b)) b)\<lparr>bot_joined := True\<rparr>
      else if msg_command m = ''PRIVMSG'' then bot_handlePrivmsg now m b
      else b)"

text \<open>The loop over the complete lines: each is taken from the buffer and handled.\<close>

partial_function (option) bot_lines_loop :: "string option \<Rightarrow> bot \<Rightarrow> bot option" where
  "bot_lines_loop now b =
     (if hasLine (bot_lineBuffer b)
      then (let (line, lb) = lb_popLine (bot_lineBuffer b) in
        bot_lines_loop now (handleMessage now (parse line) (b\<lparr>bot_lineBuffer := lb\<rparr>)))
      else Some b)"

text \<open>\<open>recv\<close>: \<open>None\<close> on error, otherwise the bytes, none at the end of the stream.\<close>

definition readFromServer :: "string option \<Rightarrow> string option \<Rightarrow> bot \<Rightarrow> (string + bot) option" where
  "readFromServer now received b = (case received of
     None \<Rightarrow> Some (Inl ''recv failed'')
   | Some data \<Rightarrow> (if data = [] then Some (Inl ''server closed connection'')
       else map_option Inr (bot_lines_loop now (b\<lparr>bot_lineBuffer := lb_append data (bot_lineBuffer b)\<rparr>))))"

text \<open>\<open>send k line\<close> is the result of the \<open>k\<close>-th call. The first component is what goes out.\<close>

primrec flush_loop :: "(nat \<Rightarrow> string \<Rightarrow> int) \<Rightarrow> nat \<Rightarrow> string list \<Rightarrow> string \<times> (string + string list)" where
  "flush_loop send k [] = ([], Inr [])"
| "flush_loop send k (line # outbox) =
     (let sent = send k line in
      if sent \<le> 0 then ([], Inl ''send failed'')
      else (let rest = drop (nat sent) line in
        if rest \<noteq> [] then (take (nat sent) line, Inr (rest # outbox))
        else (let (out, r) = flush_loop send (k + 1) outbox in (take (nat sent) line @ out, r))))"

definition flushOutput :: "(nat \<Rightarrow> string \<Rightarrow> int) \<Rightarrow> bot \<Rightarrow> string \<times> (string + bot)" where
  "flushOutput send b = (let (out, r) = flush_loop send 0 (bot_outbox b) in
     (out, case r of Inl err \<Rightarrow> Inl err | Inr q \<Rightarrow> Inr (b\<lparr>bot_outbox := q\<rparr>)))"

record bot_env =
  be_ready :: int
  be_revents :: "16 word"
  be_recv :: "string option"
  be_send :: "nat \<Rightarrow> string \<Rightarrow> int"
  be_now :: "string option"

text \<open>One turn of the loop in \<open>run\<close> (\<open>POLLERR | POLLHUP | POLLNVAL\<close> is 0x38).\<close>

definition bot_turn :: "bot_env \<Rightarrow> bot \<Rightarrow> (string + bot) option" where
  "bot_turn y b =
     (if be_ready y < 0 then Some (Inl ''poll failed'')
      else if be_ready y = 0 then Some (Inr b)
      else if be_revents y AND 0x38 \<noteq> 0 then Some (Inl ''server connection closed'')
      else do {
        r \<leftarrow> (if be_revents y AND 1 \<noteq> 0 then readFromServer (be_now y) (be_recv y) b else Some (Inr b));
        case r of
          Inl err \<Rightarrow> Some (Inl err)
        | Inr b1 \<Rightarrow> Some (if be_revents y AND 4 \<noteq> 0 then snd (flushOutput (be_send y) b1) else Inr b1)
      })"

text \<open>The turns the environment offers; the loop ends when \<open>_running\<close> is cleared.\<close>

fun bot_loop :: "bot_env list \<Rightarrow> bot \<Rightarrow> (string + bot) option" where
  "bot_loop [] b = Some (Inr b)"
| "bot_loop (y # ys) b =
     (if \<not> bot_running b then Some (Inr b)
      else do {
        r \<leftarrow> bot_turn y b;
        case r of Inl err \<Rightarrow> Some (Inl err) | Inr b1 \<Rightarrow> bot_loop ys b1
      })"

text \<open>The loop after it flushes until nothing is queued; \<open>sends t\<close> are the results of
  \<open>send\<close> during the \<open>t\<close>-th call of \<open>flushOutput\<close>.\<close>

partial_function (option) bot_drain ::
  "(nat \<Rightarrow> nat \<Rightarrow> string \<Rightarrow> int) \<Rightarrow> nat \<Rightarrow> bot \<Rightarrow> (string \<times> (string + bot)) option" where
  "bot_drain sends t b =
     (if bot_outbox b \<noteq> []
      then (case flushOutput (sends t) b of (out, r) \<Rightarrow>
        (case r of
           Inl err \<Rightarrow> Some (out, Inl err)
         | Inr b1 \<Rightarrow> Option.bind (bot_drain sends (t + 1) b1) (\<lambda>(out', r'). Some (out @ out', r'))))
      else Some ([], Inr b))"

definition bot_run ::
  "(int \<times> bool) list option \<Rightarrow> bool \<Rightarrow> bot_env list \<Rightarrow> (nat \<Rightarrow> nat \<Rightarrow> string \<Rightarrow> int) \<Rightarrow> bot \<Rightarrow> (string + bot) option" where
  "bot_run addrs nonblocking ys sends b = (case connectToServer addrs nonblocking b of
     Inl err \<Rightarrow> Some (Inl err)
   | Inr b1 \<Rightarrow> do {
       r \<leftarrow> bot_loop ys (enqueueRegistration b1);
       case r of
         Inl err \<Rightarrow> Some (Inl err)
       | Inr b2 \<Rightarrow> (if bot_running b2 then Some (Inr b2) else map_option snd (bot_drain sends 0 b2))
     })"

section \<open>Arguments\<close>

definition isValidPort :: "string \<Rightarrow> bool" where
  "isValidPort port =
     (if port = [] then False
      else if \<not> list_all (\<lambda>c. 48 \<le> schar c \<and> schar c \<le> 57) port then False
      else (let (val, rest, _) = strtol10 (c_str port) in rest = [] \<and> 0 < val \<and> val \<le> 65535))"

definition isValidChannel :: "string \<Rightarrow> bool" where
  "isValidChannel channel \<longleftrightarrow> channel \<noteq> [] \<and> channel ! 0 = CHR ''#''"

text \<open>\<open>main\<close> up to the construction of the bot: the error text, or the bot.\<close>

definition bonus_main :: "string list \<Rightarrow> string + bot" where
  "bonus_main argv =
     (if length argv \<noteq> 5 \<and> length argv \<noteq> 6 then Inl ''Usage''
      else (let port = argv ! 2; channel = argv ! 4;
                nickname = (if length argv = 6 then argv ! 5 else ''bonusbot'') in
        if \<not> isValidPort port then Inl (''Error: invalid port '' @ [CHR 0x27] @ port @ [CHR 0x27])
        else if \<not> isValidChannel channel then Inl ''Error: channel must start with # or &''
        else if nickname = [] then Inl ''Error: nickname must not be empty''
        else Inr (new_Bot (argv ! 1) port (argv ! 3) channel nickname)))"

section \<open>Framing\<close>

text \<open>The complete lines of a byte stream, without their ends, and the rest.\<close>

definition stream_lines :: "string \<Rightarrow> string list \<times> string" where
  "stream_lines s = (let b = lb_split \<lparr>lb_buffer = s, lb_lines = []\<rparr> in (lb_lines b, lb_buffer b))"

lemma lb_split_none: "LF \<notin> set (lb_buffer b) \<Longrightarrow> lb_split b = b"
  by (subst lb_split.simps) simp

lemma lb_split_line:
  assumes "lb_buffer b = t @ LF # s" "LF \<notin> set t"
  shows "lb_split b = lb_split (b\<lparr>lb_lines := lb_lines b @ [strip_last_cr t], lb_buffer := s\<rparr>)"
proof -
  have "takeWhile (\<lambda>c. c \<noteq> LF) (t @ LF # s) = t" using assms(2) by (induction t) auto
  with assms(1) show ?thesis by (subst lb_split.simps) simp
qed

lemma lb_split_lines:
  "lb_split \<lparr>lb_buffer = s, lb_lines = ls\<rparr> = \<lparr>lb_buffer = snd (stream_lines s), lb_lines = ls @ fst (stream_lines s)\<rparr>"
proof (induction "length s" arbitrary: s ls rule: less_induct)
  case less
  show ?case
  proof (cases s rule: first_line_cases)
    case 1
    then show ?thesis by (simp add: lb_split_none stream_lines_def)
  next
    case (2 t r)
    then have "length r < length s" by simp
    note IH = less.hyps [OF this]
    have step: "lb_split \<lparr>lb_buffer = s, lb_lines = ls\<rparr> = lb_split \<lparr>lb_buffer = r, lb_lines = ls @ [strip_last_cr t]\<rparr>" for ls
      using lb_split_line [of "\<lparr>lb_buffer = s, lb_lines = ls\<rparr>" t r] 2 by simp
    have "stream_lines s = (strip_last_cr t # fst (stream_lines r), snd (stream_lines r))"
      unfolding stream_lines_def [of s] step by (simp add: IH)
    then show ?thesis by (simp add: step IH)
  qed
qed

lemma stream_lines_none: "LF \<notin> set s \<Longrightarrow> stream_lines s = ([], s)"
  by (simp add: stream_lines_def lb_split_none)

lemma stream_lines_line:
  "LF \<notin> set t \<Longrightarrow> stream_lines (t @ LF # r) = (strip_last_cr t # fst (stream_lines r), snd (stream_lines r))"
proof -
  assume "LF \<notin> set t"
  then have "lb_split \<lparr>lb_buffer = t @ LF # r, lb_lines = []\<rparr> = lb_split \<lparr>lb_buffer = r, lb_lines = [strip_last_cr t]\<rparr>"
    using lb_split_line [of "\<lparr>lb_buffer = t @ LF # r, lb_lines = []\<rparr>" t r] by simp
  then show ?thesis unfolding stream_lines_def [of "t @ LF # r"] by (simp add: lb_split_lines)
qed

lemma lb_append_lines:
  "lb_append d b = b\<lparr>lb_buffer := snd (stream_lines (lb_buffer b @ d)), lb_lines := lb_lines b @ fst (stream_lines (lb_buffer b @ d))\<rparr>"
  using lb_split_lines [of "lb_buffer b @ d" "lb_lines b"] by (cases b) (simp add: lb_append_def)

interpretation lb: line_cutter stream_lines strip_last_cr
  by unfold_locales (simp_all add: stream_lines_none stream_lines_line)

lemma lb_append_chunks: "lb_append d2 (lb_append d1 b) = lb_append (d1 @ d2) b"
  by (cases b) (simp add: lb_append_lines lb.cut_append [of "_ @ d1" d2] flip: append_assoc)

lemma lb_append_fold: "fold lb_append ds (lb_append d b) = lb_append (d @ concat ds) b"
  by (induction ds arbitrary: d) (simp_all add: lb_append_chunks)

section \<open>Handling the lines\<close>

lemma handleMessage_lineBuffer [simp]:
  "bot_lineBuffer (handleMessage now m b) = bot_lineBuffer b"
  by (simp add: handleMessage_def bot_handlePrivmsg_def sendReply_def buildCommandReply_def enqueue_def Let_def)

definition handle_all :: "string option \<Rightarrow> string list \<Rightarrow> bot \<Rightarrow> bot" where
  "handle_all now lines b = fold (\<lambda>l. handleMessage now (parse l)) lines b"

lemma handleMessage_upd: "handleMessage now m (b\<lparr>bot_lineBuffer := lb\<rparr>) = (handleMessage now m b)\<lparr>bot_lineBuffer := lb\<rparr>"
  by (simp add: handleMessage_def bot_handlePrivmsg_def sendReply_def buildCommandReply_def enqueue_def Let_def)

lemma bot_lines_loop_run:
  "bot_lines_loop now b = Some ((handle_all now (lb_lines (bot_lineBuffer b)) b)
     \<lparr>bot_lineBuffer := (bot_lineBuffer b)\<lparr>lb_lines := []\<rparr>\<rparr>)"
proof (induction "lb_lines (bot_lineBuffer b)" arbitrary: b)
  case Nil
  then have "b\<lparr>bot_lineBuffer := (bot_lineBuffer b)\<lparr>lb_lines := []\<rparr>\<rparr> = b" by simp
  with Nil show ?case by (subst bot_lines_loop.simps) (simp add: hasLine_def handle_all_def)
next
  case (Cons l ls)
  let ?b = "handleMessage now (parse l) (b\<lparr>bot_lineBuffer := (bot_lineBuffer b)\<lparr>lb_lines := ls\<rparr>\<rparr>)"
  have "bot_lines_loop now b = bot_lines_loop now ?b"
    using Cons.hyps(2) by (subst bot_lines_loop.simps) (auto simp: hasLine_def lb_popLine_def split: list.splits)
  also have "\<dots> = Some ((handle_all now ls ?b)\<lparr>bot_lineBuffer := (bot_lineBuffer ?b)\<lparr>lb_lines := []\<rparr>\<rparr>)"
    using Cons.hyps(1) [of ?b] by simp
  also have "handle_all now ls ?b = (handle_all now (l # ls) b)\<lparr>bot_lineBuffer := (bot_lineBuffer b)\<lparr>lb_lines := ls\<rparr>\<rparr>"
  proof -
    have "handle_all now xs (c\<lparr>bot_lineBuffer := lb\<rparr>) = (handle_all now xs c)\<lparr>bot_lineBuffer := lb\<rparr>" for xs c lb
      by (induction xs arbitrary: c) (simp_all add: handle_all_def handleMessage_upd)
    then show ?thesis by (simp add: handleMessage_upd) (simp add: handle_all_def)
  qed
  finally show ?case using Cons.hyps(2) [symmetric] by simp
qed

section \<open>Output\<close>

lemma flush_loop_sent:
  "flush_loop send k q = (out, Inr q') \<Longrightarrow> out @ concat q' = concat q"
proof (induction q arbitrary: k out)
  case (Cons l q)
  show ?case
  proof (cases "flush_loop send (k + 1) q")
    case (Pair o' r)
    with Cons show ?thesis
      by (auto simp: Let_def split: if_splits)
  qed
qed simp

text \<open>A flush that does not throw makes progress, so draining the queue always ends, with
  everything sent or with the exception of \<open>send\<close>.\<close>

lemma flush_loop_progress:
  "flush_loop send k q = (out, Inr q') \<Longrightarrow> q \<noteq> [] \<Longrightarrow>
     length q' + length (concat q') < length q + length (concat q)"
proof (induction q arbitrary: k out)
  case (Cons l q)
  show ?case
  proof (cases "flush_loop send (k + 1) q")
    case (Pair o' r)
    show ?thesis
    proof (cases "q = []")
      case True
      with Cons.prems Pair show ?thesis by (auto simp: Let_def split: if_splits)
    next
      case False
      with Cons Pair show ?thesis by (fastforce simp: Let_def split: if_splits)
    qed
  qed
qed simp

lemma flushOutput_Inr:
  "flushOutput send b = (out, Inr b') \<Longrightarrow>
     \<exists>q. flush_loop send 0 (bot_outbox b) = (out, Inr q) \<and> b' = b\<lparr>bot_outbox := q\<rparr>"
  by (auto simp: flushOutput_def split: prod.splits sum.splits)

lemma bot_drain_run:
  "\<exists>out r. bot_drain sends t b = Some (out, r)
     \<and> (\<forall>b'. r = Inr b' \<longrightarrow> b' = b\<lparr>bot_outbox := []\<rparr> \<and> out = concat (bot_outbox b))"
proof (induction "length (bot_outbox b) + length (concat (bot_outbox b))" arbitrary: t b rule: less_induct)
  case less
  show ?case
  proof (cases "bot_outbox b = []")
    case True
    then have "b = b\<lparr>bot_outbox := []\<rparr>" by simp
    with True show ?thesis by (subst bot_drain.simps) simp
  next
    case False
    obtain out r where f: "flushOutput (sends t) b = (out, r)" by fastforce
    show ?thesis
    proof (cases r)
      case (Inl err)
      with f False show ?thesis by (subst bot_drain.simps) simp
    next
      case (Inr b1)
      from flushOutput_Inr [OF f [unfolded Inr]] obtain q where
        q: "flush_loop (sends t) 0 (bot_outbox b) = (out, Inr q)" "b1 = b\<lparr>bot_outbox := q\<rparr>" by blast
      then have "length (bot_outbox b1) + length (concat (bot_outbox b1)) < length (bot_outbox b) + length (concat (bot_outbox b))"
        using flush_loop_progress [OF q(1) False] by simp
      from less.hyps [OF this, of "t + 1"] obtain out' r' where
        r': "bot_drain sends (t + 1) b1 = Some (out', r')"
          "\<forall>b'. r' = Inr b' \<longrightarrow> b' = b1\<lparr>bot_outbox := []\<rparr> \<and> out' = concat (bot_outbox b1)" by blast
      have "bot_drain sends t b = Some (out @ out', r')"
        using f Inr False r'(1) by (subst bot_drain.simps) simp
      with r'(2) q(2) flush_loop_sent [OF q(1)] show ?thesis by auto
    qed
  qed
qed

section \<open>Texts the server understands\<close>

lemma parse_privmsg:
  "is_middle target \<Longrightarrow> parse (fmt_privmsg target txt) = new_Message [] ''PRIVMSG'' [target, txt]"
proof -
  assume "is_middle target"
  then have "message_wf (new_Message [] ''PRIVMSG'' [target, txt])"
    by (simp add: message_wf_def new_Message_def is_word_def isMessageSeparator_def upperCommand_def toupper_char_def uchar_def)
  from parse_print [OF this] show ?thesis
    by (simp add: print_message_def new_Message_def fmt_privmsg_def commandWithTrailing_def)
qed

lemma parse_pong: "parse (fmt_pong token) = new_Message [] ''PONG'' [token]"
proof -
  have "message_wf (new_Message [] ''PONG'' [token])"
    by (simp add: message_wf_def new_Message_def is_word_def isMessageSeparator_def upperCommand_def toupper_char_def uchar_def)
  from parse_print [OF this] show ?thesis
    by (simp add: print_message_def new_Message_def fmt_pong_def)
qed

section \<open>Properties\<close>

text \<open>C40: the line buffer of the bot does not depend on how the stream is cut into reads.\<close>

theorem bot_chunks_do_not_matter: "fold lb_append ds (lb_append d b) = lb_append (d @ concat ds) b"
  by (rule lb_append_fold)

text \<open>C39: after \<open>!quit\<close> the bot's final flush loop ends: it throws the error of \<open>send\<close>, or it has sent
  every queued byte, in order.\<close>

theorem bot_drain_ends:
  "\<exists>out r. bot_drain sends t b = Some (out, r)
     \<and> (case r of Inl err \<Rightarrow> True | Inr b' \<Rightarrow> b' = b\<lparr>bot_outbox := []\<rparr> \<and> out = concat (bot_outbox b))"
  using bot_drain_run [of sends t b] by (fastforce split: sum.splits)

text \<open>On \<open>!quit\<close> the bot queues QUIT before the reply: whoever asked gets no ``bye'', since the
  server closes the connection when it reads QUIT.\<close>

lemma bye_after_quit:
  "bot_outbox (bot_handlePrivmsg now (new_Message prefix ''PRIVMSG'' [target, ''!quit'']) b) =
     bot_outbox b @ [fmt_quit ''bonus bot shutting down'',
       fmt_privmsg (bot_replyTarget (new_Message prefix ''PRIVMSG'' [target, ''!quit''])) ''bye'']"
  by (simp add: bot_handlePrivmsg_def hasParam_def getSingleParam_def new_Message_def buildCommandReply_def sendReply_def
      enqueue_def)

end
