(* ===== verification/Spec2Isabelle.thy ===== *)
theory Spec2Isabelle
  imports EndToEnd Registration ReadSplitting ServerStart BircdRun MiniServSafety LibftSplit LibftList Bonus
begin

text \<open>
  A verification development for the IRC server \<open>ircserv\<close> and the programs that live beside it in
  the repository: the bonus bot, the practice server \<open>bircd\<close> with its library \<open>libft\<close>, and
  the exam server \<open>mini_serv\<close>. The definitions are translated from the C++98 and C sources
  function by function; \<open>None\<close> always stands for undefined behaviour (null or dangling pointer,
  access outside an object) or for a loop that does not end, so a theorem that a computation is
  \<open>Some\<close> is a theorem of memory safety and termination.

  \<^bold>\<open>The program.\<close> \<open>ircserv\<close> is one process with one \<open>poll\<close> loop, in layers:
  \<^item> layer A, \<open>src/src/a\<close>: \<open>Server\<close> owns the poll table and a \<open>Connection\<close> (receive and
    send buffer) per descriptor. A line that is complete goes to the parser and the dispatcher; the
    \<open>CommandResult\<close> that comes back is copied into the send buffers of the descriptors it names.
  \<^item> layer B, \<open>src/src/b\<close>: \<open>Parser\<close> and \<open>Message\<close>, \<open>CommandDispatcher\<close> and
    \<open>ChannelCommandHandler\<close> with one handler per command, \<open>ReplyBuilder\<close> for the texts,
    \<open>DisconnectNotifier\<close> for the QUIT lines of a lost connection.
  \<^item> layer C, \<open>src/src/c\<close>: \<open>ServerState\<close> with the registry of clients and the table of
    channels; \<open>Client\<close>, \<open>Channel\<close>, \<open>ChannelModes\<close>; the IRC comparison of names.
  \<^item> \<open>src/src/lifecycle\<close>: the PING and PONG bookkeeping.

  \<^bold>\<open>Theories and sources.\<close>
  \<^item> \<open>Prelude\<close>: the calculus \<open>succeeds\<close> / \<open>yields\<close> of total and partial results, signed
    characters, decimal text. \<open>CLib\<close>: \<open>strtol\<close>, \<open>atoi\<close>, \<open>int\<close>. \<open>Framing\<close>: the contract of
    everything that cuts a stream into lines. \<open>OrderedMap\<close>: \<open>std::map\<close> and \<open>std::set\<close> as sorted
    lists; their laws are proved in the locale \<open>strict_weak_order\<close> and interpreted on the
    descriptor order, the pointer order and \<open>IrcStringCompare\<close>.
  \<^item> \<open>Utils\<close>, \<open>ChatObjects\<close>, \<open>ServerState\<close> (\<open>src/src/c\<close>): names, objects, tables and an
    explicit heap in which \<open>new\<close> may place an object at any free address. \<open>StateInvariant\<close>,
    \<open>StateSafety\<close>, \<open>MembershipSafety\<close>: the invariant of the state, and that every operation keeps
    it and dereferences live objects only. \<open>ChannelView\<close>: the state seen as one set of descriptors
    per channel name, and the operations as insertion and deletion on these sets.
  \<^item> \<open>IrcMessage\<close>, \<open>ReplyBuilder\<close>, \<open>ChannelCommands\<close>, \<open>HealthMonitor\<close>,
    \<open>CommandDispatcher\<close> (\<open>src/src/b\<close>, \<open>src/src/lifecycle\<close>): parser, replies, handlers. The locale
    \<open>handler\<close> of \<open>HandlerSafety\<close> is the contract the dispatcher relies on; \<open>DispatchSafety\<close>
    interprets it on the eleven handlers and proves it of \<open>dispatch\<close>. \<open>CommandEffects\<close>: which
    command changes what, and who may. \<open>Identity\<close>: how PASS, NICK and USER register a client.
    \<open>Delivery\<close>: who receives a message. \<open>Registration\<close>: NICK and INVITE.
  \<^item> \<open>Connection\<close>, \<open>Server\<close>, \<open>ServerStart\<close> (\<open>src/src/a\<close>, \<open>src/src/main.cpp\<close>): buffers,
    the loop, constructor, destructor and \<open>main\<close>. \<open>ServerInvariant\<close>, \<open>ServerSafety\<close>,
    \<open>ServerLoop\<close>: the invariant of the server, one turn, any number of turns, shutdown.
    \<open>ReadSplitting\<close>: a read handles the complete lines in order, however the stream is cut.
    \<open>Scenario\<close>: a conversation of three clients, computed by the model, on which the properties
    are applied. \<open>EndToEnd\<close>: a whole turn in which one client completes one line.
  \<^item> \<open>Bonus\<close> (\<open>src/bonus\<close>): the bot with its line buffer and formatter.
  \<^item> \<open>CMemory\<close>, \<open>LibftStr\<close>, \<open>LibftSplit\<close>, \<open>LibftConv\<close>, \<open>LibftList\<close>
    (\<open>src/bircd/libft\<close>): C memory as a list of byte objects, and the library on it.
  \<^item> \<open>Bircd\<close>, \<open>BircdSafety\<close>, \<open>BircdRun\<close> (\<open>src/bircd/*.c\<close>): the practice server, with its fixed
    buffers; one turn of its loop; the states it reaches from \<open>main\<close>.
  \<^item> \<open>MiniServ\<close>, \<open>MiniServSafety\<close> (\<open>src/bircd/exam06_miniserv/mini_serv.c\<close>): the exam server; its
    handlers on strings, every write checked against the size of the buffer it goes to.

  \<^bold>\<open>State and operations.\<close> Each class is a record with the fields of the class, each method a
  function that takes and returns the record. A \<open>server\<close> holds the poll table, the connections, a
  \<open>server_state\<close> and the health monitor, and beside these fields of the class the descriptors the
  system has open for it (\<open>sv_open\<close>), which \<open>accept\<close> and \<open>close\<close> change. What the system decides is an argument: for a turn of
  \<open>Server::run\<close> the record \<open>io_env\<close> (the result of \<open>poll\<close>, the events per descriptor, the results
  of \<open>accept\<close>, \<open>recv\<close> and \<open>send\<close>, the time, the shutdown flag), for the constructor the record
  \<open>startup\<close>, for \<open>bircd\<close> the records \<open>boot\<close> and \<open>sys\<close>, for \<open>mini_serv\<close> the record
  \<open>ms_sys\<close>. The hypotheses \<open>env_ok\<close>, \<open>sys_ok\<close>, \<open>ms_sys_ok\<close> and \<open>malloc_spec\<close> state what
  POSIX promises of these results. Exceptions are values \<open>Inl\<close>, with the state in which they
  leave \<open>run\<close>.

  \<^bold>\<open>What is shown.\<close>
  \<^item> Safety: from every reachable state a turn of the server returns and keeps the invariant; a whole
    run followed by the destructor closes and frees everything, but for one descriptor in one case; \<open>bircd\<close> and \<open>mini_serv\<close> stay inside their
    buffers under stated conditions, and the ways in which \<open>bircd\<close> leaves them are theorems too.
  \<^item> Invariants: unique nicknames, agreement of clients and channels, who is registered, bounded
    receive buffers, \<open>POLLOUT\<close> exactly while output waits.
  \<^item> Commands: the effect of each on the sets of members and on who the clients are, who may change a
    channel, when JOIN succeeds, who receives PRIVMSG, NOTICE and QUIT, what is possible before the password.
  \<^item> Texts: the parser equals a grammar, printing and parsing are inverse, replies are parsed back.
  \<^item> C functions: their values for every memory and every outcome of \<open>malloc\<close>.

  \<^bold>\<open>Loops, bounds and fuel.\<close> No fuel is used. A loop is structural recursion, a function with a
  measure, or a partial function in the option type whose termination is part of the theorems.
  The loops that never end by themselves (\<open>Server::run\<close>, \<open>Bot::run\<close>, the two C servers) run over a
  list of environments, one per turn, of any length. When the list is used up the run has not ended:
  \<open>run\<close> says \<open>Running\<close>, the other loops return the state they are in. The code reads the clock
  several times in a turn, the model once; the times are only compared with each other when a client
  waits for a PONG, which never happens (C21). Poll flags
  are 16-bit words; \<open>int\<close> is 32 bits and \<open>long\<close> 64 bits in the conversions of \<open>libft\<close> and
  \<open>strtol\<close>; \<open>size_t\<close> overflow of allocation sizes is written out in \<open>ft_calloc\<close>. Descriptors and
  times are mathematical integers, since the code only compares and prints them.

  \<^bold>\<open>Not modelled.\<close> Output to the terminal (log lines, \<open>A_LAYER_DEBUG\<close>, \<open>AnsiColor.hpp\<close>) except
  where a function's purpose is its output; failure of C++ allocations (\<open>std::bad_alloc\<close>); the
  results of \<open>close\<close> and of \<open>memmove\<close> and its kin where they return their first argument, which no
  caller reads; a second \<open>SIGINT\<close> handler run in the middle of a turn (the handler only sets
  the flag that the next test reads). Sources outside the programs: the unit tests, the socket
  examples under \<open>dev_docs\<close>, the copies of system headers under \<open>linux_ref\<close>, and
  \<open>client_read_subject.c\<close> and \<open>exam06_miniserv/main.c\<close>, which are the exercise versions of files
  that are modelled: neither is built, the first uses a variable whose declaration is commented out.
\<close>

section \<open>The server as a whole\<close>

text \<open>C1: from every reachable state, for every environment that keeps the promises of POSIX, one
  turn of the poll loop returns (no pointer is dangling, no loop runs forever) and ends in a state
  that satisfies the server invariant; it throws only if \<open>fcntl\<close> fails on an accepted
  descriptor.\<close>

theorem server_turn_safe:
  assumes "reachable p l pw v" "env_ok env v"
  shows "succeeds (serve_events env v) (turn_ok env)"
  using reachable_inv [OF assms(1)] assms(2) by (intro serve_events_succeeds) auto

theorem server_turn_safe_witness:
  "succeeds (serve_events (receiving 4 (''PRIVMSG #c :hi'' @ CRLF)) demo) (turn_ok (receiving 4 (''PRIVMSG #c :hi'' @ CRLF)))"
  by (rule server_turn_safe [OF demo_reachable]) (simp add: buf_size_def)

text \<open>C2: a whole life of the server: from a constructor that returned and over any number of turns,
  \<open>run\<close> returns, throws or is still serving; from the state it is then in, the destructor returns,
  closes every descriptor the server was handed, the listening one included, and frees every client
  and every channel. One descriptor stays open in one case: when \<open>run\<close> threw because \<open>fcntl\<close> failed on
  the descriptor \<open>accept\<close> had just returned, that one.\<close>

theorem server_lifetime:
  assumes "fst (Server_ctor p y prt pw) = Inr v" "envs_ok envs v"
  shows "succeeds (run envs v) (\<lambda>r. succeeds (closeAllFds (final_server r)) (\<lambda>w.
      sv_pollfds w = [] \<and> sv_connections w = [] \<and> may_stay_open envs r (set (sv_open w))
      \<and> deref_client (sv_state w) = Map.empty \<and> deref_channel (sv_state w) = Map.empty))"
proof -
  from assms(1) have v: "v = new_Server p (su_socket y) pw" "0 \<le> su_socket y" by (simp_all add: Server_ctor_server)
  note new = new_Server_inv [of p "su_socket y" pw]
  show ?thesis
    by (rule succeeds_mono [OF run_succeeds [OF new(1-3) assms(2) [unfolded v(1)], folded v(1)]])
      (use v(2) new(4) in \<open>auto simp: v(1) elim!: succeeds_mono [OF closeAllFds_succeeds]\<close>)
qed

text \<open>One client is served and the server then told to stop; and one connection on which \<open>fcntl\<close> fails.\<close>

definition start_ok :: startup where
  "start_ok = startup_fcntl\<lparr>su_fcntl := True\<rparr>"

theorem server_lifetime_witness:
  "succeeds (run [accepting 4, quiet_env\<lparr>env_shutdown_after := True\<rparr>] (new_Server (\<lambda>_. 1) 3 ''pw''))
     (\<lambda>r. succeeds (closeAllFds (final_server r)) (\<lambda>w. sv_open w = []))
   \<and> succeeds (run [(accepting 4)\<lparr>env_accept := AcceptedFcntlFailed 4 ''h''\<rparr>] (new_Server (\<lambda>_. 1) 3 ''pw''))
     (\<lambda>r. succeeds (closeAllFds (final_server r)) (\<lambda>w. set (sv_open w) = {4}))"
proof -
  let ?v = "new_Server (\<lambda>_. 1) 3 ''pw''" and ?bad = "(accepting 4)\<lparr>env_accept := AcceptedFcntlFailed 4 ''h''\<rparr>"
  have ctor: "fst (Server_ctor (\<lambda>_. 1) start_ok 6667 ''pw'') = Inr ?v"
    by (simp add: Server_ctor_server start_ok_def startup_fcntl_def)
  have ok: "env_ok (accepting 4) ?v"
    by (rule env_ok_accepting) (simp_all add: new_Server_def addFd_def find_connection_def)
  then have good: "envs_ok [accepting 4, quiet_env\<lparr>env_shutdown_after := True\<rparr>] ?v"
    by (simp add: accept_new_def env_ok_def accept_ok_def) (simp add: accepting_def quiet_env_def new_Server_def)
  have bad: "envs_ok [?bad] ?v"
    by (simp add: accept_new_def env_ok_def accept_ok_def) (simp add: accepting_def quiet_env_def new_Server_def)
  have "(case run [?bad] ?v of Some (Thrown e w) \<Rightarrow> e = ''fcntl(O_NONBLOCK) failed'' | _ \<Rightarrow> False)" by code_simp
  then obtain w where thrown: "run [?bad] ?v = Some (Thrown ''fcntl(O_NONBLOCK) failed'' w)"
    by (auto split: option.splits run_result.splits)
  have none: "may_stay_open [accepting 4, quiet_env\<lparr>env_shutdown_after := True\<rparr>] r L \<Longrightarrow> L = {}" for r L
    by (auto simp: may_stay_open_def accepting_def quiet_env_def split: if_splits)
  have one: "may_stay_open [?bad] (Thrown ''fcntl(O_NONBLOCK) failed'' w) L \<Longrightarrow> L = {4}" for L
    by (simp add: may_stay_open_def)
  have "succeeds (run [accepting 4, quiet_env\<lparr>env_shutdown_after := True\<rparr>] ?v)
     (\<lambda>r. succeeds (closeAllFds (final_server r)) (\<lambda>w. sv_open w = []))"
    by (rule succeeds_mono [OF server_lifetime [OF ctor good]], erule succeeds_mono) (use none in fastforce)
  moreover have "succeeds (closeAllFds w) (\<lambda>w. set (sv_open w) = {4})"
    using server_lifetime [OF ctor bad] unfolding thrown succeeds_Some final_server.simps
    by (rule succeeds_mono) (use one in blast)
  ultimately show ?thesis by (simp only: thrown succeeds_Some final_server.simps)
qed

text \<open>C6: nicknames are unique up to the case rules of IRC, and valid.\<close>

theorem nicknames_unique:
  assumes "reachable p l pw v" "deref_client (sv_state v) a = Some c" "deref_client (sv_state v) b = Some d"
    and "cl_nickname c \<noteq> []" "irc_key (cl_nickname c) = irc_key (cl_nickname d)"
  shows "a = b \<and> isValidNickname (cl_nickname c)"
proof -
  have core: "core_inv (sv_state v)" using reachable_inv [OF assms(1)] server_invD(1) by blast
  have d: "cl_nickname d \<noteq> []" using assms(4,5) by (auto simp: irc_key_def)
  have "getClientByNick (sv_state v) (cl_nickname c) = Some a" "getClientByNick (sv_state v) (cl_nickname d) = Some b"
    using core_invD(3) [OF core] assms(2-4) d unfolding nick_inv_def by blast+
  with lookup_equivalent(1) [OF assms(5), of "sv_state v"] live_client_rules [OF core assms(2)] assms(4)
  show ?thesis by (auto simp: client_rules_def)
qed

theorem nicknames_unique_witness: "isValidNickname ''ann''"
  using nicknames_unique [OF demo_reachable, of 1 "user ''ann'' 4 [4]" 1 "user ''ann'' 4 [4]"]
  by (simp add: deref_client_def demo_tables user_def)

text \<open>C7: a client is registered exactly if it has given the password, a nickname, a user name and a
  real name: nobody is let in early, and nobody who has given everything is left waiting. Before the
  password the server stores none of the names.\<close>

theorem registration_complete:
  assumes "reachable p l pw v" "deref_client (sv_state v) a = Some c"
  shows "(cl_registered c \<longleftrightarrow> cl_passOk c \<and> cl_nickname c \<noteq> [] \<and> cl_username c \<noteq> [] \<and> cl_realname c \<noteq> [])
    \<and> (\<not> cl_passOk c \<longrightarrow> cl_nickname c = [] \<and> cl_username c = [] \<and> cl_realname c = [])"
proof -
  have "reg_inv (sv_state v)" using reachable_inv [OF assms(1)] server_invD(9) by blast
  with assms(2) have "reg_rule c" by (simp add: reg_inv_def)
  then show ?thesis by (simp add: reg_rule_def canRegister_def)
qed

theorem registration_complete_witness: "cl_registered (user ''ann'' 4 [4]) \<and> \<not> cl_registered (new_Client 4 ''h'')"
proof -
  have "deref_client (sv_state lobby) 1 = Some (new_Client 4 ''h'')" by code_simp
  from registration_complete [OF lobby_reachable this] registration_complete [OF demo_reachable demo_lookup(4)]
  show ?thesis by (simp add: user_def new_Client_def)
qed

text \<open>C5: clients and channels agree on who has joined what; no channel is empty; only registered
  clients have joined anything.\<close>

theorem membership_consistent:
  assumes "reachable p l pw v"
  shows "(\<forall>x h a. deref_channel (sv_state v) x = Some h \<longrightarrow>
      (hasMember h a \<longleftrightarrow> (\<exists>c. deref_client (sv_state v) a = Some c \<and> x \<in> set (cl_channels c))))
    \<and> (\<forall>x h. deref_channel (sv_state v) x = Some h \<longrightarrow> (\<exists>a. hasMember h a))
    \<and> (\<forall>a c x. deref_client (sv_state v) a = Some c \<longrightarrow> x \<in> set (cl_channels c) \<longrightarrow>
        cl_registered c \<and> (\<exists>h. deref_channel (sv_state v) x = Some h \<and> hasMember h a))"
proof -
  have inv: "state_inv (sv_state v)" using reachable_inv [OF assms] server_invD(1) by blast
  then have core: "core_inv (sv_state v)" by blast
  have "\<exists>a. hasMember h a" if "deref_channel (sv_state v) x = Some h" for x h
    using state_invD(2) [OF inv] that channel_isEmpty_iff [OF live_channel_wf [OF core that]]
    by (auto simp: nonempty_inv_def)
  moreover have "cl_registered c" if "deref_client (sv_state v) a = Some c" "x \<in> set (cl_channels c)" for a c x
    using live_client_rules [OF core that(1)] that(2) by (auto simp: client_rules_def)
  moreover have "hasMember h a" if "deref_channel (sv_state v) x = Some h" "deref_client (sv_state v) a = Some c"
    "x \<in> set (cl_channels c)" for x h a c
    using joined_channel [OF core that(2,3)] that(1) by auto
  ultimately show ?thesis using live_member [OF core] joined_channel [OF core] by blast
qed

theorem membership_consistent_witness: "hasMember room 2"
  using conjunct1 [OF membership_consistent [OF demo_reachable], rule_format, of 4 room 2]
  by (simp add: deref_client_def deref_channel_def demo_tables user_def)

text \<open>C18: between two turns no receive buffer holds a complete line, and none is longer than one
  \<open>recv\<close> can make it.\<close>

theorem receive_buffers_bounded:
  assumes "reachable p l pw v" "find_connection v fd = Some conn"
  shows "LF \<notin> set (cn_recvBuffer conn) \<and> length (cn_recvBuffer conn) \<le> buf_size"
  using reachable_inv [OF assms(1)] assms(2) by (auto simp: recv_inv_def recv_bounded_def)

theorem receive_buffers_bounded_witness: "length ''NICK'' \<le> buf_size"
proof -
  let ?v = "turn (receiving 4 ''NICK'') lobby"
  have r: "reachable (\<lambda>_. 1) 3 ''pw'' ?v"
    by (rule reachable_turn [OF lobby_reachable]) (simp add: buf_size_def)
  have "find_connection ?v 4 = Some ((new_Connection 4)\<lparr>cn_recvBuffer := ''NICK''\<rparr>)" by code_simp
  from receive_buffers_bounded [OF r this] show ?thesis by simp
qed


text \<open>C19: how TCP cuts the stream does not matter: reading two pieces one after the other has the
  effect of reading them at once, on every connection and on the chat, unless a line is too long,
  which closes the connection; a QUIT in the first piece ends the reading in both cases.\<close>

theorem reads_do_not_matter:
  assumes "reachable p l pw v" "find_connection v fd = Some conn" "length (d1 @ d2) \<le> buf_size + 1"
    and "\<not> isLineTooLong (conn\<lparr>cn_recvBuffer := cn_recvBuffer conn @ d1 @ d2\<rparr>)"
    and "\<not> isLineTooLong (conn\<lparr>cn_recvBuffer := after_last_LF (cn_recvBuffer conn @ d1) @ d2\<rparr>)"
  shows "\<exists>ok w. handleRead fd (Some (d1 @ d2)) now v = Some (ok, w)
    \<and> do { (ok1, v1) \<leftarrow> handleRead fd (Some d1) now v;
          if ok1 then handleRead fd (Some d2) now v1 else Some (False, v1) } = Some (ok, w)"
proof -
  have inv: "server_inv v" "recv_inv {} v" using reachable_inv [OF assms(1)] by auto
  from handleRead_succeeds [OF inv, of fd "Some (d1 @ d2)" now] assms(2,3)
  obtain ok w where run: "handleRead fd (Some (d1 @ d2)) now v = Some (ok, w)" unfolding succeeds_iff by auto
  note two = handleRead_append [OF inv(1) assms(2,4,5), of now]
  from run run [unfolded two] show ?thesis by blast
qed

theorem reads_do_not_matter_witness:
  "\<exists>ok w. handleRead 4 (Some (''PRIVMSG #c :h'' @ ''i'' @ CRLF)) 0 demo = Some (ok, w)
    \<and> do { (ok1, v1) \<leftarrow> handleRead 4 (Some ''PRIVMSG #c :h'') 0 demo;
          if ok1 then handleRead 4 (Some (''i'' @ CRLF)) 0 v1 else Some (False, v1) } = Some (ok, w)"
proof -
  have "map_option cn_recvBuffer (find_connection demo 4) = Some []" by code_simp
  then obtain conn where conn: "find_connection demo 4 = Some conn" "cn_recvBuffer conn = []" by auto
  have rest: "after_last_LF ''PRIVMSG #c :h'' = ''PRIVMSG #c :h''" by (simp add: after_last_LF_simps)
  show ?thesis
    by (rule reads_do_not_matter [OF demo_reachable conn(1)])
      (simp_all add: conn(2) rest isLineTooLong_iff buf_size_def)
qed

text \<open>C17: every connection has exactly one entry in the poll table, and that entry asks for
  \<open>POLLOUT\<close> exactly while output is waiting: nothing queued is forgotten, and the loop does not
  spin on an empty buffer.\<close>

theorem pollout_iff_pending:
  assumes "reachable p l pw v" "find_connection v fd = Some conn"
  shows "\<exists>q. filter (\<lambda>q. pfd_fd q = fd) (sv_pollfds v) = [q]
    \<and> (pfd_events q AND POLLOUT \<noteq> 0 \<longleftrightarrow> cn_sendBuffer conn \<noteq> [])"
proof -
  have inv: "poll_inv (sv_pollfds v) (sv_listenFd v) (find_connection v)"
    using reachable_inv [OF assms(1)] server_invD(6) by blast
  have "fd \<in> pfd_fd ` set (sv_pollfds v)" using inv assms(2) unfolding poll_inv_def by auto
  then obtain q where q: "q \<in> set (sv_pollfds v)" "pfd_fd q = fd" by auto
  have "filter (\<lambda>q. pfd_fd q = fd) (sv_pollfds v) = [q]"
    using filter_key_unique [of pfd_fd "sv_pollfds v" q] inv q unfolding poll_inv_def by simp
  moreover have "watches_out q \<longleftrightarrow> hasPendingOutput conn"
    using inv assms(2) q unfolding poll_inv_def by blast
  ultimately show ?thesis unfolding watches_out_def hasPendingOutput_def by blast
qed

theorem pollout_iff_pending_witness:
  "\<exists>q. filter (\<lambda>q. pfd_fd q = 5) (sv_pollfds lobby) = [q] \<and> \<not> pfd_events q AND POLLOUT \<noteq> 0"
proof -
  have "find_connection lobby 5 = Some (new_Connection 5)" by code_simp
  from pollout_iff_pending [OF lobby_reachable this] show ?thesis by (simp add: new_Connection_def)
qed

text \<open>C21: no client is ever found to have timed out, so the branch that disconnects with
  ``Ping timeout'' never runs: a turn of the loop is its scan over the poll table and nothing else.
  The cause is that nothing calls \<open>generatePing\<close>.\<close>

theorem no_ping_timeout:
  assumes "reachable p l pw v" "env_ok env v"
  shows "collectTimedOutClients (sv_healthMonitor v) now = []
    \<and> serve_events env v = scan env 0 (poll_revents env v)"
  using reachable_inv [OF assms(1)] server_invD(4) hm_idle_no_timeout serve_events_eq_scan assms(2) by blast

theorem no_ping_timeout_witness: "collectTimedOutClients (sv_healthMonitor demo) 1000000 = []"
  using no_ping_timeout [OF demo_reachable, of "receiving 4 []" 1000000] by simp

section \<open>Commands\<close>

text \<open>C16: whatever line a client sends, the dispatcher returns; it keeps the invariant of the
  application state, answers only descriptors that are connected, and each answer is one protocol
  line.\<close>

theorem replies_well_formed:
  assumes "reachable p l pw v" "LF \<notin> set line"
  shows "succeeds (dispatch fd (parse line) hm now (sv_state v)) (\<lambda>(r, s', hm'). state_inv s' \<and>
    (\<forall>q \<in> set (replies r). getClientByFd (sv_state v) (fst q) \<noteq> None \<and> is_line (snd q)))"
proof -
  have inv: "state_inv (sv_state v)" "state_clean (sv_state v)"
    using reachable_inv [OF assms(1)] server_invD(1,2) by blast+
  have "msg_clean (parse line)" using assms(2) by (intro parse_clean) (simp add: clean_def)
  with dispatch_succeeds [OF inv(1), of fd "parse line" hm now] inv(2) show ?thesis
    by (auto simp: handled_def replies_ok_def elim!: succeeds_mono)
qed

theorem replies_well_formed_witness:
  "succeeds (dispatch 5 (parse ''KICK #c ann'') None 0 (sv_state demo)) (\<lambda>(r, s', hm'). state_inv s' \<and>
    (\<forall>q \<in> set (replies r). getClientByFd (sv_state demo) (fst q) \<noteq> None \<and> is_line (snd q)))"
  by (rule replies_well_formed [OF demo_reachable]) simp

text \<open>C3: how a command changes the channels, seen as sets of descriptors. A message leaves all
  sets alone, or it is a JOIN that the modes \<open>i\<close>, \<open>k\<close>, \<open>l\<close> allow and inserts the
  sender, or a PART and removes the sender, or a KICK by an operator of that channel and removes the
  named client.\<close>

theorem command_membership:
  assumes "state_inv s" "getClientByFd s fd = Some a" "dispatch fd msg hm now s = Some (r, s', hm')"
  shows "same_view s s'
    \<or> msg_command msg = ''JOIN'' \<and> may_join s a msg \<and> entered s (getSingleParam msg 0) fd s'
    \<or> msg_command msg = ''PART'' \<and> left s (getSingleParam msg 0) fd s'
    \<or> msg_command msg = ''KICK'' \<and> operator_of s a (getSingleParam msg 0)
      \<and> (\<exists>b d. getClientByNick s (getSingleParam msg 1) = Some b \<and> deref_client s b = Some d
        \<and> left s (getSingleParam msg 0) (cl_fd d) s')"
  using dispatch_effect [OF assms(1,2), of msg hm now] assms(3) by (auto simp: yields_def command_effect_def)

theorem command_membership_witness:
  "\<exists>r s' hm'. dispatch 5 (parse ''TOPIC #c :t'') None 0 (sv_state demo) = Some (r, s', hm') \<and> same_view (sv_state demo) s'"
proof -
  from dispatch_succeeds [OF demo_inv(3), of 5 "parse ''TOPIC #c :t''" None 0] obtain r s' hm' where
    run: "dispatch 5 (parse ''TOPIC #c :t'') None 0 (sv_state demo) = Some (r, s', hm')" unfolding succeeds_iff by auto
  have "getClientByFd (sv_state demo) 5 = Some 2" by (simp add: getClientByFd_def demo_tables equivalent_def)
  moreover have "msg_command (parse ''TOPIC #c :t'') = ''TOPIC''" by code_simp
  ultimately show ?thesis using command_membership [OF demo_inv(3) _ run, of 2] run by auto
qed



text \<open>C9: JOIN returns, and lets the client in exactly if it is registered, the name is a valid
  channel name and the modes of the channel allow it; otherwise the state is untouched.\<close>

theorem join_exact:
  assumes "state_inv s" "deref_client s a = Some c"
  shows "succeeds (handleJoin (cl_fd c) msg a s) (\<lambda>(r, s').
    if cl_registered c \<and> hasParam msg 0 \<and> isValidChannelName (getSingleParam msg 0) \<and> may_join s a msg
    then entered s (getSingleParam msg 0) (cl_fd c) s' else s' = s)"
  by (rule handleJoin_exact [OF assms])

theorem join_exact_witness:
  "succeeds (handleJoin 6 (parse ''JOIN #C'') 3 (sv_state demo)) (\<lambda>(r, s'). channel_view s' ''#c'' = {4, 5, 6})"
proof -
  have msg: "hasParam (parse ''JOIN #C'') 0" "getSingleParam (parse ''JOIN #C'') 0 = ''#C''" by code_simp+
  have key: "irc_key ''#c'' = irc_key ''#C''" by code_simp
  have "getChannel (sv_state demo) ''#C'' = Some 4"
    using demo_names(1) lookup_equivalent(2) [OF key, of "sv_state demo"] by simp
  then have "may_join (sv_state demo) 3 (parse ''JOIN #C'')"
    by (simp add: may_join_def channel_named_def msg demo_lookup) (simp add: room_def new_ChannelModes_def)
  moreover have "isValidChannelName ''#C''" by code_simp
  ultimately show ?thesis
    using join_exact [OF demo_inv(3) demo_lookup(6), of "parse ''JOIN #C''"]
    by (auto simp: msg user_def entered_def key demo_view elim!: succeeds_mono)
qed

text \<open>C11: what INVITE promises: it returns, and the client it names may then enter the channel with
  JOIN, invite-only or not, if the channel has no key and no limit.\<close>

theorem invitation_admits:
  assumes "state_inv s" "deref_client s a = Some c" "cl_registered c" "2 \<le> getParamCount msg"
    and "isValidNickname (getSingleParam msg 0)" "isValidChannelName (getSingleParam msg 1)"
    and "getClientByNick s (getSingleParam msg 0) = Some b" "deref_client s b = Some d" "cl_registered d"
    and "channel_named s (getSingleParam msg 1) = Some h" "hasMember h a" "\<not> hasMember h b"
    and "cm_inviteOnly (ch_modes h) \<longrightarrow> isOperator h a" "\<not> cm_hasKey (ch_modes h)" "cm_limit (ch_modes h) < 0"
  shows "succeeds (handleInvite (cl_fd c) msg a s) (\<lambda>(r, s').
    succeeds (handleJoin (cl_fd d) (new_Message [] ''JOIN'' [getSingleParam msg 1]) b s')
      (\<lambda>(r, s''). entered s' (getSingleParam msg 1) (cl_fd d) s''))"
proof (rule succeeds_mono [OF handleInvite_run [OF assms(1-7,10-12)]])
  show "cm_inviteOnly (ch_modes h) \<Longrightarrow> isOperator h a" using assms(13) by blast
next
  fix p assume "case p of (r, s') \<Rightarrow> state_inv s' \<and> deref_client s' = deref_client s
    \<and> channel_named s' (getSingleParam msg 1) = Some (addInvite b h)"
  with invited_may_enter [of "snd p" b d "getSingleParam msg 1" h] assms(6,8,9,14,15)
  show "case p of (r, s') \<Rightarrow> succeeds (handleJoin (cl_fd d) (new_Message [] ''JOIN'' [getSingleParam msg 1]) b s')
      (\<lambda>(r, s''). entered s' (getSingleParam msg 1) (cl_fd d) s'')"
    by (cases p) simp
qed

theorem invitation_admits_witness:
  "succeeds (handleInvite 4 (parse ''INVITE eve #c'') 1 (sv_state demo)) (\<lambda>(r, s').
    succeeds (handleJoin 6 (new_Message [] ''JOIN'' [''#c'']) 3 s') (\<lambda>(r, s''). entered s' ''#c'' 6 s''))"
proof -
  let ?m = "parse ''INVITE eve #c''"
  have m: "2 \<le> getParamCount ?m" "getSingleParam ?m 0 = ''eve''" "getSingleParam ?m 1 = ''#c''" by code_simp+
  have n: "isValidNickname ''eve''" "isValidChannelName ''#c''" by code_simp+
  have eve: "getClientByNick (sv_state demo) ''eve'' = Some 3"
    unfolding getClientByNick_def demo_tables by code_simp
  have room: "channel_named (sv_state demo) ''#c'' = Some room"
    by (simp add: channel_named_def demo_names demo_lookup)
  have modes: "\<not> cm_inviteOnly (ch_modes room)" "\<not> cm_hasKey (ch_modes room)" "cm_limit (ch_modes room) < 0"
    by (simp_all add: room_def new_ChannelModes_def)
  from invitation_admits [OF demo_inv(3) demo_lookup(4) _ m(1), of 3 "user ''eve'' 6 []" room]
  show ?thesis using n eve room modes demo_lookup(6) by (simp add: m room_members del: One_nat_def) (simp add: user_def)
qed

text \<open>C10: NICK on every branch: a missing parameter (461), an invalid name (432) and a name of another
  client, up to case (433), are refused with that one reply and change nothing; otherwise the table moves the client from its old name to the new one, nobody
  else changes, and the client is welcomed, once, if this completes its registration.\<close>

theorem nick_exact:
  assumes "state_inv s" "deref_client s a = Some c" "nick = getSingleParam msg 0"
  shows "succeeds (handleNick (cl_fd c) msg a s) (\<lambda>(r, s').
    if \<not> hasParam msg 0 then s' = s \<and> replies r = [(cl_fd c, needMoreParams c ''NICK'')]
    else if \<not> isValidNickname nick then s' = s \<and> replies r = [(cl_fd c, erroneousNickname c nick)]
    else if getClientByNick s nick \<notin> {None, Some a} then s' = s \<and> replies r = [(cl_fd c, nickInUse nick)]
    else deref_client s' = (deref_client s)(a := Some (named c nick))
      \<and> getClientByNick s' = moved a (cl_nickname c) nick (getClientByNick s)
      \<and> replies r = (if cl_registered (named c nick) \<and> \<not> cl_registered c
          then [(cl_fd c, reply_welcome (named c nick))] else []))"
  by (rule handleNick_run [OF assms])

theorem nick_exact_witness:
  "succeeds (handleNick 5 (parse ''NICK Ann'') 2 (sv_state demo)) (\<lambda>(r, s').
    s' = sv_state demo \<and> replies r = [(5, nickInUse ''Ann'')])"
proof -
  have m: "hasParam (parse ''NICK Ann'') 0" "''Ann'' = getSingleParam (parse ''NICK Ann'') 0" by code_simp+
  have "isValidNickname ''Ann''" by code_simp
  moreover have "getClientByNick (sv_state demo) ''Ann'' = Some 1"
    unfolding getClientByNick_def demo_tables by code_simp
  ultimately show ?thesis using nick_exact [OF demo_inv(3) demo_lookup(5) m(2)] m(1) by (simp add: user_def)
qed

text \<open>C8: what a command changes of the clients, their channels apart: nothing, or the identity of
  the sender and of nobody else, by PASS with the password, by NICK with a valid name, or by USER,
  the last two only after PASS and completing the registration where nothing is missing.\<close>

theorem command_identity:
  assumes "state_inv s" "getClientByFd s fd = Some a" "dispatch fd msg hm now s = Some (r, s', hm')"
  shows "\<exists>c c'. deref_client s a = Some c \<and> identity_step (getPassword s) msg c c'
    \<and> (\<forall>b. map_option identity (deref_client s' b) =
        (if b = a then Some (identity c') else map_option identity (deref_client s b)))"
proof -
  from dispatch_identity [OF assms(1,2), of msg hm now] assms(3) have "identity_effect s a msg s'"
    by (auto simp: yields_def)
  then show ?thesis unfolding identity_effect_def identities_def getPassword_def by (auto simp: fun_eq_iff)
qed

theorem command_identity_witness:
  "\<exists>r s' hm'. dispatch 5 (parse ''KICK #c ann'') None 0 (sv_state demo) = Some (r, s', hm')
     \<and> map_option cl_nickname (deref_client s' 1) = Some ''ann''"
proof -
  from dispatch_succeeds [OF demo_inv(3), of 5 "parse ''KICK #c ann''" None 0] obtain r s' hm' where
    run: "dispatch 5 (parse ''KICK #c ann'') None 0 (sv_state demo) = Some (r, s', hm')" unfolding succeeds_iff by auto
  from command_identity [OF demo_inv(3) demo_lookup(2) run]
  have "map_option identity (deref_client s' 1) = map_option identity (deref_client (sv_state demo) 1)" by auto
  then obtain z where z: "deref_client s' 1 = Some z" "identity z = identity (user ''ann'' 4 [4])"
    unfolding demo_lookup(4) by auto
  from arg_cong [OF z(2), of cl_nickname] have "cl_nickname z = ''ann''" by (simp add: identity_def user_def)
  with run z(1) show ?thesis by auto
qed

text \<open>C15: before it has given the password, a client can do nothing to the state but give it.\<close>

theorem locked_before_password:
  assumes "state_inv s" "getClientByFd s fd = Some a" "deref_client s a = Some c" "\<not> cl_passOk c"
    and "dispatch fd msg hm now s = Some (r, s', hm')"
  shows "s' = s \<or> msg_command msg = ''PASS'' \<and> hasParam msg 0 \<and> getSingleParam msg 0 = getPassword s
    \<and> s' = store_client a (c\<lparr>cl_passOk := True\<rparr>) s"
  using dispatch_locked [OF assms(1-4), of msg hm now] assms(5) by (auto simp: yields_def getPassword_def)

theorem locked_before_password_witness:
  "\<exists>r hm'. dispatch 4 (parse ''JOIN #c'') None 0 (sv_state lobby) = Some (r, sv_state lobby, hm')"
proof -
  have inv: "state_inv (sv_state lobby)" using reachable_inv [OF lobby_reachable] server_invD(1) by blast
  from dispatch_succeeds [OF inv, of 4 "parse ''JOIN #c''" None 0] obtain r s' hm' where
    run: "dispatch 4 (parse ''JOIN #c'') None 0 (sv_state lobby) = Some (r, s', hm')" unfolding succeeds_iff by auto
  have "getClientByFd (sv_state lobby) 4 = Some 1" "deref_client (sv_state lobby) 1 = Some (new_Client 4 ''h'')"
    "\<not> cl_passOk (new_Client 4 ''h'')" "msg_command (parse ''JOIN #c'') = ''JOIN''" by code_simp+
  with locked_before_password [OF inv _ _ _ run] run show ?thesis by fastforce
qed

text \<open>C12: from socket to socket: when a member of a channel completes a PRIVMSG line to it, in however
  many reads, the turn of the loop that reads the end of the line appends the message, once, to the
  send buffer of every other member; no other output is produced, and the chat does not change.\<close>

theorem privmsg_delivered:
  assumes "reachable p l pw v" "find_connection v fd = Some conn"
    and "cn_recvBuffer conn @ d = line @ CRLF" "LF \<notin> set line" "length line \<le> 510"
    and "getClientByFd (sv_state v) fd = Some a" "deref_client (sv_state v) a = Some c" "cl_registered c"
    and "msg_command (parse line) = ''PRIVMSG''" "2 \<le> getParamCount (parse line)" "n = getSingleParam (parse line) 0"
    and "is_channel_target n" "isValidChannelName n" "fd \<in> channel_view (sv_state v) n"
  shows "\<exists>v'. serve_events (receiving fd d) v = Some (Inr v') \<and> sv_state v' = sv_state v \<and>
    (\<forall>e. map_option cn_sendBuffer (find_connection v' e) = map_option (\<lambda>conn. cn_sendBuffer conn @
       (if e \<in> channel_view (sv_state v) n - {fd}
        then '':'' @ getFullPrefix c @ '' PRIVMSG '' @ n @ '' :'' @ getSingleParam (parse line) 1 @ CRLF
        else [])) (find_connection v e))"
proof -
  have line: "'':'' @ getFullPrefix c @ '' PRIVMSG '' @ getSingleParam (parse line) 0 @ '' :'' @ getSingleParam (parse line) 1 @ CRLF
      = text_line ''PRIVMSG'' c (parse line)" by (simp add: text_line_def)
  have inv: "server_inv v" "recv_inv {} v" using reachable_inv [OF assms(1)] by auto
  show ?thesis unfolding assms(11) line
    by (rule turn_privmsg [OF inv assms(2-7)]) (use assms in \<open>simp_all add: isRegistered_def\<close>)
qed

theorem privmsg_delivered_witness:
  "\<exists>v'. serve_events (receiving 4 (''PRIVMSG #c :hi'' @ CRLF)) demo = Some (Inr v') \<and>
     map_option cn_sendBuffer (find_connection v' 5) =
     map_option (\<lambda>conn. cn_sendBuffer conn @ '':ann!u@h PRIVMSG #c :hi'' @ CRLF) (find_connection demo 5)"
proof -
  let ?m = "parse ''PRIVMSG #c :hi''"
  have m: "msg_command ?m = ''PRIVMSG''" "2 \<le> getParamCount ?m" "''#c'' = getSingleParam ?m 0"
    "getSingleParam ?m 1 = ''hi''" by code_simp+
  have n: "is_channel_target ''#c''" "isValidChannelName ''#c''" by code_simp+
  have ann: "cl_registered (user ''ann'' 4 [4])" "getFullPrefix (user ''ann'' 4 [4]) = ''ann!u@h''" by code_simp+
  have "map_option cn_recvBuffer (find_connection demo 4) = Some []" by code_simp
  then obtain conn where conn: "find_connection demo 4 = Some conn" "cn_recvBuffer conn = []" by auto
  have "\<exists>v'. serve_events (receiving 4 (''PRIVMSG #c :hi'' @ CRLF)) demo = Some (Inr v') \<and> sv_state v' = sv_state demo \<and>
    (\<forall>e. map_option cn_sendBuffer (find_connection v' e) = map_option (\<lambda>conn. cn_sendBuffer conn @
       (if e \<in> channel_view (sv_state demo) ''#c'' - {4}
        then '':'' @ getFullPrefix (user ''ann'' 4 [4]) @ '' PRIVMSG '' @ ''#c'' @ '' :'' @ getSingleParam ?m 1 @ CRLF
        else [])) (find_connection demo e))"
    by (rule privmsg_delivered [OF demo_reachable conn(1) _ _ _ demo_lookup(1,4) ann(1) m(1-3) n])
      (simp_all add: conn(2) demo_view)
  then show ?thesis unfolding ann(2) m(4) demo_view by fastforce
qed

text \<open>C20: a NOTICE never causes an error reply, whatever its target: every reply is the NOTICE
  itself.\<close>

theorem notice_never_answered:
  assumes "state_inv s" "deref_client s a = Some c"
  shows "succeeds (handleNotice (cl_fd c) msg a s) (\<lambda>(r, s'). s' = s \<and> (\<forall>q \<in> set (replies r).
    snd q = '':'' @ getFullPrefix c @ '' NOTICE '' @ getSingleParam msg 0 @ '' :'' @ getSingleParam msg 1 @ CRLF))"
proof -
  have core: "core_inv s" using assms(1) by blast
  show ?thesis
    by (rule succeeds_yields [OF notice.keeps_contract [OF assms refl]], rule yields_mono [OF handleNotice_replies [OF core assms(2)]])
      (auto simp: text_line_def image_subset_iff)
qed

theorem notice_never_answered_witness:
  "succeeds (handleNotice 5 (parse ''NOTICE nobody :hi'') 2 (sv_state demo)) (\<lambda>(r, s'). s' = sv_state demo)"
  using notice_never_answered [OF demo_inv(3) demo_lookup(5), of "parse ''NOTICE nobody :hi''"]
  by (auto simp: user_def elim!: succeeds_mono)

text \<open>C13: when a client disconnects, everybody who shares a channel with it is told exactly once,
  and nobody else.\<close>

theorem quit_told_once:
  assumes "state_inv s" "getClientByFd s fd = Some a" "deref_client s a = Some c"
  shows "succeeds (DisconnectNotifier_build (new_DisconnectEvent fd reason) s) (\<lambda>r.
    distinct (map fst (replies r)) \<and> fst ` set (replies r) = (\<Union>n \<in> {n. fd \<in> channel_view s n}. channel_view s n) - {fd}
    \<and> (\<forall>q \<in> set (replies r). snd q = '':'' @ getFullPrefix c @ '' QUIT :'' @ reason @ CRLF))"
proof -
  have "core_inv s" using assms(1) by blast
  from quit_targets_view [OF this assms(2,3)] build_succeeds [of s "new_DisconnectEvent fd reason" a c] assms
  show ?thesis by (auto simp: new_DisconnectEvent_def reply_quit_def elim!: succeeds_mono)
qed

theorem quit_told_once_witness:
  "succeeds (DisconnectNotifier_build (new_DisconnectEvent 4 ''gone'') (sv_state demo)) (\<lambda>r. 5 \<in> fst ` set (replies r))"
  by (rule succeeds_mono [OF quit_told_once [OF demo_inv(3) demo_lookup(1,4)]])
    (use demo_view in \<open>auto intro!: exI [of _ "''#c''"]\<close>)

text \<open>C14: removing a client takes its descriptor out of every channel, frees its nickname, and
  leaves everybody else where they were.\<close>

theorem removal_complete:
  assumes "state_inv s" "getClientByFd s fd = Some a" "deref_client s a = Some c"
  shows "succeeds (removeClient fd s) (\<lambda>s'. state_inv s' \<and> (\<forall>n. channel_view s' n = channel_view s n - {fd})
    \<and> deref_client s' = (deref_client s)(a := None) \<and> getClientByNick s' (cl_nickname c) = None
    \<and> (\<forall>x h. deref_channel s' x = Some h \<longrightarrow> \<not> isInvited h a))"
proof -
  from removeClient_succeeds [OF assms] obtain s' where s': "removeClient fd s = Some s'" "state_inv s'"
    "deref_client s' = (deref_client s)(a := None)" "getClientByNick s' (cl_nickname c) = None"
    unfolding succeeds_iff by auto
  have "\<not> isInvited h a" if "deref_channel s' x = Some h" for x h
  proof
    assume "isInvited h a"
    then have "deref_client s' a \<noteq> None"
      using core_invD(5) [OF state_invD(1) [OF s'(2)]] that unfolding member_inv_def by blast
    then show False by (simp add: s'(3))
  qed
  with s' removeClient_view [OF assms] show ?thesis by auto
qed

theorem removal_complete_witness:
  "succeeds (removeClient 5 (sv_state demo)) (\<lambda>s'. channel_view s' ''#c'' = {4} \<and> getClientByNick s' ''bob'' = None)"
  by (rule succeeds_mono [OF removal_complete [OF demo_inv(3) demo_lookup(2,5)]])
    (use demo_view in \<open>auto simp: user_def\<close>)

end
